(* ===== verification/Externals.thy ===== *)
theory Externals
  imports Prelude
begin

section \<open>Values at the boundary: JSON, URLs, the environment\<close>

text \<open>
  The values third-party crates hand the code, at the level the code looks at them: the variants of
  \<open>serde_json::Value\<close> and its accessors, the parts of a \<open>url::Url\<close> the code reads, and the process
  environment. Turning text into these values (\<open>serde_json::from_str\<close>, \<open>url::Url::parse\<close>) is
  not in this repository, so it is an argument of every definition that uses it.
\<close>

subsection \<open>JSON values\<close>

text \<open>A number is an integer, or the bits of a float, which the code only passes on.\<close>

datatype json_number = NInt int | NFloat u64

text \<open>An object is a map from keys to values: the code inserts, removes and looks up, and never
  depends on the order of the keys.\<close>

datatype json =
    JNull
  | JBool bool
  | JNum json_number
  | JStr string
  | JArr "json list"
  | JObj "string \<Rightarrow> json option"

text \<open>\<open>Value::get\<close>, \<open>as_str\<close>, \<open>pointer\<close> (for tokens that are not array indices) and the
  \<open>json!\<close> object literal.\<close>

fun jget :: "json \<Rightarrow> string \<Rightarrow> json option" where
  "jget (JObj m) k = m k"
| "jget _ k = None"

fun as_str :: "json \<Rightarrow> string option" where
  "as_str (JStr s) = Some s"
| "as_str _ = None"

fun jpointer :: "json \<Rightarrow> string list \<Rightarrow> json option" where
  "jpointer v [] = Some v"
| "jpointer v (k # ks) = (case jget v k of None \<Rightarrow> None | Some w \<Rightarrow> jpointer w ks)"

definition get_str :: "json \<Rightarrow> string \<Rightarrow> string option" where
  "get_str v k = Option.bind (jget v k) as_str"

definition json_obj :: "(string \<times> json) list \<Rightarrow> json" where
  "json_obj kvs = JObj (map_of kvs)"

text \<open>\<open>Map::insert\<close> of an optional member: nothing is inserted for \<open>None\<close>.\<close>

definition insert_opt :: "string \<Rightarrow> json option \<Rightarrow> (string \<Rightarrow> json option) \<Rightarrow> (string \<Rightarrow> json option)" where
  "insert_opt k v m = (case v of None \<Rightarrow> m | Some j \<Rightarrow> m(k \<mapsto> j))"

lemma as_str_Some_iff [str_simps]: "as_str v = Some s \<longleftrightarrow> v = JStr s"
  by (cases v) auto

lemma get_str_Some_iff [str_simps]: "get_str v k = Some s \<longleftrightarrow> jget v k = Some (JStr s)"
  by (auto simp: get_str_def str_simps bind_eq_Some_conv)

lemma jget_json_obj [simp]: "jget (json_obj kvs) k = map_of kvs k"
  by (simp add: json_obj_def)

lemma get_str_json_obj [simp]: "get_str (json_obj kvs) k = Option.bind (map_of kvs k) as_str"
  by (simp add: get_str_def)

lemma insert_opt_simps [simp]:
  "insert_opt k None m = m" "insert_opt k (Some j) m = m(k \<mapsto> j)"
  by (simp_all add: insert_opt_def)

subsection \<open>URLs\<close>

text \<open>\<open>url::Host\<close>, each variant carrying its printed form, and what the code reads of a parsed URL.\<close>

datatype url_host = Domain string | Ipv4 string | Ipv6 string

record url =
  url_scheme :: string
  url_host_of :: "url_host option"
  url_host_str :: "string option"
  url_port_or_known_default :: "u16 option"

type_synonym url_parser = "string \<Rightarrow> string + url"

subsection \<open>The process environment\<close>

type_synonym env = "string \<Rightarrow> string option"

text \<open>\<open>std::env::var(name).map(|v| v == "1").unwrap_or(false)\<close>\<close>

definition env_is_1 :: "env \<Rightarrow> string \<Rightarrow> bool" where
  "env_is_1 e name = (case e name of Some v \<Rightarrow> v = ''1'' | None \<Rightarrow> False)"

lemma env_is_1_iff [str_simps]: "env_is_1 e name \<longleftrightarrow> e name = Some ''1''"
  by (auto simp: env_is_1_def split: option.splits)

end
