(* ===== verification/Errors.thy ===== *)
theory Errors
  imports Externals
begin

section \<open>Errors (src/errors.rs)\<close>

text \<open>
  \<open>SdkError\<close> and \<open>CommandError\<close>. Where a variant of \<open>SdkError\<close> carries a message, the model
  carries the reason the message states, one constructor per message of the source, with the values
  the message interpolates; text made by third-party code (a parse error, a socket error) stays text.
\<close>

datatype tls_hint = EnvHalfMissing | ConfigHalfMissing | BothHalvesMissing

datatype config_msg =
    ManagerUrlsEmpty
  | ManagerUrlsTooMany nat
  | UrlTooLong nat
  | UrlNotTls nat string tls_hint
  | UrlUnparsable nat string
  | UrlDuplicate nat string
  | DeviceTypeLength
  | CredentialsHalfSet
  | CredentialsMissing
  | HeartbeatOutOfRange nat
  | InvalidUrl string
  | UrlNoHost string
  | UrlNoPort string
  | NoCredentialsConfigured

datatype tls_msg =
    InsecureNotAllowed
  | FingerprintLength nat
  | FingerprintNonHex
  | VerifierBuildFailed string

datatype ws_msg =
    Tungstenite string
  | AuthFrameNotTaken nat
  | DnsFailed string string
  | DnsTimedOut string nat
  | TcpFailed string nat string
  | TcpTimedOut string
  | UpgradeFailed string string
  | UpgradeTimedOut string nat
  | ManagerSilent nat nat
  | WriteStalled string nat

datatype auth_msg =
    BinaryAuthResponse
  | ClosedDuringAuth
  | NonTextAuthFrame
  | ClosedBeforeAuthResponse
  | MissingNodeId
  | MissingNodeSecret
  | RejectedByManager string
  | UnexpectedAuthType string

datatype channel_msg = ChannelClosed | WorkerStopped | TargetNotSerialisable string

datatype sdk_error =
    Config config_msg
  | Tls tls_msg
  | WebSocket ws_msg
  | Auth auth_msg
  | AuthTimeout
  | CredentialsIo string
  | Channel channel_msg
  | Json string
  | Io string
  | Shutdown
  | Other string

text \<open>\<open>impl From<tungstenite::Error> for SdkError\<close> and \<open>impl From<url::ParseError> for SdkError\<close>.\<close>

definition sdk_from_tungstenite :: "string \<Rightarrow> sdk_error" where
  "sdk_from_tungstenite e = WebSocket (Tungstenite e)"

definition sdk_from_url_parse :: "string \<Rightarrow> sdk_error" where
  "sdk_from_url_parse e = Config (InvalidUrl e)"

record command_error =
  ce_code :: string
  ce_message :: string
  ce_details :: "json option"

text \<open>\<open>CommandError::new\<close>, \<open>with_details\<close>, \<open>unknown_action\<close>, \<open>validation\<close>.\<close>

definition command_error_new :: "string \<Rightarrow> string \<Rightarrow> command_error" where
  "command_error_new code message = \<lparr>ce_code = code, ce_message = message, ce_details = None\<rparr>"

definition command_error_with_details :: "command_error \<Rightarrow> json \<Rightarrow> command_error" where
  "command_error_with_details e details = e\<lparr>ce_details := Some details\<rparr>"

definition command_error_unknown_action :: "string \<Rightarrow> command_error" where
  "command_error_unknown_action action =
     command_error_new ''unknown_action'' (''Unknown action: '' @ action)"

definition command_error_validation :: "string \<Rightarrow> command_error" where
  "command_error_validation message = command_error_new ''validation_error'' message"

end
