(* ===== verification/Events.thy ===== *)
theory Events
  imports Errors
begin

section \<open>Events (src/events.rs)\<close>

text \<open>\<open>EventSeverity\<close>, \<open>GatewayEvent\<close> with its builder methods, and \<open>to_payload\<close>.\<close>

datatype event_severity = Info | Minor | Major | Critical

fun severity_as_str :: "event_severity \<Rightarrow> string" where
  "severity_as_str Info = ''info''"
| "severity_as_str Minor = ''minor''"
| "severity_as_str Major = ''major''"
| "severity_as_str Critical = ''critical''"

record gateway_event =
  ev_severity :: event_severity
  ev_category :: string
  ev_message :: string
  ev_details :: json
  ev_flow_id :: "string option"
  ev_input_id :: "string option"
  ev_output_id :: "string option"

definition event_new :: "event_severity \<Rightarrow> string \<Rightarrow> string \<Rightarrow> gateway_event" where
  "event_new severity category message =
     \<lparr>ev_severity = severity, ev_category = category, ev_message = message, ev_details = JNull,
      ev_flow_id = None, ev_input_id = None, ev_output_id = None\<rparr>"

definition event_info :: "string \<Rightarrow> string \<Rightarrow> gateway_event" where
  "event_info category message = event_new Info category message"

definition event_minor :: "string \<Rightarrow> string \<Rightarrow> gateway_event" where
  "event_minor category message = event_new Minor category message"

definition event_major :: "string \<Rightarrow> string \<Rightarrow> gateway_event" where
  "event_major category message = event_new Major category message"

definition event_critical :: "string \<Rightarrow> string \<Rightarrow> gateway_event" where
  "event_critical category message = event_new Critical category message"

text \<open>The names of \<open>categories\<close>, in the order of the source.\<close>

definition event_categories :: "string list" where
  "event_categories = [''port_conflict'', ''bind_failed'', ''validation_error'', ''connection'',
     ''config_sync'', ''vendor_api'', ''auth'', ''rate_limit'']"

definition event_with_details :: "gateway_event \<Rightarrow> json \<Rightarrow> gateway_event" where
  "event_with_details e details = e\<lparr>ev_details := details\<rparr>"

definition event_with_error_code :: "gateway_event \<Rightarrow> string \<Rightarrow> gateway_event" where
  "event_with_error_code e code =
     (case ev_details e of
        JObj m \<Rightarrow> e\<lparr>ev_details := JObj (m(''error_code'' \<mapsto> JStr code))\<rparr>
      | _ \<Rightarrow> e\<lparr>ev_details := json_obj [(''error_code'', JStr code)]\<rparr>)"

definition event_with_flow_id :: "gateway_event \<Rightarrow> string \<Rightarrow> gateway_event" where
  "event_with_flow_id e i = e\<lparr>ev_flow_id := Some i\<rparr>"

definition event_with_input_id :: "gateway_event \<Rightarrow> string \<Rightarrow> gateway_event" where
  "event_with_input_id e i = e\<lparr>ev_input_id := Some i\<rparr>"

definition event_with_output_id :: "gateway_event \<Rightarrow> string \<Rightarrow> gateway_event" where
  "event_with_output_id e i = e\<lparr>ev_output_id := Some i\<rparr>"

definition event_to_payload :: "gateway_event \<Rightarrow> json" where
  "event_to_payload e =
     JObj
      (insert_opt ''output_id'' (map_option JStr (ev_output_id e))
      (insert_opt ''input_id'' (map_option JStr (ev_input_id e))
      (insert_opt ''flow_id'' (map_option JStr (ev_flow_id e))
      (insert_opt ''details'' (if ev_details e = JNull then None else Some (ev_details e))
        [''severity'' \<mapsto> JStr (severity_as_str (ev_severity e)),
         ''category'' \<mapsto> JStr (ev_category e),
         ''message'' \<mapsto> JStr (ev_message e)]))))"

text \<open>The error code stays readable through \<open>to_payload\<close>, whatever the details were.\<close>

lemma jget_event_to_payload:
  "jget (event_to_payload e) ''severity'' = Some (JStr (severity_as_str (ev_severity e)))"
  "jget (event_to_payload e) ''category'' = Some (JStr (ev_category e))"
  "jget (event_to_payload e) ''message'' = Some (JStr (ev_message e))"
  "jget (event_to_payload e) ''details'' = (if ev_details e = JNull then None else Some (ev_details e))"
  "jget (event_to_payload e) ''flow_id'' = map_option JStr (ev_flow_id e)"
  "jget (event_to_payload e) ''input_id'' = map_option JStr (ev_input_id e)"
  "jget (event_to_payload e) ''output_id'' = map_option JStr (ev_output_id e)"
  by (auto simp: event_to_payload_def insert_opt_def split: option.splits)

end
