(* ===== verification/Envelope.thy ===== *)
theory Envelope
  imports Errors
begin

section \<open>Envelopes (src/envelope.rs) and the dispatch test (src/dispatch.rs)\<close>

text \<open>
  The JSON envelope of every message. \<open>serde_json\<close>'s printer and parser are the record \<open>wire\<close>, an
  argument; what the code relies on is that the parser reads back what the printer wrote, stated
  for the value at hand as \<open>reads_back\<close>. The time stamp is an argument too.
\<close>

record wire =
  w_to_text :: "json \<Rightarrow> string"
  w_of_text :: "string \<Rightarrow> string + json"

definition reads_back :: "wire \<Rightarrow> json \<Rightarrow> bool" where
  "reads_back w v = (w_of_text w (w_to_text w v) = Inr v)"

definition gateway_ws_protocol_version :: u32 where
  "gateway_ws_protocol_version = 1"

definition envelope_value :: "string \<Rightarrow> string \<Rightarrow> json \<Rightarrow> json" where
  "envelope_value now msg_type payload =
     json_obj [(''type'', JStr msg_type), (''timestamp'', JStr now), (''payload'', payload)]"

definition envelope :: "wire \<Rightarrow> string \<Rightarrow> string \<Rightarrow> json \<Rightarrow> string" where
  "envelope w now msg_type payload = w_to_text w (envelope_value now msg_type payload)"

definition auth_register_payload :: "string \<Rightarrow> string \<Rightarrow> string \<Rightarrow> json" where
  "auth_register_payload registration_token software_version device_type =
     json_obj
      [(''registration_token'', JStr registration_token),
       (''software_version'', JStr software_version),
       (''device_type'', JStr device_type),
       (''protocol_version'', JNum (NInt (uint gateway_ws_protocol_version)))]"

definition auth_register :: "wire \<Rightarrow> string \<Rightarrow> string \<Rightarrow> string \<Rightarrow> string \<Rightarrow> string" where
  "auth_register w now registration_token software_version device_type =
     envelope w now ''auth''
       (auth_register_payload registration_token software_version device_type)"

definition auth_reconnect_payload :: "string \<Rightarrow> string \<Rightarrow> string \<Rightarrow> string \<Rightarrow> json" where
  "auth_reconnect_payload node_id node_secret software_version device_type =
     json_obj
      [(''node_id'', JStr node_id),
       (''node_secret'', JStr node_secret),
       (''software_version'', JStr software_version),
       (''device_type'', JStr device_type),
       (''protocol_version'', JNum (NInt (uint gateway_ws_protocol_version)))]"

definition auth_reconnect :: "wire \<Rightarrow> string \<Rightarrow> string \<Rightarrow> string \<Rightarrow> string \<Rightarrow> string \<Rightarrow> string" where
  "auth_reconnect w now node_id node_secret software_version device_type =
     envelope w now ''auth''
       (auth_reconnect_payload node_id node_secret software_version device_type)"

record incoming_message =
  im_type :: string
  im_payload :: json

definition parse_incoming :: "wire \<Rightarrow> string \<Rightarrow> incoming_message option" where
  "parse_incoming w txt =
     (case w_of_text w txt of
        Inl _ \<Rightarrow> None
      | Inr v \<Rightarrow>
          (case get_str v ''type'' of
             None \<Rightarrow> None
           | Some msg_type \<Rightarrow>
               Some \<lparr>im_type = msg_type,
                     im_payload = (case jget v ''payload'' of Some p \<Rightarrow> p | None \<Rightarrow> JNull)\<rparr>))"

text \<open>\<open>action_is_get_config\<close>\<close>

definition action_is_get_config :: "json \<Rightarrow> bool" where
  "action_is_get_config action = (get_str action ''type'' = Some ''get_config'')"

lemma parse_envelope:
  assumes "reads_back w (envelope_value now t p)"
  shows "parse_incoming w (envelope w now t p) = Some \<lparr>im_type = t, im_payload = p\<rparr>"
  using assms by (simp add: parse_incoming_def envelope_def reads_back_def envelope_value_def)

end
