(* ===== verification/Channel.thy ===== *)
theory Channel
  imports Prelude
begin

section \<open>Bounded channels and byte budgets\<close>

text \<open>
  The two tokio primitives the session, the worker and the emitter share, as their documentation
  states them: \<open>mpsc::channel(n)\<close>, a first-in first-out queue of at most \<open>n\<close> messages whose receiver
  can be closed, and \<open>Semaphore\<close>, a number of permits of which a holder takes some and gives them
  back. The locale \<open>bounded_fifo\<close> is the interface their clients rely on.
\<close>

record 'a chan =
  ch_items :: "'a list"
  ch_cap :: nat
  ch_rx_open :: bool
  ch_tx_open :: bool

definition chan_new :: "nat \<Rightarrow> 'a chan" where
  "chan_new n = \<lparr>ch_items = [], ch_cap = n, ch_rx_open = True, ch_tx_open = True\<rparr>"

datatype 'a sent = Sent "'a chan" | Full | Closed

definition try_send :: "'a \<Rightarrow> 'a chan \<Rightarrow> 'a sent" where
  "try_send x c =
     (if \<not> ch_rx_open c then Closed
      else if length (ch_items c) < ch_cap c then Sent (c\<lparr>ch_items := ch_items c @ [x]\<rparr>)
      else Full)"

text \<open>\<open>recv\<close>: a message, nothing yet, or the end (no sender left and nothing queued).\<close>

datatype 'a received = Got 'a "'a chan" | Empty | Ended

definition recv :: "'a chan \<Rightarrow> 'a received" where
  "recv c = (case ch_items c of
       x # xs \<Rightarrow> Got x (c\<lparr>ch_items := xs\<rparr>)
     | [] \<Rightarrow> if ch_tx_open c then Empty else Ended)"

text \<open>\<open>Receiver::close\<close>: nothing more can be sent; what is queued stays.\<close>

definition close_rx :: "'a chan \<Rightarrow> 'a chan" where
  "close_rx c = c\<lparr>ch_rx_open := False\<rparr>"

text \<open>Dropping the receiver: the queue goes with it.\<close>

definition drop_rx :: "'a chan \<Rightarrow> 'a chan" where
  "drop_rx c = c\<lparr>ch_items := [], ch_rx_open := False\<rparr>"

definition drop_tx :: "'a chan \<Rightarrow> 'a chan" where
  "drop_tx c = c\<lparr>ch_tx_open := False\<rparr>"

subsection \<open>The interface of a bounded queue\<close>

locale bounded_fifo =
  fixes contents :: "'q \<Rightarrow> 'a list"
    and capacity :: "'q \<Rightarrow> nat"
    and push :: "'a \<Rightarrow> 'q \<Rightarrow> 'q option"
    and pop :: "'q \<Rightarrow> ('a \<times> 'q) option"
  assumes push_room: "push x q = Some q' \<Longrightarrow> length (contents q) < capacity q"
    and push_contents: "push x q = Some q' \<Longrightarrow> contents q' = contents q @ [x]"
    and push_capacity: "push x q = Some q' \<Longrightarrow> capacity q' = capacity q"
    and pop_contents: "pop q = Some (x, q') \<Longrightarrow> contents q = x # contents q'"
    and pop_capacity: "pop q = Some (x, q') \<Longrightarrow> capacity q' = capacity q"
begin

definition within :: "'q \<Rightarrow> bool" where
  "within q = (length (contents q) \<le> capacity q)"

lemma push_within: "push x q = Some q' \<Longrightarrow> within q'"
  using push_room push_contents push_capacity by (fastforce simp: within_def)

lemma pop_within: "within q \<Longrightarrow> pop q = Some (x, q') \<Longrightarrow> within q'"
  using pop_contents pop_capacity by (fastforce simp: within_def)

text \<open>First in, first out: what is popped after a push was there before it, in the same order.\<close>

lemma push_pop_order:
  assumes "push x q = Some q1" and "pop q1 = Some (y, q2)"
  shows "contents q @ [x] = y # contents q2"
  using push_contents [OF assms(1)] pop_contents [OF assms(2)] by simp

end

definition chan_push :: "'a \<Rightarrow> 'a chan \<Rightarrow> 'a chan option" where
  "chan_push x c = (case try_send x c of Sent c' \<Rightarrow> Some c' | _ \<Rightarrow> None)"

definition chan_pop :: "'a chan \<Rightarrow> ('a \<times> 'a chan) option" where
  "chan_pop c = (case recv c of Got x c' \<Rightarrow> Some (x, c') | _ \<Rightarrow> None)"

lemma chan_push_Some_iff:
  "chan_push x c = Some c' \<longleftrightarrow>
     ch_rx_open c \<and> length (ch_items c) < ch_cap c \<and> c' = c\<lparr>ch_items := ch_items c @ [x]\<rparr>"
  by (auto simp: chan_push_def try_send_def)

lemma chan_pop_Some_iff:
  "chan_pop c = Some (x, c') \<longleftrightarrow> (\<exists>xs. ch_items c = x # xs \<and> c' = c\<lparr>ch_items := xs\<rparr>)"
  by (auto simp: chan_pop_def recv_def split: list.splits)

interpretation mpsc: bounded_fifo ch_items ch_cap chan_push chan_pop
  by unfold_locales (auto simp: chan_push_Some_iff chan_pop_Some_iff)

lemma try_send_Sent_iff: "try_send x c = Sent c' \<longleftrightarrow> chan_push x c = Some c'"
  by (auto simp: chan_push_def split: sent.splits)

lemma sent_facts:
  assumes "try_send x c = Sent c'"
  shows "ch_items c' = ch_items c @ [x]" and "ch_cap c' = ch_cap c" and "mpsc.within c'"
    and "ch_rx_open c'" and "ch_rx_open c"
  using assms mpsc.push_within [of x c c'] by (auto simp: try_send_Sent_iff chan_push_Some_iff)

lemma recv_Got_iff: "recv c = Got x c' \<longleftrightarrow> chan_pop c = Some (x, c')"
  by (auto simp: chan_pop_def split: received.splits)

subsection \<open>Permits\<close>

text \<open>\<open>u32::try_from(len).unwrap_or(u32::MAX)\<close>, what a frame of \<open>len\<close> bytes costs.\<close>

definition permit_cost :: "nat \<Rightarrow> nat" where
  "permit_cost len = (if len < 2 ^ 32 then len else 2 ^ 32 - 1)"

definition try_acquire :: "nat \<Rightarrow> nat \<Rightarrow> nat option" where
  "try_acquire n avail = (if n \<le> avail then Some (avail - n) else None)"

definition release :: "nat \<Rightarrow> nat \<Rightarrow> nat" where
  "release n avail = avail + n"

lemma try_acquire_Some_iff: "try_acquire n avail = Some avail' \<longleftrightarrow> n \<le> avail \<and> avail' = avail - n"
  by (auto simp: try_acquire_def)

end
