(* ===== verification/Emit.thy ===== *)
theory Emit
  imports Events Envelope Channel
begin

section \<open>Emitter (src/emit.rs)\<close>

text \<open>
  The payloads the gateway sends, and the \<open>Emitter\<close> that puts an envelope on the outbound channel.
  A send on a full channel waits for room, so its result is \<open>Waiting\<close> with the frame still to be
  sent; the caller's \<open>await\<close> resumes when the session loop has taken a frame.
\<close>

record gateway_target_health =
  gth_reachable :: bool
  gth_target_address :: string
  gth_gateway_host :: "string option"
  gth_gateway_egress_ip :: "string option"
  gth_last_successful_poll_unix :: "int option"
  gth_last_error_code :: "string option"
  gth_consecutive_failures :: "u32 option"

text \<open>The derived \<open>Serialize\<close>: a \<open>None\<close> field is left out.\<close>

definition target_health_value :: "gateway_target_health \<Rightarrow> json" where
  "target_health_value t =
     JObj
      (insert_opt ''consecutive_failures''
         (map_option (\<lambda>n. JNum (NInt (uint n))) (gth_consecutive_failures t))
      (insert_opt ''last_error_code'' (map_option JStr (gth_last_error_code t))
      (insert_opt ''last_successful_poll_unix''
         (map_option (\<lambda>n. JNum (NInt n)) (gth_last_successful_poll_unix t))
      (insert_opt ''gateway_egress_ip'' (map_option JStr (gth_gateway_egress_ip t))
      (insert_opt ''gateway_host'' (map_option JStr (gth_gateway_host t))
        [''reachable'' \<mapsto> JBool (gth_reachable t),
         ''target_address'' \<mapsto> JStr (gth_target_address t)])))))"

text \<open>\<open>emit_health_with_target\<close>: the typed status is merged in only when \<open>health\<close> is an object.\<close>

fun health_with_target :: "json \<Rightarrow> gateway_target_health \<Rightarrow> json" where
  "health_with_target (JObj m) t = JObj (m(''gateway_target'' \<mapsto> target_health_value t))"
| "health_with_target v t = v"

definition thumbnail_payload :: "(bytes \<Rightarrow> string) \<Rightarrow> string \<Rightarrow> bytes \<Rightarrow> json" where
  "thumbnail_payload base64_encode flow_id jpeg =
     json_obj [(''flow_id'', JStr flow_id), (''image_base64'', JStr (base64_encode jpeg))]"

definition command_ack_payload :: "string \<Rightarrow> command_error + json \<Rightarrow> json" where
  "command_ack_payload command_id result =
     (case result of
        Inr data \<Rightarrow>
          JObj (insert_opt ''data'' (if data = JNull then None else Some data)
            [''command_id'' \<mapsto> JStr command_id, ''success'' \<mapsto> JBool True])
      | Inl err \<Rightarrow>
          JObj (insert_opt ''details'' (ce_details err)
            [''command_id'' \<mapsto> JStr command_id, ''success'' \<mapsto> JBool False,
             ''error'' \<mapsto> JStr (ce_message err), ''error_code'' \<mapsto> JStr (ce_code err)]))"

subsection \<open>Sending\<close>

type_synonym frame = string

datatype emit_result =
    Queued "frame chan"
  | Waiting frame
  | EmitFailed sdk_error

definition send_envelope ::
  "wire \<Rightarrow> string \<Rightarrow> string \<Rightarrow> json \<Rightarrow> frame chan \<Rightarrow> emit_result" where
  "send_envelope w now msg_type payload tx =
     (let frame = envelope w now msg_type payload in
      case try_send frame tx of
        Sent tx' \<Rightarrow> Queued tx'
      | Full \<Rightarrow> Waiting frame
      | Closed \<Rightarrow> EmitFailed (Channel ChannelClosed))"

definition emit_stats :: "wire \<Rightarrow> string \<Rightarrow> json \<Rightarrow> frame chan \<Rightarrow> emit_result" where
  "emit_stats w now stats tx = send_envelope w now ''stats'' stats tx"

definition emit_health :: "wire \<Rightarrow> string \<Rightarrow> json \<Rightarrow> frame chan \<Rightarrow> emit_result" where
  "emit_health w now health tx = send_envelope w now ''health'' health tx"

definition emit_health_with_target ::
  "wire \<Rightarrow> string \<Rightarrow> json \<Rightarrow> gateway_target_health \<Rightarrow> frame chan \<Rightarrow> emit_result" where
  "emit_health_with_target w now health target tx =
     send_envelope w now ''health'' (health_with_target health target) tx"

definition emit_event :: "wire \<Rightarrow> string \<Rightarrow> gateway_event \<Rightarrow> frame chan \<Rightarrow> emit_result" where
  "emit_event w now event tx = send_envelope w now ''event'' (event_to_payload event) tx"

definition emit_event_raw :: "wire \<Rightarrow> string \<Rightarrow> json \<Rightarrow> frame chan \<Rightarrow> emit_result" where
  "emit_event_raw w now payload tx = send_envelope w now ''event'' payload tx"

definition emit_thumbnail ::
  "wire \<Rightarrow> (bytes \<Rightarrow> string) \<Rightarrow> string \<Rightarrow> string \<Rightarrow> bytes \<Rightarrow> frame chan \<Rightarrow> emit_result" where
  "emit_thumbnail w base64_encode now flow_id jpeg tx =
     send_envelope w now ''thumbnail'' (thumbnail_payload base64_encode flow_id jpeg) tx"

definition emit_config_response :: "wire \<Rightarrow> string \<Rightarrow> json \<Rightarrow> frame chan \<Rightarrow> emit_result" where
  "emit_config_response w now config tx = send_envelope w now ''config_response'' config tx"

definition emit_command_ack ::
  "wire \<Rightarrow> string \<Rightarrow> string \<Rightarrow> command_error + json \<Rightarrow> frame chan \<Rightarrow> emit_result" where
  "emit_command_ack w now command_id result tx =
     send_envelope w now ''command_ack'' (command_ack_payload command_id result) tx"

definition emit_pong :: "wire \<Rightarrow> string \<Rightarrow> frame chan \<Rightarrow> emit_result" where
  "emit_pong w now tx = send_envelope w now ''pong'' JNull tx"

subsection \<open>What an ack says\<close>

text \<open>The manager reads the outcome of a command back out of its ack.\<close>

definition ack_outcome :: "json \<Rightarrow> (string \<times> (command_error + json)) option" where
  "ack_outcome p =
     (case (get_str p ''command_id'', jget p ''success'') of
        (Some i, Some (JBool True)) \<Rightarrow>
          Some (i, Inr (case jget p ''data'' of Some d \<Rightarrow> d | None \<Rightarrow> JNull))
      | (Some i, Some (JBool False)) \<Rightarrow>
          (case (get_str p ''error_code'', get_str p ''error'') of
             (Some c, Some m) \<Rightarrow>
               Some (i, Inl \<lparr>ce_code = c, ce_message = m, ce_details = jget p ''details''\<rparr>)
           | _ \<Rightarrow> None)
      | _ \<Rightarrow> None)"

lemma jget_command_ack_id:
  "get_str (command_ack_payload i r) ''command_id'' = Some i"
  by (auto simp: command_ack_payload_def get_str_def insert_opt_def split: sum.splits option.splits)

lemma ack_outcome_payload: "ack_outcome (command_ack_payload i r) = Some (i, r)"
proof (cases r)
  case (Inl e)
  then show ?thesis
    by (cases "ce_details e") (simp_all add: ack_outcome_def command_ack_payload_def get_str_def)
next
  case (Inr d)
  then show ?thesis
    by (cases "d = JNull") (simp_all add: ack_outcome_def command_ack_payload_def get_str_def)
qed

lemma send_envelope_fifo:
  "send_envelope w now t p tx = Queued tx' \<longleftrightarrow> chan_push (envelope w now t p) tx = Some tx'"
  by (auto simp: send_envelope_def Let_def chan_push_def split: sent.splits)

subsection \<open>Properties\<close>

text \<open>C39: an ack put on the channel by \<open>emit_command_ack\<close> is the last frame of the channel, and the
  manager that parses it gets back the command's id and its result, error code, message and details
  included.\<close>

theorem ack_roundtrip:
  assumes "reads_back w (envelope_value now ''command_ack'' (command_ack_payload i r))"
    and "emit_command_ack w now i r tx = Queued tx'"
  shows "\<exists>fr m. ch_items tx' = ch_items tx @ [fr] \<and> parse_incoming w fr = Some m
           \<and> im_type m = ''command_ack'' \<and> ack_outcome (im_payload m) = Some (i, r)"
  using assms mpsc.push_contents
  by (fastforce simp: emit_command_ack_def send_envelope_fifo parse_envelope ack_outcome_payload)

theorem ack_roundtrip_witness:
  "let r = Inl (command_error_validation ''bad rate'');
       v = envelope_value ''2026-01-01T00:00:00Z'' ''command_ack'' (command_ack_payload ''cmd-1'' r);
       w = \<lparr>w_to_text = (\<lambda>_. ''text''), w_of_text = (\<lambda>_. Inr v)\<rparr>
   in \<exists>fr m. parse_incoming w fr = Some m \<and> ack_outcome (im_payload m) = Some (''cmd-1'', r)"
proof -
  define r where "r = (Inl (command_error_validation ''bad rate'') :: command_error + json)"
  define v where
    "v = envelope_value ''2026-01-01T00:00:00Z'' ''command_ack'' (command_ack_payload ''cmd-1'' r)"
  define w where "w = \<lparr>w_to_text = (\<lambda>_. ''text''), w_of_text = (\<lambda>_. (Inr v :: string + json))\<rparr>"
  have "reads_back w v" by (simp add: w_def reads_back_def)
  moreover have "\<exists>tx'. emit_command_ack w ''2026-01-01T00:00:00Z'' ''cmd-1'' r (chan_new 64) = Queued tx'"
    by (simp add: emit_command_ack_def send_envelope_def chan_new_def try_send_def)
  ultimately show ?thesis
    using ack_roundtrip [of w "''2026-01-01T00:00:00Z''" "''cmd-1''" r "chan_new 64"]
    unfolding Let_def r_def [symmetric] v_def [symmetric] w_def [symmetric] by blast
qed

end
