(* ===== verification/StepSystem.thy ===== *)
theory StepSystem
  imports Main
begin

section \<open>Step systems and their invariants\<close>

text \<open>
  A component with interleavings is a start predicate and a step relation. \<open>reachable\<close> is the least
  predicate that holds of the start states and is closed under steps; the locales state what a
  component's invariant has to satisfy and give what follows for every reachable state.
\<close>

inductive reachable :: "('s \<Rightarrow> bool) \<Rightarrow> ('s \<Rightarrow> 's \<Rightarrow> bool) \<Rightarrow> 's \<Rightarrow> bool"
  for init :: "'s \<Rightarrow> bool" and step :: "'s \<Rightarrow> 's \<Rightarrow> bool"
  where
    reach_init: "init s \<Longrightarrow> reachable init step s"
  | reach_step: "reachable init step s \<Longrightarrow> step s t \<Longrightarrow> reachable init step t"

locale step_invariant =
  fixes init :: "'s \<Rightarrow> bool"
    and step :: "'s \<Rightarrow> 's \<Rightarrow> bool"
    and inv :: "'s \<Rightarrow> bool"
  assumes inv_init: "init s \<Longrightarrow> inv s"
    and inv_step: "inv s \<Longrightarrow> step s t \<Longrightarrow> inv t"
begin

lemma reachable_inv: "reachable init step s \<Longrightarrow> inv s"
  by (induction rule: reachable.induct) (auto intro: inv_init inv_step)

lemma steps_inv: "step\<^sup>*\<^sup>* s t \<Longrightarrow> inv s \<Longrightarrow> inv t"
  by (induction rule: rtranclp_induct) (auto intro: inv_step)

end

text \<open>A system whose every step decreases a measure under the invariant takes finitely many steps.\<close>

locale decreasing_steps = step_invariant +
  fixes size_of :: "'a \<Rightarrow> nat"
  assumes step_decreases: "inv s \<Longrightarrow> step s t \<Longrightarrow> size_of t < size_of s"
begin

lemma steps_bounded: "(step ^^ n) s t \<Longrightarrow> inv s \<Longrightarrow> n + size_of t \<le> size_of s"
proof (induction n arbitrary: t)
  case 0
  then show ?case by simp
next
  case (Suc n)
  then obtain u where u: "(step ^^ n) s u" "step u t" by auto
  then have "inv u" using steps_inv Suc.prems(2) relpowp_imp_rtranclp by metis
  then have "size_of t < size_of u" using step_decreases u(2) by blast
  with Suc.IH [OF u(1) Suc.prems(2)] show ?case by simp
qed

end

text \<open>
  A system implements an abstract one when an abstraction function maps its start states to start states and
  each of its steps to some steps, none included, of the abstract system. Then every state it reaches
  abstracts to a reachable one, so what holds of the abstract system holds of it.
\<close>

locale step_refinement = step_invariant +
  fixes abs_init :: "'b \<Rightarrow> bool"
    and abs_step :: "'b \<Rightarrow> 'b \<Rightarrow> bool"
    and abs_of :: "'a \<Rightarrow> 'b"
  assumes refines_init: "init s \<Longrightarrow> abs_init (abs_of s)"
    and refines_step: "inv s \<Longrightarrow> step s t \<Longrightarrow> abs_step\<^sup>*\<^sup>* (abs_of s) (abs_of t)"
begin

lemma reachable_steps: "abs_step\<^sup>*\<^sup>* x y \<Longrightarrow> reachable abs_init abs_step x \<Longrightarrow> reachable abs_init abs_step y"
  by (induction rule: rtranclp_induct) (auto intro: reach_step)

lemma reachable_refines: "reachable init step s \<Longrightarrow> reachable abs_init abs_step (abs_of s)"
proof (induction rule: reachable.induct)
  case (reach_init s)
  then show ?case by (intro reachable.reach_init refines_init)
next
  case (reach_step s t)
  then show ?case using reachable_steps refines_step reachable_inv by blast
qed

lemma steps_refine: "step\<^sup>*\<^sup>* s t \<Longrightarrow> inv s \<Longrightarrow> abs_step\<^sup>*\<^sup>* (abs_of s) (abs_of t)"
proof (induction rule: rtranclp_induct)
  case (step t u)
  then show ?case using refines_step steps_inv by (meson rtranclp_trans)
qed simp

end

end
