(* ===== verification/Commands.thy ===== *)
theory Commands
  imports Emit StepSystem "HOL-Library.Sublist"
begin

section \<open>The command workers (run_commands and its helpers in src/ws_client.rs)\<close>

text \<open>
  Each session spawns a worker that runs its commands one at a time through the vendor's handler. The
  workers of all sessions share one command turn. A \<open>pool\<close> is all of them with the turn, the line of
  workers waiting for it (a tokio semaphore serves its waiters in order), and logs of what was accepted,
  started, finished and sent. The functions are what a worker does when it is polled; \<open>pool_step\<close>
  interleaves them with the session's own steps. What a handler answers, or that it panics, is an input.
\<close>

definition max_inbound_ws_bytes :: nat where "max_inbound_ws_bytes = 5 * 1024 * 1024"
definition command_queue_size :: nat where "command_queue_size = 64"
definition command_queue_bytes :: nat where "command_queue_bytes = 4 * max_inbound_ws_bytes"

record queued_command =
  qc_id :: string
  qc_frame :: string
  qc_held :: nat

subsection \<open>One command\<close>

text \<open>The action is parsed again from the frame when the command starts.\<close>

definition command_action :: "wire \<Rightarrow> queued_command \<Rightarrow> json" where
  "command_action w c =
     (case map_option im_payload (parse_incoming w (qc_frame c)) of
        Some (JObj payload) \<Rightarrow> (case payload ''action'' of Some a \<Rightarrow> a | None \<Rightarrow> JNull)
      | _ \<Rightarrow> JNull)"

text \<open>The outbound channel: open until the client's loop ends, which closes it (\<open>outbound_rx.close()\<close>). From then
  on every send fails, one that waits for room too; \<open>ClosedAfter n\<close> records how many messages of the command in
  hand had gone through. A send that fails leaves no message, and the code goes on (\<open>let _ =\<close>).\<close>

datatype outbound = OutOpen | ClosedAfter nat

fun through :: "outbound \<Rightarrow> 'a list \<Rightarrow> 'a list" where
  "through OutOpen ms = ms"
| "through (ClosedAfter n) ms = take n ms"

text \<open>What the handler's two methods answer; \<open>None\<close> when the method panics.\<close>

record handler_answers =
  ha_config :: "json option"
  ha_command :: "(command_error + json) option"

datatype joined = JoinedOk | JoinedPanicked | JoinedCancelled

text \<open>The messages of a command's task that the outbound channel takes, and how the task ends.\<close>

definition run_command :: "wire \<Rightarrow> outbound \<Rightarrow> queued_command \<Rightarrow> handler_answers \<Rightarrow> (string \<times> json) list \<times> joined" where
  "run_command w ob c answers =
     (if action_is_get_config (command_action w c) then
        (case ha_config answers of
           None \<Rightarrow> ([], JoinedPanicked)
         | Some cfg \<Rightarrow> (through ob [(''command_ack'', command_ack_payload (qc_id c) (Inr JNull)), (''config_response'', cfg)], JoinedOk))
      else
        (case ha_command answers of
           None \<Rightarrow> ([], JoinedPanicked)
         | Some result \<Rightarrow> (through ob [(''command_ack'', command_ack_payload (qc_id c) result)], JoinedOk)))"

definition handler_panicked :: command_error where
  "handler_panicked = command_error_new ''handler_panicked''
     (''The gateway'' @ [CHR 0x27] @ ''s handler panicked on this command; see the gateway'' @ [CHR 0x27] @ ''s log.'')"

definition finish_command :: "outbound \<Rightarrow> joined \<Rightarrow> string \<Rightarrow> (string \<times> json) list \<times> bool" where
  "finish_command ob j command_id =
     (case j of
        JoinedOk \<Rightarrow> ([], True)
      | JoinedPanicked \<Rightarrow> (through ob [(''command_ack'', command_ack_payload command_id (Inl handler_panicked))], True)
      | JoinedCancelled \<Rightarrow> ([], False))"

text \<open>A task runs to its end with the handler's answers, or is cancelled with the runtime, at the latest while it
  waits to send its last message: then \<open>n\<close> of the messages before that are out.\<close>

datatype task_end = Answered handler_answers | RuntimeGone handler_answers nat

definition see_out :: "wire \<Rightarrow> queued_command \<Rightarrow> task_end \<times> outbound \<Rightarrow> (string \<times> json) list \<times> bool" where
  "see_out w c e =
     (case e of
        (RuntimeGone answers n, ob) \<Rightarrow>
          let (sent, j) = run_command w OutOpen c answers; (more, go_on) = finish_command ob JoinedCancelled (qc_id c)
          in (take n (through ob (butlast sent)) @ more, go_on)
      | (Answered answers, ob) \<Rightarrow>
          let (sent, j) = run_command w ob c answers; (more, go_on) = finish_command ob j (qc_id c)
          in (sent @ more, go_on))"

subsection \<open>Workers\<close>

datatype worker_phase =
    Spawned
  | InLine
  | Idle
  | Running queued_command
  | Draining queued_command
  | Stopped

record worker =
  wk_phase :: worker_phase
  wk_queue :: "queued_command chan"
  wk_budget :: nat
  wk_over :: bool

record pool =
  po_workers :: "worker list"
  po_turn :: "nat option"
  po_line :: "nat list"
  po_accepted :: "(nat \<times> queued_command) list"
  po_started :: "(nat \<times> queued_command) list"
  po_finished :: "(nat \<times> queued_command \<times> task_end \<times> outbound) list"
  po_sent :: "(string \<times> json) list"
  po_outbound :: outbound

definition pool_new :: pool where
  "pool_new = \<lparr>po_workers = [], po_turn = None, po_line = [], po_accepted = [], po_started = [],
     po_finished = [], po_sent = [], po_outbound = OutOpen\<rparr>"

definition worker_new :: worker where
  "worker_new = \<lparr>wk_phase = Spawned, wk_queue = chan_new command_queue_size,
     wk_budget = command_queue_bytes, wk_over = False\<rparr>"

definition set_worker :: "nat \<Rightarrow> worker \<Rightarrow> pool \<Rightarrow> pool" where
  "set_worker k wk p = p\<lparr>po_workers := (po_workers p)[k := wk]\<rparr>"

text \<open>The queue is let go with what is left in it, and its bytes go back to the budget.\<close>

definition drop_queue :: "worker \<Rightarrow> worker" where
  "drop_queue wk = wk\<lparr>wk_queue := drop_rx (wk_queue wk),
     wk_budget := release (sum_list (map qc_held (ch_items (wk_queue wk)))) (wk_budget wk)\<rparr>"

text \<open>A worker returns: its queue is gone, and the turn if it had it.\<close>

definition stop_worker :: "nat \<Rightarrow> pool \<Rightarrow> pool" where
  "stop_worker k p =
     (set_worker k ((drop_queue (po_workers p ! k))\<lparr>wk_phase := Stopped\<rparr>) p)
       \<lparr>po_turn := (if po_turn p = Some k then None else po_turn p),
        po_line := filter (\<lambda>j. j \<noteq> k) (po_line p)\<rparr>"

text \<open>Waiting for the turn: given up once the session is over, taken when it is free and nobody is ahead,
  waited for in line otherwise.\<close>

definition poll_turn :: "nat \<Rightarrow> pool \<Rightarrow> pool" where
  "poll_turn k p =
     (let wk = po_workers p ! k in
      if wk_over wk then stop_worker k p
      else if po_turn p = None \<and> (case po_line p of [] \<Rightarrow> True | j # _ \<Rightarrow> j = k) then
        (set_worker k (wk\<lparr>wk_phase := Idle\<rparr>) p)\<lparr>po_turn := Some k, po_line := filter (\<lambda>j. j \<noteq> k) (po_line p)\<rparr>
      else if k \<in> set (po_line p) then p
      else (set_worker k (wk\<lparr>wk_phase := InLine\<rparr>) p)\<lparr>po_line := po_line p @ [k]\<rparr>)"

text \<open>The loop: stop when the session is over or the queue has ended, else start the command at its head. Its bytes
  go back to the budget in the same step; in the code the spawned task drops the permit when it first runs, so a
  frame routed in between may be refused there and is taken here; no property depends on the difference.\<close>

definition poll_next :: "nat \<Rightarrow> pool \<Rightarrow> pool" where
  "poll_next k p =
     (let wk = po_workers p ! k in
      if wk_over wk then stop_worker k p
      else (case recv (wk_queue wk) of
          Got c q \<Rightarrow>
            (set_worker k (wk\<lparr>wk_phase := Running c, wk_queue := q,
                              wk_budget := release (qc_held c) (wk_budget wk)\<rparr>) p)
              \<lparr>po_started := po_started p @ [(k, c)]\<rparr>
        | Empty \<Rightarrow> p
        | Ended \<Rightarrow> stop_worker k p))"

text \<open>The command's task has ended.\<close>

definition command_joined :: "wire \<Rightarrow> nat \<Rightarrow> queued_command \<Rightarrow> task_end \<Rightarrow> pool \<Rightarrow> pool" where
  "command_joined w k c e p =
     (let (sent, go_on) = see_out w c (e, po_outbound p);
          p' = p\<lparr>po_finished := po_finished p @ [(k, c, e, po_outbound p)], po_sent := po_sent p @ sent\<rparr>;
          wk = po_workers p ! k
      in if go_on \<and> wk_phase wk = Running c then set_worker k (wk\<lparr>wk_phase := Idle\<rparr>) p'
         else stop_worker k p')"

text \<open>The session ended while the command runs: the queue goes now, the turn is kept.\<close>

definition see_over :: "nat \<Rightarrow> queued_command \<Rightarrow> pool \<Rightarrow> pool" where
  "see_over k c p = set_worker k ((drop_queue (po_workers p ! k))\<lparr>wk_phase := Draining c\<rparr>) p"

subsection \<open>The session's side\<close>

text \<open>\<open>route_inbound\<close> on a command: budget first, then the queue. A command with no room is refused.\<close>

datatype queueing = Accepted worker | Refused | WorkerGone

definition queue_command :: "string \<Rightarrow> string \<Rightarrow> worker \<Rightarrow> queueing" where
  "queue_command command_id frame wk =
     (let cost = permit_cost (length frame) in
      case try_acquire cost (wk_budget wk) of
        None \<Rightarrow> Refused
      | Some budget \<Rightarrow>
          (case try_send \<lparr>qc_id = command_id, qc_frame = frame, qc_held = cost\<rparr> (wk_queue wk) of
             Sent q \<Rightarrow> Accepted (wk\<lparr>wk_queue := q, wk_budget := budget\<rparr>)
           | Full \<Rightarrow> Refused
           | Closed \<Rightarrow> WorkerGone))"

text \<open>The command whose task is running or being seen out.\<close>

fun command_in_hand :: "worker_phase \<Rightarrow> queued_command list" where
  "command_in_hand (Running c) = [c]"
| "command_in_hand (Draining c) = [c]"
| "command_in_hand _ = []"

definition in_hand :: "pool \<Rightarrow> (nat \<times> queued_command) list" where
  "in_hand p = (case po_turn p of None \<Rightarrow> []
                | Some k \<Rightarrow> map (Pair k) (command_in_hand (wk_phase (po_workers p ! k))))"

text \<open>The client's loop has ended: no session is left, and none will begin.\<close>

definition close_outbound :: "nat \<Rightarrow> pool \<Rightarrow> pool" where
  "close_outbound n p = p\<lparr>po_outbound := ClosedAfter n\<rparr>"

abbreviation last_session :: "pool \<Rightarrow> nat" where
  "last_session p \<equiv> length (po_workers p) - 1"

inductive pool_step :: "wire \<Rightarrow> pool \<Rightarrow> pool \<Rightarrow> bool" for w :: wire where
  step_spawn: "po_outbound p = OutOpen \<Longrightarrow> \<forall>wk\<in>set (po_workers p). wk_over wk \<Longrightarrow>
     pool_step w p (p\<lparr>po_workers := po_workers p @ [worker_new]\<rparr>)"
| step_accept: "po_workers p \<noteq> [] \<Longrightarrow> k = last_session p \<Longrightarrow> \<not> wk_over (po_workers p ! k) \<Longrightarrow>
     queue_command i f (po_workers p ! k) = Accepted wk \<Longrightarrow>
     pool_step w p ((set_worker k wk p)\<lparr>po_accepted := po_accepted p
        @ [(k, \<lparr>qc_id = i, qc_frame = f, qc_held = permit_cost (length f)\<rparr>)]\<rparr>)"
| step_loop_ended: "po_workers p \<noteq> [] \<Longrightarrow> k = last_session p \<Longrightarrow> \<not> wk_over (po_workers p ! k) \<Longrightarrow>
     pool_step w p (set_worker k ((po_workers p ! k)\<lparr>wk_queue := drop_tx (wk_queue (po_workers p ! k))\<rparr>) p)"
| step_session_over: "po_workers p \<noteq> [] \<Longrightarrow> k = last_session p \<Longrightarrow> \<not> wk_over (po_workers p ! k) \<Longrightarrow>
     pool_step w p (set_worker k ((po_workers p ! k)\<lparr>wk_queue := drop_tx (wk_queue (po_workers p ! k)),
        wk_over := True\<rparr>) p)"
| step_poll_turn: "k < length (po_workers p) \<Longrightarrow> wk_phase (po_workers p ! k) \<in> {Spawned, InLine} \<Longrightarrow>
     pool_step w p (poll_turn k p)"
| step_poll_next: "k < length (po_workers p) \<Longrightarrow> wk_phase (po_workers p ! k) = Idle \<Longrightarrow>
     pool_step w p (poll_next k p)"
| step_joined: "k < length (po_workers p) \<Longrightarrow> wk_phase (po_workers p ! k) \<in> {Running c, Draining c} \<Longrightarrow>
     pool_step w p (command_joined w k c e p)"
| step_see_over: "k < length (po_workers p) \<Longrightarrow> wk_phase (po_workers p ! k) = Running c \<Longrightarrow>
     wk_over (po_workers p ! k) \<Longrightarrow> pool_step w p (see_over k c p)"
| step_close: "po_outbound p = OutOpen \<Longrightarrow> \<forall>wk\<in>set (po_workers p). wk_over wk \<Longrightarrow>
     in_hand p = [] \<longrightarrow> n = 0 \<Longrightarrow> pool_step w p (close_outbound n p)"

inductive_cases pool_stepE: "pool_step w p p'"

subsection \<open>The invariant\<close>

definition holds_turn :: "worker_phase \<Rightarrow> bool" where
  "holds_turn ph = (case ph of Spawned \<Rightarrow> False | InLine \<Rightarrow> False | Stopped \<Rightarrow> False | _ \<Rightarrow> True)"

definition worker_ok :: "worker \<Rightarrow> bool" where
  "worker_ok wk =
     (mpsc.within (wk_queue wk) \<and> ch_cap (wk_queue wk) = command_queue_size
      \<and> wk_budget wk + sum_list (map qc_held (ch_items (wk_queue wk))) = command_queue_bytes)"

definition turn_inv :: "pool \<Rightarrow> bool" where
  "turn_inv p =
     ((\<forall>k<length (po_workers p). holds_turn (wk_phase (po_workers p ! k)) \<longleftrightarrow> po_turn p = Some k)
      \<and> (\<forall>k. po_turn p = Some k \<longrightarrow> k < length (po_workers p))
      \<and> (\<forall>k<length (po_workers p) - 1. wk_over (po_workers p ! k))
      \<and> distinct (po_line p)
      \<and> (\<forall>k. k \<in> set (po_line p) \<longleftrightarrow> k < length (po_workers p) \<and> wk_phase (po_workers p ! k) = InLine))"

definition log_inv :: "wire \<Rightarrow> pool \<Rightarrow> bool" where
  "log_inv w p =
     (map (\<lambda>(k, c, e). (k, c)) (po_finished p) @ in_hand p = po_started p
      \<and> po_sent p = concat (map (\<lambda>(k, c, e). fst (see_out w c e)) (po_finished p)))"

text \<open>What is queued for the last session, the only one that can still start anything.\<close>

definition waiting :: "pool \<Rightarrow> (nat \<times> queued_command) list" where
  "waiting p = (if po_workers p = [] then []
     else map (Pair (last_session p)) (ch_items (wk_queue (po_workers p ! last_session p))))"

definition order_inv :: "pool \<Rightarrow> bool" where
  "order_inv p = subseq (po_started p @ waiting p) (po_accepted p)"

text \<open>A worker that has returned holds no command and takes none.\<close>

definition gone_inv :: "pool \<Rightarrow> bool" where
  "gone_inv p = (\<forall>k<length (po_workers p). wk_phase (po_workers p ! k) = Stopped \<longrightarrow>
     ch_items (wk_queue (po_workers p ! k)) = [] \<and> \<not> ch_rx_open (wk_queue (po_workers p ! k)))"

text \<open>While the outbound channel is open it takes every message; once it is closed all sessions are over, and the
  command in hand then is the only one that finds it closed.\<close>

fun found_open :: "nat \<times> queued_command \<times> task_end \<times> outbound \<Rightarrow> bool" where
  "found_open (k, c, e, ob) = (ob = OutOpen)"

definition out_inv :: "pool \<Rightarrow> bool" where
  "out_inv p =
     (if po_outbound p = OutOpen then list_all found_open (po_finished p)
      else (\<forall>wk\<in>set (po_workers p). wk_over wk)
        \<and> list_all (\<lambda>(k, c, e, ob). ob = OutOpen \<or> ob = po_outbound p) (po_finished p)
        \<and> length (filter (Not \<circ> found_open) (po_finished p)) + length (in_hand p) \<le> 1)"

definition pool_inv :: "wire \<Rightarrow> pool \<Rightarrow> bool" where
  "pool_inv w p = (turn_inv p \<and> log_inv w p \<and> order_inv p \<and> list_all worker_ok (po_workers p)
     \<and> gone_inv p \<and> out_inv p)"

subsection \<open>Workers stay within their queue and budget\<close>

lemma worker_new_ok: "worker_ok worker_new"
  by (simp add: worker_ok_def worker_new_def mpsc.within_def chan_new_def)

lemma worker_ok_phase [simp]:
  "worker_ok (wk\<lparr>wk_phase := ph\<rparr>) = worker_ok wk" "worker_ok (wk\<lparr>wk_over := b\<rparr>) = worker_ok wk"
  "worker_ok (wk\<lparr>wk_queue := drop_tx (wk_queue wk)\<rparr>) = worker_ok wk"
  by (simp_all add: worker_ok_def drop_tx_def mpsc.within_def)

lemma worker_ok_drop: "worker_ok wk \<Longrightarrow> worker_ok (drop_queue wk)"
  by (simp add: worker_ok_def drop_queue_def drop_rx_def release_def mpsc.within_def)

lemma worker_ok_recv:
  "worker_ok wk \<Longrightarrow> recv (wk_queue wk) = Got c q \<Longrightarrow>
     worker_ok (wk\<lparr>wk_phase := ph, wk_queue := q, wk_budget := release (qc_held c) (wk_budget wk)\<rparr>)"
  using mpsc.pop_within [of "wk_queue wk" c q] mpsc.pop_contents [of "wk_queue wk" c q]
    mpsc.pop_capacity [of "wk_queue wk" c q]
  by (simp add: worker_ok_def recv_Got_iff release_def)

lemma queue_command_accepted:
  assumes "queue_command i f wk = Accepted wk'"
  shows "ch_items (wk_queue wk') = ch_items (wk_queue wk)
      @ [\<lparr>qc_id = i, qc_frame = f, qc_held = permit_cost (length f)\<rparr>]"
    and "wk_phase wk' = wk_phase wk" and "wk_over wk' = wk_over wk"
proof -
  obtain q b where q: "try_send \<lparr>qc_id = i, qc_frame = f, qc_held = permit_cost (length f)\<rparr> (wk_queue wk) = Sent q"
    and wk': "wk' = wk\<lparr>wk_queue := q, wk_budget := b\<rparr>"
    using assms by (auto simp: queue_command_def Let_def split: option.splits sent.splits)
  then show "ch_items (wk_queue wk') = ch_items (wk_queue wk)
      @ [\<lparr>qc_id = i, qc_frame = f, qc_held = permit_cost (length f)\<rparr>]"
    using mpsc.push_contents [of _ "wk_queue wk" q] by (simp add: try_send_Sent_iff)
  show "wk_phase wk' = wk_phase wk" and "wk_over wk' = wk_over wk" by (simp_all add: wk')
qed

lemma worker_ok_queue: "worker_ok wk \<Longrightarrow> queue_command i f wk = Accepted wk' \<Longrightarrow> worker_ok wk'"
  using mpsc.push_within mpsc.push_contents mpsc.push_capacity
  by (fastforce simp: worker_ok_def queue_command_def Let_def try_send_Sent_iff try_acquire_Some_iff
      split: option.splits sent.splits)

lemma set_worker_ok:
  "list_all worker_ok (po_workers p) \<Longrightarrow> worker_ok wk \<Longrightarrow> list_all worker_ok (po_workers (set_worker k wk p))"
  by (cases "k < length (po_workers p)") (auto simp: set_worker_def list_all_length nth_list_update)

subsection \<open>One holder of the turn\<close>

lemma holds_turn_simps [simp]:
  "\<not> holds_turn Spawned" "\<not> holds_turn InLine" "\<not> holds_turn Stopped" "holds_turn Idle"
  "holds_turn (Running c)" "holds_turn (Draining c)"
  by (simp_all add: holds_turn_def)

lemma set_worker_simps [simp]:
  "po_workers (set_worker k wk p) = (po_workers p)[k := wk]" "po_turn (set_worker k wk p) = po_turn p"
  "po_line (set_worker k wk p) = po_line p" "po_started (set_worker k wk p) = po_started p"
  "po_accepted (set_worker k wk p) = po_accepted p" "po_finished (set_worker k wk p) = po_finished p"
  "po_sent (set_worker k wk p) = po_sent p"
  by (simp_all add: set_worker_def)

lemma pool_update_simps [simp]:
  "po_outbound (set_worker k wk p) = po_outbound p" "po_workers (close_outbound n p) = po_workers p"
  "po_turn (close_outbound n p) = po_turn p" "po_line (close_outbound n p) = po_line p"
  "po_accepted (close_outbound n p) = po_accepted p" "po_started (close_outbound n p) = po_started p"
  "po_finished (close_outbound n p) = po_finished p" "po_sent (close_outbound n p) = po_sent p"
  "po_outbound (close_outbound n p) = ClosedAfter n"
  "in_hand (close_outbound n p) = in_hand p"
  by (simp_all add: set_worker_def close_outbound_def in_hand_def split: option.split)

lemma drop_queue_simps [simp]: "wk_phase (drop_queue wk) = wk_phase wk" "wk_over (drop_queue wk) = wk_over wk"
  "ch_items (wk_queue (drop_queue wk)) = []"
  by (simp_all add: drop_queue_def drop_rx_def)

text \<open>A worker's record changes, its standing with the turn does not.\<close>

lemma turn_inv_same:
  assumes "turn_inv p" and "k < length (po_workers p)"
    and "holds_turn (wk_phase wk) = holds_turn (wk_phase (po_workers p ! k))"
    and "wk_phase wk = InLine \<longleftrightarrow> wk_phase (po_workers p ! k) = InLine"
    and "wk_over (po_workers p ! k) \<longrightarrow> wk_over wk"
  shows "turn_inv (set_worker k wk p)"
  using assms by (auto simp: turn_inv_def nth_list_update)

lemma turn_inv_stop: "turn_inv p \<Longrightarrow> k < length (po_workers p) \<Longrightarrow> turn_inv (stop_worker k p)"
  by (auto simp: turn_inv_def stop_worker_def nth_list_update)

lemma turn_inv_logs [simp]:
  "turn_inv (p\<lparr>po_started := a\<rparr>) = turn_inv p" "turn_inv (p\<lparr>po_accepted := a\<rparr>) = turn_inv p"
  "turn_inv (p\<lparr>po_finished := b, po_sent := d\<rparr>) = turn_inv p" "turn_inv (close_outbound n p) = turn_inv p"
  by (simp_all add: turn_inv_def)

lemma turn_inv_poll_turn:
  "turn_inv p \<Longrightarrow> k < length (po_workers p) \<Longrightarrow> wk_phase (po_workers p ! k) \<in> {Spawned, InLine} \<Longrightarrow>
     turn_inv (poll_turn k p)"
  by (auto simp: poll_turn_def Let_def turn_inv_stop) (auto simp: turn_inv_def nth_list_update split: list.splits)

lemma turn_inv_spawn:
  "turn_inv p \<Longrightarrow> \<forall>wk\<in>set (po_workers p). wk_over wk \<Longrightarrow> turn_inv (p\<lparr>po_workers := po_workers p @ [worker_new]\<rparr>)"
  by (auto simp: turn_inv_def nth_append worker_new_def less_Suc_eq split: if_splits)

lemma turn_inv_step: "pool_step w p p' \<Longrightarrow> turn_inv p \<Longrightarrow> turn_inv p'"
proof (induction rule: pool_step.induct)
  case (step_accept p k i f wk)
  then have "wk_phase wk = wk_phase (po_workers p ! k)" "wk_over wk = wk_over (po_workers p ! k)"
    using queue_command_accepted(2,3) by blast+
  then show ?case using step_accept by (auto intro!: turn_inv_same)
qed (auto simp: poll_next_def command_joined_def see_over_def Let_def split_beta
    intro!: turn_inv_same turn_inv_stop turn_inv_poll_turn turn_inv_spawn split: received.splits)

subsection \<open>Every command started is in hand or finished\<close>

lemma in_hand_holder:
  "turn_inv p \<Longrightarrow> k < length (po_workers p) \<Longrightarrow> holds_turn (wk_phase (po_workers p ! k)) \<Longrightarrow>
     po_turn p = Some k \<and> in_hand p = map (Pair k) (command_in_hand (wk_phase (po_workers p ! k)))"
  by (auto simp: turn_inv_def in_hand_def)

lemma in_hand_set:
  "turn_inv p \<Longrightarrow> command_in_hand (wk_phase wk) = command_in_hand (wk_phase (po_workers p ! k)) \<Longrightarrow>
     in_hand (set_worker k wk p) = in_hand p"
  by (cases "k < length (po_workers p)")
    (auto simp: in_hand_def nth_list_update list_update_beyond split: option.split)

lemma in_hand_stop:
  assumes "turn_inv p" and "k < length (po_workers p)"
  shows "in_hand (stop_worker k p) = (if po_turn p = Some k then [] else in_hand p)"
  using assms by (auto simp: in_hand_def stop_worker_def turn_inv_def split: option.splits)

lemma stop_logs [simp]:
  "po_started (stop_worker k p) = po_started p" "po_finished (stop_worker k p) = po_finished p"
  "po_sent (stop_worker k p) = po_sent p" "po_accepted (stop_worker k p) = po_accepted p"
  "po_outbound (stop_worker k p) = po_outbound p"
  by (simp_all add: stop_worker_def)

lemma in_hand_logs [simp]:
  "in_hand (p\<lparr>po_started := a\<rparr>) = in_hand p" "in_hand (p\<lparr>po_accepted := a\<rparr>) = in_hand p"
  "in_hand (p\<lparr>po_finished := b, po_sent := d\<rparr>) = in_hand p"
  by (simp_all add: in_hand_def split: option.split)

lemma poll_turn_cases:
  obtains (stop) "poll_turn k p = stop_worker k p" and "wk_over (po_workers p ! k)"
  | (take) l where "poll_turn k p = (set_worker k ((po_workers p ! k)\<lparr>wk_phase := Idle\<rparr>) p)
      \<lparr>po_turn := Some k, po_line := l\<rparr>" and "po_turn p = None" and "\<not> wk_over (po_workers p ! k)"
  | (stay) "poll_turn k p = p"
  | (join) l where "poll_turn k p = (set_worker k ((po_workers p ! k)\<lparr>wk_phase := InLine\<rparr>) p)\<lparr>po_line := l\<rparr>"
proof (cases "wk_over (po_workers p ! k)")
  case True
  then show thesis by (intro stop) (simp_all add: poll_turn_def)
next
  case False
  consider "po_turn p = None \<and> (case po_line p of [] \<Rightarrow> True | j # _ \<Rightarrow> j = k)"
    | "\<not> (po_turn p = None \<and> (case po_line p of [] \<Rightarrow> True | j # _ \<Rightarrow> j = k))" "k \<in> set (po_line p)"
    | "\<not> (po_turn p = None \<and> (case po_line p of [] \<Rightarrow> True | j # _ \<Rightarrow> j = k))" "k \<notin> set (po_line p)"
    by blast
  then show thesis
  proof cases
    case 1
    then show thesis using False by (intro take) (simp_all add: poll_turn_def)
  next
    case 2
    then show thesis using False by (intro stay) (simp only: poll_turn_def Let_def if_False if_True)
  next
    case 3
    then show thesis using False by (intro join) (simp only: poll_turn_def Let_def if_False if_True)
  qed
qed

lemma poll_next_cases:
  obtains (stop) "poll_next k p = stop_worker k p"
  | (stay) "poll_next k p = p"
  | (start) c q where "\<not> wk_over (po_workers p ! k)" and "recv (wk_queue (po_workers p ! k)) = Got c q"
      and "poll_next k p = (set_worker k ((po_workers p ! k)\<lparr>wk_phase := Running c, wk_queue := q,
         wk_budget := release (qc_held c) (wk_budget (po_workers p ! k))\<rparr>) p)
         \<lparr>po_started := po_started p @ [(k, c)]\<rparr>"
proof (cases "wk_over (po_workers p ! k)")
  case True
  then show thesis by (intro stop) (simp add: poll_next_def)
next
  case False
  then show thesis
    by (cases "recv (wk_queue (po_workers p ! k))")
      (auto simp: poll_next_def Let_def intro: start stop stay)
qed

lemma log_inv_poll_turn:
  assumes "log_inv w p" and "turn_inv p" and "k < length (po_workers p)"
    and "wk_phase (po_workers p ! k) \<in> {Spawned, InLine}"
  shows "log_inv w (poll_turn k p)"
proof -
  have k: "po_turn p \<noteq> Some k" "command_in_hand (wk_phase (po_workers p ! k)) = []"
    using assms(2-4) by (auto simp: turn_inv_def)
  show ?thesis
  proof (cases rule: poll_turn_cases [of k p])
    case stop
    then show ?thesis using assms(1) k in_hand_stop [OF assms(2,3)] by (simp add: log_inv_def)
  next
    case (take l)
    have "in_hand (poll_turn k p) = []" using take(1) assms(3) by (simp add: in_hand_def)
    then show ?thesis using assms(1) take(1,2) by (simp add: log_inv_def in_hand_def)
  next
    case (join l)
    have "in_hand (poll_turn k p) = in_hand (set_worker k ((po_workers p ! k)\<lparr>wk_phase := InLine\<rparr>) p)"
      by (simp add: join in_hand_def split: option.split)
    then show ?thesis using assms(1,2) join k by (simp add: log_inv_def in_hand_set)
  qed (use assms(1) in simp)
qed

lemma log_inv_poll_next:
  assumes "log_inv w p" and "turn_inv p" and "k < length (po_workers p)"
    and "wk_phase (po_workers p ! k) = Idle"
  shows "log_inv w (poll_next k p)"
proof -
  have h: "po_turn p = Some k" "in_hand p = []" using in_hand_holder [OF assms(2,3)] assms(4) by simp_all
  have stop: "log_inv w (stop_worker k p)"
    using assms(1) h in_hand_stop [OF assms(2,3)] by (simp add: log_inv_def)
  have start: "log_inv w ((set_worker k wk p)\<lparr>po_started := po_started p @ [(k, c)]\<rparr>)"
    if "wk_phase wk = Running c" for wk c
    using assms(1,3) h that by (simp add: log_inv_def) (simp add: in_hand_def)
  show ?thesis using stop start assms(1) by (auto simp: poll_next_def Let_def split: received.split)
qed

lemma in_hand_joined:
  assumes "turn_inv p" and "k < length (po_workers p)" and "wk_phase (po_workers p ! k) \<in> {Running c, Draining c}"
  shows "in_hand p = [(k, c)]" and "in_hand (command_joined w k c e p) = []"
proof -
  let ?q = "p\<lparr>po_finished := po_finished p @ [(k, c, e, po_outbound p)],
      po_sent := po_sent p @ fst (see_out w c (e, po_outbound p))\<rparr>"
  show h: "in_hand p = [(k, c)]" using in_hand_holder [OF assms(1,2)] assms(3) by auto
  have turn: "po_turn p = Some k" using in_hand_holder [OF assms(1,2)] assms(3) by auto
  have "turn_inv ?q" using assms(1) by simp
  then have "in_hand (stop_worker k ?q) = []" using in_hand_stop [of ?q k] assms(2) turn by simp
  moreover have "in_hand (set_worker k ((po_workers p ! k)\<lparr>wk_phase := Idle\<rparr>) ?q) = []"
    using turn assms(2) by (simp add: in_hand_def)
  ultimately show "in_hand (command_joined w k c e p) = []"
    by (simp add: command_joined_def Let_def split_beta)
qed

lemma joined_logs [simp]:
  "po_finished (command_joined w k c e p) = po_finished p @ [(k, c, e, po_outbound p)]"
  "po_sent (command_joined w k c e p) = po_sent p @ fst (see_out w c (e, po_outbound p))"
  "po_started (command_joined w k c e p) = po_started p" "po_outbound (command_joined w k c e p) = po_outbound p"
  by (simp_all add: command_joined_def Let_def split_beta)

lemma log_inv_joined:
  assumes "log_inv w p" and "turn_inv p" and "k < length (po_workers p)"
    and "wk_phase (po_workers p ! k) \<in> {Running c, Draining c}"
  shows "log_inv w (command_joined w k c e p)"
  using assms(1) in_hand_joined [OF assms(2-4)] by (simp add: log_inv_def)

lemma log_inv_step: "pool_step w p p' \<Longrightarrow> turn_inv p \<Longrightarrow> log_inv w p \<Longrightarrow> log_inv w p'"
proof (induction rule: pool_step.induct)
  case (step_spawn p)
  then have "in_hand (p\<lparr>po_workers := po_workers p @ [worker_new]\<rparr>) = in_hand p"
    by (auto simp: in_hand_def turn_inv_def nth_append split: option.splits)
  then show ?case using step_spawn by (simp add: log_inv_def)
next
  case (step_accept p k i f wk)
  then have "wk_phase wk = wk_phase (po_workers p ! k)"
    by (simp add: queue_command_accepted(2))
  then show ?case using step_accept by (simp add: log_inv_def in_hand_set)
next
  case (step_see_over k p c)
  then show ?case by (simp add: see_over_def log_inv_def in_hand_set)
qed (simp_all add: log_inv_poll_turn log_inv_poll_next log_inv_joined, simp_all add: log_inv_def in_hand_set)

subsection \<open>Commands start in the order they were accepted\<close>

lemma order_inv_shrink:
  "order_inv p \<Longrightarrow> po_started p' = po_started p \<Longrightarrow> po_accepted p' = po_accepted p \<Longrightarrow>
     subseq (waiting p') (waiting p) \<Longrightarrow> order_inv p'"
  unfolding order_inv_def by (metis list_emb_append_mono subseq_order.order_trans subseq_order.order_refl)

lemma waiting_set:
  assumes "subseq (ch_items (wk_queue wk)) (ch_items (wk_queue (po_workers p ! k)))"
  shows "subseq (waiting (set_worker k wk p)) (waiting p)"
proof (cases "k = last_session p \<and> po_workers p \<noteq> []")
  case True
  then show ?thesis using assms by (auto simp: waiting_def intro: subseq_map)
next
  case False
  then show ?thesis by (auto simp: waiting_def)
qed

lemma waiting_logs [simp]:
  "waiting (p\<lparr>po_started := a\<rparr>) = waiting p" "waiting (p\<lparr>po_accepted := a\<rparr>) = waiting p"
  "waiting (p\<lparr>po_finished := b, po_sent := d\<rparr>) = waiting p" "waiting (close_outbound n p) = waiting p"
  by (simp_all add: waiting_def)

lemma waiting_cong: "po_workers p = po_workers q \<Longrightarrow> waiting p = waiting q"
  by (simp add: waiting_def)

lemma waiting_stop: "subseq (waiting (stop_worker k p)) (waiting p)"
proof -
  have "waiting (stop_worker k p) = waiting (set_worker k ((drop_queue (po_workers p ! k))\<lparr>wk_phase := Stopped\<rparr>) p)"
    by (rule waiting_cong) (simp add: stop_worker_def)
  then show ?thesis using waiting_set by simp
qed

lemma order_inv_stop: "order_inv p \<Longrightarrow> order_inv (stop_worker k p)"
  by (rule order_inv_shrink [OF _ _ _ waiting_stop]) simp_all

lemma order_inv_set:
  assumes "order_inv p" and "po_workers p' = po_workers (set_worker k wk p)"
    and "po_started p' = po_started p" and "po_accepted p' = po_accepted p"
    and "subseq (ch_items (wk_queue wk)) (ch_items (wk_queue (po_workers p ! k)))"
  shows "order_inv p'"
  using order_inv_shrink [OF assms(1,3,4)] waiting_set [OF assms(5)] waiting_cong [OF assms(2)] by simp

lemma not_over_last:
  "turn_inv p \<Longrightarrow> k < length (po_workers p) \<Longrightarrow> \<not> wk_over (po_workers p ! k) \<Longrightarrow> k = last_session p"
  by (auto simp: turn_inv_def)

lemma order_inv_poll_next:
  assumes "order_inv p" and "turn_inv p" and "k < length (po_workers p)"
  shows "order_inv (poll_next k p)"
proof (cases rule: poll_next_cases [of k p])
  case (start c q)
  have k: "k = last_session p" by (rule not_over_last [OF assms(2,3) start(1)])
  have items: "ch_items (wk_queue (po_workers p ! k)) = c # ch_items q"
    using mpsc.pop_contents start(2) by (fastforce simp: recv_Got_iff)
  then have "waiting p = (k, c) # map (Pair k) (ch_items q)"
    using assms(3) k by (auto simp: waiting_def)
  moreover have "waiting (poll_next k p) = map (Pair k) (ch_items q)"
    using start(3) assms(3) k by (auto simp: waiting_def)
  moreover have "po_started (poll_next k p) = po_started p @ [(k, c)]" "po_accepted (poll_next k p) = po_accepted p"
    by (simp_all add: start(3))
  ultimately show ?thesis using assms(1) by (simp add: order_inv_def)
qed (use assms(1) order_inv_stop in simp_all)

lemma order_inv_poll_turn: "order_inv p \<Longrightarrow> order_inv (poll_turn k p)"
proof (cases rule: poll_turn_cases [of k p])
  case (take l)
  assume "order_inv p"
  then show ?thesis
    by (rule order_inv_set [of _ _ k "(po_workers p ! k)\<lparr>wk_phase := Idle\<rparr>"]) (simp_all add: take)
next
  case (join l)
  assume "order_inv p"
  then show ?thesis
    by (rule order_inv_set [of _ _ k "(po_workers p ! k)\<lparr>wk_phase := InLine\<rparr>"]) (simp_all add: join)
qed (simp_all add: order_inv_stop)

lemma order_inv_joined: "order_inv p \<Longrightarrow> order_inv (command_joined w k c e p)"
proof -
  assume o: "order_inv p"
  let ?q = "p\<lparr>po_finished := po_finished p @ [(k, c, e, po_outbound p)],
      po_sent := po_sent p @ fst (see_out w c (e, po_outbound p))\<rparr>"
  have "order_inv ?q" using o by (simp add: order_inv_def)
  then show ?thesis
    using order_inv_stop [of ?q k]
      order_inv_set [of ?q "set_worker k ((po_workers p ! k)\<lparr>wk_phase := Idle\<rparr>) ?q" k "(po_workers p ! k)\<lparr>wk_phase := Idle\<rparr>"]
    by (simp add: command_joined_def Let_def split_beta)
qed

lemma order_inv_step: "pool_step w p p' \<Longrightarrow> turn_inv p \<Longrightarrow> order_inv p \<Longrightarrow> order_inv p'"
proof (induction rule: pool_step.induct)
  case (step_spawn p)
  have "waiting (p\<lparr>po_workers := po_workers p @ [worker_new]\<rparr>) = []"
    by (simp add: waiting_def worker_new_def chan_new_def)
  then show ?case by (intro order_inv_shrink [OF step_spawn(4)]) simp_all
next
  case (step_accept p k i f wk)
  let ?c = "\<lparr>qc_id = i, qc_frame = f, qc_held = permit_cost (length f)\<rparr>"
  note queue_command_accepted(1) [OF step_accept(4)]
  with step_accept(1,2) have "waiting ((set_worker k wk p)\<lparr>po_accepted := po_accepted p @ [(k, ?c)]\<rparr>) = waiting p @ [(k, ?c)]"
    by (simp add: waiting_def)
  moreover have "subseq ((po_started p @ waiting p) @ [(k, ?c)]) (po_accepted p @ [(k, ?c)])"
    using step_accept(6) unfolding order_inv_def by (simp only: subseq_append)
  ultimately show ?case by (simp add: order_inv_def)
next
  case (step_loop_ended p k)
  show ?case
    by (rule order_inv_set [OF step_loop_ended(5), of _ k "(po_workers p ! k)\<lparr>wk_queue := drop_tx (wk_queue (po_workers p ! k))\<rparr>"])
      (simp_all add: drop_tx_def)
next
  case (step_session_over p k)
  show ?case
    by (rule order_inv_set [OF step_session_over(5), of _ k "(po_workers p ! k)\<lparr>wk_queue := drop_tx (wk_queue (po_workers p ! k)),
        wk_over := True\<rparr>"]) (simp_all add: drop_tx_def)
next
  case (step_see_over k p c)
  show ?case
    by (rule order_inv_set [OF step_see_over(5), of _ k "(drop_queue (po_workers p ! k))\<lparr>wk_phase := Draining c\<rparr>"])
      (simp_all add: see_over_def)
qed (simp_all add: order_inv_poll_turn order_inv_poll_next order_inv_joined, simp add: order_inv_def)

lemma workers_ok_stop: "list_all worker_ok (po_workers p) \<Longrightarrow> list_all worker_ok (po_workers (stop_worker k p))"
  by (cases "k < length (po_workers p)")
    (auto simp: stop_worker_def list_all_length nth_list_update worker_ok_drop)

lemma workers_ok_step: "pool_step w p p' \<Longrightarrow> list_all worker_ok (po_workers p) \<Longrightarrow> list_all worker_ok (po_workers p')"
proof (induction rule: pool_step.induct)
  case (step_accept p k i f wk)
  then have "worker_ok (po_workers p ! k)" by (simp add: list_all_length)
  then show ?case using step_accept worker_ok_queue set_worker_ok by simp
next
  case (step_loop_ended p k)
  then show ?case by (intro set_worker_ok) (simp_all add: list_all_length)
next
  case (step_session_over p k)
  then have "worker_ok ((po_workers p ! k)\<lparr>wk_queue := drop_tx (wk_queue (po_workers p ! k))\<rparr>)"
    by (simp add: list_all_length)
  then have "worker_ok ((po_workers p ! k)\<lparr>wk_queue := drop_tx (wk_queue (po_workers p ! k)), wk_over := True\<rparr>)"
    by (simp add: worker_ok_def)
  then show ?case using step_session_over by (intro set_worker_ok)
next
  case (step_poll_turn k p)
  then have ok: "worker_ok (po_workers p ! k)" by (simp add: list_all_length)
  show ?case
    by (cases rule: poll_turn_cases [of k p])
      (use ok step_poll_turn workers_ok_stop in \<open>simp_all add: list_all_length nth_list_update\<close>)
next
  case (step_poll_next k p)
  then have ok: "worker_ok (po_workers p ! k)" by (simp add: list_all_length)
  show ?case
    by (cases rule: poll_next_cases [of k p])
      (use ok step_poll_next workers_ok_stop worker_ok_recv in \<open>simp_all add: list_all_length nth_list_update\<close>)
next
  case (step_joined k p c e)
  let ?q = "p\<lparr>po_finished := po_finished p @ [(k, c, e, po_outbound p)],
      po_sent := po_sent p @ fst (see_out w c (e, po_outbound p))\<rparr>"
  have "list_all worker_ok (po_workers (set_worker k ((po_workers p ! k)\<lparr>wk_phase := Idle\<rparr>) ?q))"
    using step_joined by (simp add: list_all_length nth_list_update)
  then show ?case using workers_ok_stop [of ?q k] step_joined by (simp add: command_joined_def Let_def split_beta)
next
  case (step_see_over k p c)
  then have "worker_ok (po_workers p ! k)" by (simp add: list_all_length)
  then show ?case
    using step_see_over worker_ok_drop set_worker_ok by (simp add: see_over_def)
qed (simp_all add: worker_new_ok)

lemma gone_inv_set:
  "gone_inv p \<Longrightarrow> po_workers p' = (po_workers p)[k := wk] \<Longrightarrow>
     (wk_phase wk = Stopped \<Longrightarrow> ch_items (wk_queue wk) = [] \<and> \<not> ch_rx_open (wk_queue wk)) \<Longrightarrow> gone_inv p'"
  by (cases "k < length (po_workers p)") (auto simp: gone_inv_def nth_list_update list_update_beyond)

lemma gone_inv_stop: "gone_inv p \<Longrightarrow> gone_inv (stop_worker k p)"
  by (rule gone_inv_set [of p _ k "(drop_queue (po_workers p ! k))\<lparr>wk_phase := Stopped\<rparr>"])
    (simp_all add: stop_worker_def, simp add: drop_queue_def drop_rx_def)

lemma gone_inv_step: "pool_step w p p' \<Longrightarrow> gone_inv p \<Longrightarrow> gone_inv p'"
proof (induction rule: pool_step.induct)
  case (step_spawn p)
  then show ?case by (auto simp: gone_inv_def nth_append worker_new_def less_Suc_eq)
next
  case (step_accept p k i f wk)
  have "ch_rx_open (wk_queue (po_workers p ! k))"
    using step_accept(4) by (auto simp: queue_command_def try_send_def Let_def split: option.splits if_splits)
  then have "wk_phase wk \<noteq> Stopped"
    using step_accept(1,2,5) queue_command_accepted(2) [OF step_accept(4)] by (auto simp: gone_inv_def)
  then show ?case by (intro gone_inv_set [OF step_accept(5), of _ k wk]) simp_all
next
  case (step_loop_ended p k)
  then show ?case
    by (intro gone_inv_set [OF step_loop_ended(4), of _ k]) (auto simp: gone_inv_def drop_tx_def)
next
  case (step_session_over p k)
  then show ?case
    by (intro gone_inv_set [OF step_session_over(4), of _ k]) (auto simp: gone_inv_def drop_tx_def)
next
  case (step_poll_turn k p)
  show ?case
  proof (cases rule: poll_turn_cases [of k p])
    case (take l)
    show ?thesis
      by (rule gone_inv_set [OF step_poll_turn(3), of _ k "(po_workers p ! k)\<lparr>wk_phase := Idle\<rparr>"])
        (simp_all add: take(1))
  next
    case (join l)
    show ?thesis
      by (rule gone_inv_set [OF step_poll_turn(3), of _ k "(po_workers p ! k)\<lparr>wk_phase := InLine\<rparr>"])
        (simp_all add: join)
  qed (use step_poll_turn(3) gone_inv_stop in simp_all)
next
  case (step_poll_next k p)
  show ?case
  proof (cases rule: poll_next_cases [of k p])
    case (start c q)
    show ?thesis
      by (rule gone_inv_set [OF step_poll_next(3), of _ k "(po_workers p ! k)\<lparr>wk_phase := Running c,
            wk_queue := q, wk_budget := release (qc_held c) (wk_budget (po_workers p ! k))\<rparr>"])
        (simp_all add: start(3))
  qed (use step_poll_next(3) gone_inv_stop in simp_all)
next
  case (step_joined k p c e)
  let ?q = "p\<lparr>po_finished := po_finished p @ [(k, c, e, po_outbound p)],
      po_sent := po_sent p @ fst (see_out w c (e, po_outbound p))\<rparr>"
  have "gone_inv ?q" using step_joined by (simp add: gone_inv_def)
  then show ?case
    using gone_inv_stop [of ?q k] gone_inv_set [of ?q _ k "(po_workers p ! k)\<lparr>wk_phase := Idle\<rparr>"]
    by (simp add: command_joined_def Let_def split_beta)
next
  case (step_see_over k p c)
  show ?case
    by (rule gone_inv_set [OF step_see_over(4), of _ k "(drop_queue (po_workers p ! k))\<lparr>wk_phase := Draining c\<rparr>"])
      (simp_all add: see_over_def)
qed (simp add: gone_inv_def)

lemma over_set:
  "\<forall>wk\<in>set (po_workers p). wk_over wk \<Longrightarrow> po_workers q = (po_workers p)[k := wk] \<Longrightarrow> wk_over wk \<Longrightarrow>
     \<forall>wk\<in>set (po_workers q). wk_over wk"
  using set_update_subset_insert by fastforce

lemma out_inv_set:
  assumes "out_inv p" and "po_workers q = (po_workers p)[k := wk]"
    and "po_outbound p \<noteq> OutOpen \<Longrightarrow> k < length (po_workers p) \<Longrightarrow> wk_over (po_workers p ! k) \<Longrightarrow> wk_over wk"
    and "po_outbound q = po_outbound p" and "po_finished q = po_finished p" and "length (in_hand q) \<le> length (in_hand p)"
  shows "out_inv q"
proof (cases "po_outbound p = OutOpen")
  case True
  then show ?thesis using assms(1,4,5) by (simp add: out_inv_def)
next
  case False
  then have "\<forall>wk\<in>set (po_workers p). wk_over wk" using assms(1) by (simp add: out_inv_def)
  then have "\<forall>wk\<in>set (po_workers q). wk_over wk"
    using over_set [of p q k wk] assms(2,3) False by (cases "k < length (po_workers p)") (simp_all add: list_update_beyond)
  then show ?thesis using assms(1,4-6) False by (auto simp: out_inv_def)
qed

lemma out_inv_stop:
  assumes "out_inv p" and "turn_inv p" and "k < length (po_workers p)"
  shows "out_inv (stop_worker k p)"
  by (rule out_inv_set [OF assms(1), of _ k "(drop_queue (po_workers p ! k))\<lparr>wk_phase := Stopped\<rparr>"])
    (simp_all add: in_hand_stop [OF assms(2,3)], simp add: stop_worker_def)

lemma in_hand_single: "length (in_hand p) \<le> 1"
proof -
  have "length (command_in_hand ph) \<le> 1" for ph by (cases ph) simp_all
  then show ?thesis by (auto simp: in_hand_def split: option.split)
qed

lemma closed_over: "out_inv p \<Longrightarrow> k < length (po_workers p) \<Longrightarrow> \<not> wk_over (po_workers p ! k) \<Longrightarrow> po_outbound p = OutOpen"
  by (auto simp: out_inv_def split: if_splits)

lemma out_inv_step: "pool_step w p p' \<Longrightarrow> turn_inv p \<Longrightarrow> out_inv p \<Longrightarrow> out_inv p'"
proof (induction rule: pool_step.induct)
  case (step_poll_turn k p)
  show ?case
  proof (cases rule: poll_turn_cases [of k p])
    case stop
    then show ?thesis using out_inv_stop step_poll_turn by simp
  next
    case (take l)
    then have "po_outbound p = OutOpen" using closed_over step_poll_turn by blast
    then show ?thesis using step_poll_turn by (simp add: out_inv_def take(1))
  next
    case (join l)
    have "k \<notin> set (po_line p) \<or> wk_phase (po_workers p ! k) = InLine" using step_poll_turn by (auto simp: turn_inv_def)
    have "in_hand (poll_turn k p) = in_hand (set_worker k ((po_workers p ! k)\<lparr>wk_phase := InLine\<rparr>) p)"
      by (simp add: join in_hand_def split: option.split)
    also have "\<dots> = in_hand p" using step_poll_turn by (intro in_hand_set) auto
    finally show ?thesis
      by (intro out_inv_set [OF step_poll_turn(4), of _ k "(po_workers p ! k)\<lparr>wk_phase := InLine\<rparr>"]) (simp_all add: join)
  qed (use step_poll_turn in simp)
next
  case (step_poll_next k p)
  show ?case
  proof (cases rule: poll_next_cases [of k p])
    case stop
    then show ?thesis using out_inv_stop step_poll_next by simp
  next
    case (start c q)
    then have "po_outbound p = OutOpen" using closed_over step_poll_next by blast
    then show ?thesis using step_poll_next by (simp add: out_inv_def start(3))
  qed (use step_poll_next in simp)
next
  case (step_joined k p c e)
  note h = in_hand_joined [OF step_joined(3,1,2)]
  show ?case
  proof (cases "po_outbound p = OutOpen")
    case True
    then show ?thesis using step_joined(4) by (simp add: out_inv_def)
  next
    case False
    then have over: "\<forall>wk\<in>set (po_workers p). wk_over wk" using step_joined(4) by (simp add: out_inv_def)
    have "\<exists>wk. po_workers (command_joined w k c e p) = (po_workers p)[k := wk] \<and> wk_over wk"
      using over step_joined(1) by (auto simp: command_joined_def Let_def split_beta stop_worker_def)
    then have "\<forall>wk\<in>set (po_workers (command_joined w k c e p)). wk_over wk" using over_set [OF over] by blast
    then show ?thesis using step_joined(4) False h by (auto simp: out_inv_def)
  qed
next
  case (step_see_over k p c)
  then show ?case
    by (intro out_inv_set [OF step_see_over(5), of _ k "(drop_queue (po_workers p ! k))\<lparr>wk_phase := Draining c\<rparr>"])
      (simp_all add: see_over_def in_hand_set)
next
  case (step_close p n)
  then have "filter (Not \<circ> found_open) (po_finished p) = []" by (auto simp: out_inv_def list_all_iff filter_empty_conv)
  then show ?case
    using step_close in_hand_single [of p] by (auto simp: out_inv_def list_all_iff)
qed (auto simp: out_inv_def dest: closed_over)

lemma pool_inv_new: "pool_inv w pool_new"
  by (simp add: pool_inv_def out_inv_def turn_inv_def log_inv_def order_inv_def in_hand_def waiting_def gone_inv_def pool_new_def)

lemma pool_inv_step: "pool_inv w p \<Longrightarrow> pool_step w p p' \<Longrightarrow> pool_inv w p'"
  unfolding pool_inv_def using turn_inv_step log_inv_step order_inv_step workers_ok_step gone_inv_step out_inv_step by blast

interpretation pools: step_invariant "\<lambda>p. p = pool_new" "pool_step w" "pool_inv w" for w
  by unfold_locales (auto simp: pool_inv_new intro: pool_inv_step)

subsection \<open>A queued command can always be started\<close>

definition alive :: "pool \<Rightarrow> nat" where
  "alive p = length (filter (\<lambda>wk. wk_phase wk \<noteq> Stopped) (po_workers p))"

lemma alive_stop:
  assumes "k < length (po_workers p)" and "wk_phase (po_workers p ! k) \<noteq> Stopped"
  shows "alive (stop_worker k p) < alive p"
proof -
  have split: "po_workers p = take k (po_workers p) @ po_workers p ! k # drop (Suc k) (po_workers p)"
    by (rule id_take_nth_drop [OF assms(1)])
  have "po_workers (stop_worker k p) = take k (po_workers p)
      @ (drop_queue (po_workers p ! k))\<lparr>wk_phase := Stopped\<rparr> # drop (Suc k) (po_workers p)"
    using assms(1) by (simp add: stop_worker_def upd_conv_take_nth_drop)
  then show ?thesis using assms(2) arg_cong [OF split, of "filter (\<lambda>wk. wk_phase wk \<noteq> Stopped)"]
    by (simp add: alive_def)
qed

text \<open>A worker of an earlier session that stands in the way can step out of it.\<close>

lemma steps_aside:
  assumes "pool_inv w p" and "k < length (po_workers p)" and "wk_over (po_workers p ! k)"
    and "wk_phase (po_workers p ! k) \<in> {Spawned, InLine, Idle}"
  shows "pool_step w p (stop_worker k p)"
proof (cases "wk_phase (po_workers p ! k) = Idle")
  case True
  then show ?thesis using step_poll_next [OF assms(2) True, of w] assms(3) by (simp add: poll_next_def)
next
  case False
  then show ?thesis using step_poll_turn [OF assms(2), of w] assms(3,4) by (simp add: poll_turn_def)
qed

lemma idle_starts:
  assumes "pool_inv w p" and "k < length (po_workers p)" and "wk_phase (po_workers p ! k) = Idle"
    and "\<not> wk_over (po_workers p ! k)" and "ch_items (wk_queue (po_workers p ! k)) = c # cs"
  shows "\<exists>p'. pool_step w p p' \<and> po_started p' = po_started p @ [(k, c)] \<and> po_accepted p' = po_accepted p
     \<and> po_finished p' = po_finished p"
  using step_poll_next [OF assms(2,3), of w] assms(4,5)
  by (intro exI [of _ "poll_next k p"]) (simp add: poll_next_def recv_def Let_def)

lemma free_turn_is_taken:
  assumes "pool_inv w p" and "k < length (po_workers p)" and "wk_phase (po_workers p ! k) \<in> {Spawned, InLine}"
    and "\<not> wk_over (po_workers p ! k)" and "po_turn p = None" and "po_line p = [] \<or> hd (po_line p) = k"
    and "ch_items (wk_queue (po_workers p ! k)) = c # cs"
  shows "\<exists>p'. (pool_step w)\<^sup>*\<^sup>* p p' \<and> po_started p' = po_started p @ [(k, c)] \<and> po_accepted p' = po_accepted p
     \<and> po_finished p' = po_finished p"
proof -
  let ?q = "poll_turn k p"
  have st: "pool_step w p ?q" by (rule step_poll_turn [OF assms(2,3)])
  have q: "?q = (set_worker k ((po_workers p ! k)\<lparr>wk_phase := Idle\<rparr>) p)
      \<lparr>po_turn := Some k, po_line := filter (\<lambda>j. j \<noteq> k) (po_line p)\<rparr>"
    using assms(4-6) by (auto simp: poll_turn_def Let_def split: list.split)
  have "pool_inv w ?q" by (rule pool_inv_step [OF assms(1) st])
  then obtain p' where "pool_step w ?q p'" "po_started p' = po_started ?q @ [(k, c)]"
    "po_accepted p' = po_accepted ?q" "po_finished p' = po_finished ?q"
    using idle_starts [of w ?q k c cs] assms(2,4,7) by (auto simp: q)
  then show ?thesis using st by (intro exI [of _ p']) (auto simp: q)
qed

lemma queued_starts:
  assumes "pool_inv w p" and "n = last_session p" and "po_workers p \<noteq> []"
    and "\<not> wk_over (po_workers p ! n)" and "ch_items (wk_queue (po_workers p ! n)) = c # cs" and "in_hand p = []"
  shows "\<exists>p'. (pool_step w)\<^sup>*\<^sup>* p p' \<and> po_started p' = po_started p @ [(n, c)] \<and> po_accepted p' = po_accepted p
     \<and> po_finished p' = po_finished p"
  using assms
proof (induction "alive p" arbitrary: p rule: less_induct)
  case less
  let ?ph = "\<lambda>k. wk_phase (po_workers p ! k)"
  have n: "n < length (po_workers p)" using less.prems(2,3) by simp
  have inv: "turn_inv p" "gone_inv p" using less.prems(1) by (simp_all add: pool_inv_def)
  have aside: ?case if j: "j < length (po_workers p)" "j \<noteq> n" "?ph j \<in> {Spawned, InLine, Idle}" for j
  proof -
    have over: "wk_over (po_workers p ! j)" using not_over_last [OF inv(1) j(1)] j(2) less.prems(2) by blast
    have st: "pool_step w p (stop_worker j p)" by (rule steps_aside [OF less.prems(1) j(1) over j(3)])
    have "in_hand (stop_worker j p) = []" using in_hand_stop [OF inv(1) j(1)] less.prems(6) by simp
    then obtain p' where "(pool_step w)\<^sup>*\<^sup>* (stop_worker j p) p'" "po_started p' = po_started p @ [(n, c)]"
        "po_accepted p' = po_accepted p" "po_finished p' = po_finished p"
      using less.hyps [OF alive_stop [OF j(1)]] pool_inv_step [OF less.prems(1) st] less.prems(2-5) j
      by (auto simp: stop_worker_def)
    then show ?thesis using converse_rtranclp_into_rtranclp [of "pool_step w", OF st] by blast
  qed
  have inh: "\<not> (\<exists>d. ?ph k = Running d \<or> ?ph k = Draining d)" if "po_turn p = Some k" for k
    using that less.prems(6) by (auto simp: in_hand_def)
  show ?case
  proof (cases "po_turn p")
    case (Some k)
    then have k: "k < length (po_workers p)" "holds_turn (?ph k)" using inv(1) by (auto simp: turn_inv_def)
    then have idle: "?ph k = Idle" using inh [OF Some] by (cases "?ph k") auto
    show ?thesis
    proof (cases "k = n")
      case True
      then show ?thesis
        using idle_starts [OF less.prems(1) n _ less.prems(4,5)] idle by blast
    qed (use aside k idle in blast)
  next
    case None
    then have free: "\<not> holds_turn (?ph k)" if "k < length (po_workers p)" for k
      using that inv(1) by (auto simp: turn_inv_def)
    have "?ph n \<noteq> Stopped" using inv(2) n less.prems(5) by (auto simp: gone_inv_def)
    then have ph: "?ph n \<in> {Spawned, InLine}" using free [OF n] by (cases "?ph n") auto
    show ?thesis
    proof (cases "po_line p = [] \<or> hd (po_line p) = n")
      case True
      show ?thesis by (rule free_turn_is_taken [OF less.prems(1) n ph less.prems(4) None True less.prems(5)])
    next
      case False
      then have "hd (po_line p) \<in> set (po_line p)" by simp
      then have "hd (po_line p) < length (po_workers p)" "?ph (hd (po_line p)) = InLine"
        using inv(1) by (auto simp: turn_inv_def)
      then show ?thesis using aside False by blast
    qed
  qed
qed

text \<open>The acks among a command's messages: one, unless the channel was closed first.\<close>

definition acks :: "(string \<times> json) list \<Rightarrow> (string \<times> json) list" where
  "acks ms = filter (\<lambda>m. fst m = ''command_ack'') ms"

fun cut_off :: "task_end \<Rightarrow> bool" where
  "cut_off (RuntimeGone answers n) = True"
| "cut_off (Answered answers) = False"

lemma acks_through:
  "acks (through ob [(''command_ack'', a)]) = (if ob = ClosedAfter 0 then [] else [(''command_ack'', a)])"
  "acks (through ob [(''command_ack'', a), (''config_response'', b)]) = (if ob = ClosedAfter 0 then [] else [(''command_ack'', a)])"
proof -
  have "take n [x, y] = (if n = 0 then [] else if n = 1 then [x] else [x, y])" for n :: nat and x y :: "string \<times> json"
    by (cases n; cases "n - 1") auto
  then show "acks (through ob [(''command_ack'', a), (''config_response'', b)])
      = (if ob = ClosedAfter 0 then [] else [(''command_ack'', a)])"
    by (cases ob) (auto simp: acks_def)
  show "acks (through ob [(''command_ack'', a)]) = (if ob = ClosedAfter 0 then [] else [(''command_ack'', a)])"
    by (cases ob) (auto simp: acks_def take_Cons')
qed

lemma acks_seen_out:
  "\<exists>r. acks (fst (see_out w c (e, ob))) \<in> {[], [(''command_ack'', command_ack_payload (qc_id c) r)]}
     \<and> (\<not> cut_off e \<longrightarrow> (acks (fst (see_out w c (e, ob))) = [] \<longleftrightarrow> ob = ClosedAfter 0))"
proof (cases e)
  case (Answered a)
  let ?acks = "acks (fst (see_out w c (e, ob)))"
  have "\<exists>r. ?acks = (if ob = ClosedAfter 0 then [] else [(''command_ack'', command_ack_payload (qc_id c) r)])"
  proof (cases "action_is_get_config (command_action w c)")
    case True
    then show ?thesis
      by (cases "ha_config a") (auto simp: Answered see_out_def run_command_def finish_command_def acks_through)
  next
    case False
    then show ?thesis
      by (cases "ha_command a") (auto simp: Answered see_out_def run_command_def finish_command_def acks_through)
  qed
  then show ?thesis by (cases "ob = ClosedAfter 0") (auto simp: Answered)
next
  case (RuntimeGone a n)
  have one: "take n (through ob [x]) \<in> {[], [x]}" for x :: "string \<times> json"
    by (cases ob; cases n) (auto simp: take_Cons')
  have none: "take n (through ob []) = ([] :: (string \<times> json) list)" by (cases ob) simp_all
  have "fst (see_out w c (e, ob)) \<in> {[], [(''command_ack'', command_ack_payload (qc_id c) (Inr JNull))]}"
    using one [of "(''command_ack'', command_ack_payload (qc_id c) (Inr JNull))"]
    by (auto simp: RuntimeGone see_out_def run_command_def finish_command_def none split: option.splits)
  then show ?thesis by (auto simp: RuntimeGone acks_def)
qed

text \<open>A pool with one command queued in its only session, and a wire that never carries JSON.\<close>

definition mute_wire :: wire where
  "mute_wire = \<lparr>w_to_text = (\<lambda>_. []), w_of_text = (\<lambda>_. Inl ''EOF'')\<rparr>"

definition sample_command :: queued_command where
  "sample_command = \<lparr>qc_id = ''c1'', qc_frame = ''{}'', qc_held = 2\<rparr>"

definition sample_pool :: pool where
  "sample_pool = pool_new\<lparr>po_workers := [worker_new\<lparr>wk_queue := (chan_new 64)\<lparr>ch_items := [sample_command]\<rparr>,
     wk_budget := command_queue_bytes - 2\<rparr>], po_accepted := [(0, sample_command)]\<rparr>"

lemma sample_pool_reachable: "reachable (\<lambda>p. p = pool_new) (pool_step w) sample_pool"
proof -
  let ?p = "pool_new\<lparr>po_workers := po_workers pool_new @ [worker_new]\<rparr>"
  have 1: "pool_step w pool_new ?p" by (rule step_spawn) (simp_all add: pool_new_def)
  have q: "queue_command ''c1'' ''{}'' (po_workers ?p ! 0) = Accepted (worker_new\<lparr>wk_queue := (chan_new 64)
      \<lparr>ch_items := [sample_command]\<rparr>, wk_budget := command_queue_bytes - 2\<rparr>)"
    by (simp add: queue_command_def try_acquire_def permit_cost_def worker_new_def pool_new_def try_send_def
        chan_new_def command_queue_size_def command_queue_bytes_def max_inbound_ws_bytes_def sample_command_def)
  have "pool_step w ?p ((set_worker 0 (worker_new\<lparr>wk_queue := (chan_new 64)\<lparr>ch_items := [sample_command]\<rparr>,
      wk_budget := command_queue_bytes - 2\<rparr>) ?p)\<lparr>po_accepted := po_accepted ?p
        @ [(0, \<lparr>qc_id = ''c1'', qc_frame = ''{}'', qc_held = permit_cost (length ''{}'')\<rparr>)]\<rparr>)"
    by (rule step_accept [OF _ _ _ q]) (simp_all add: pool_new_def worker_new_def)
  moreover have "permit_cost (Suc (Suc 0)) = 2" by (simp add: permit_cost_def)
  ultimately have 2: "pool_step w ?p sample_pool"
    by (simp add: sample_pool_def pool_new_def set_worker_def sample_command_def)
  have "reachable (\<lambda>p. p = pool_new) (pool_step w) ?p"
    by (rule reach_step [where step = "pool_step w" and s = pool_new, OF _ 1]) (rule reach_init, rule refl)
  then show ?thesis by (rule reach_step [where step = "pool_step w" and s = ?p, OF _ 2])
qed

subsection \<open>Properties\<close>

text \<open>C3: commands run one at a time, in the order they were accepted, across reconnects too. In every
  reachable state at most one worker of all sessions has a command in hand, every session before the last is
  over, what has been started is a subsequence of what was accepted, and every queue holds at most 64
  commands whose bytes, with what is left of the budget, make exactly 20 MiB.\<close>

theorem commands_run_one_at_a_time_in_order:
  assumes "reachable (\<lambda>p. p = pool_new) (pool_step w) p"
  shows "(\<exists>k. \<forall>j<length (po_workers p). command_in_hand (wk_phase (po_workers p ! j)) \<noteq> [] \<longrightarrow> j = k)
    \<and> (\<forall>k<length (po_workers p) - 1. wk_over (po_workers p ! k))
    \<and> subseq (po_started p) (po_accepted p)
    \<and> (\<forall>wk\<in>set (po_workers p). length (ch_items (wk_queue wk)) \<le> 64
         \<and> sum_list (map qc_held (ch_items (wk_queue wk))) + wk_budget wk = 20971520)"
proof -
  have inv: "pool_inv w p" by (rule pools.reachable_inv [OF assms])
  then have t: "turn_inv p" and o: "order_inv p" and ok: "list_all worker_ok (po_workers p)"
    by (simp_all add: pool_inv_def)
  have "po_turn p = Some j" if "j < length (po_workers p)" "command_in_hand (wk_phase (po_workers p ! j)) \<noteq> []" for j
    using in_hand_holder [OF t that(1)] that(2) by (cases "wk_phase (po_workers p ! j)") auto
  then have "\<exists>k. \<forall>j<length (po_workers p). command_in_hand (wk_phase (po_workers p ! j)) \<noteq> [] \<longrightarrow> j = k"
    by (metis option.inject)
  moreover have "subseq (po_started p) (po_accepted p)"
    using o unfolding order_inv_def by (rule list_emb_appendD [THEN exE]) auto
  moreover have "\<forall>k<length (po_workers p) - 1. wk_over (po_workers p ! k)" using t by (simp add: turn_inv_def)
  ultimately show ?thesis
    using ok by (auto simp: list_all_iff worker_ok_def mpsc.within_def command_queue_size_def
        command_queue_bytes_def max_inbound_ws_bytes_def)
qed

theorem commands_run_one_at_a_time_in_order_witness:
  "subseq (po_started sample_pool) (po_accepted sample_pool)
     \<and> length (ch_items (wk_queue (hd (po_workers sample_pool)))) \<le> 64"
proof -
  have "hd (po_workers sample_pool) \<in> set (po_workers sample_pool)" by (simp add: sample_pool_def)
  then show ?thesis using commands_run_one_at_a_time_in_order [OF sample_pool_reachable] by blast
qed

text \<open>C11: every started command is answered once, as long as there is somebody to answer to. The commands started
  are, in this order, the ones finished and the one in hand; what the outbound channel took is what the finished
  ones put there. A command whose task was not cut off by the runtime's end, its handler panicking included, put
  exactly one ack with its id there, unless the channel was closed before its first message, in which case it put
  none; one that was cut off put at most one. The channel is closed only when every session is over, so while the
  client runs every finished command was acked, and only the command still in hand at shutdown can go without.\<close>

theorem every_started_command_is_acked_once:
  assumes "reachable (\<lambda>p. p = pool_new) (pool_step w) p"
  shows "po_started p = map (\<lambda>(k, c, e). (k, c)) (po_finished p) @ in_hand p \<and> length (in_hand p) \<le> 1
    \<and> po_sent p = concat (map (\<lambda>(k, c, e). fst (see_out w c e)) (po_finished p))
    \<and> (\<forall>(k, c, e, ob)\<in>set (po_finished p).
         \<exists>r. acks (fst (see_out w c (e, ob))) \<in> {[], [(''command_ack'', command_ack_payload (qc_id c) r)]}
           \<and> (\<not> cut_off e \<longrightarrow> (acks (fst (see_out w c (e, ob))) = [] \<longleftrightarrow> ob = ClosedAfter 0)))
    \<and> (po_outbound p = OutOpen \<longrightarrow> list_all found_open (po_finished p))
    \<and> (po_outbound p \<noteq> OutOpen \<longrightarrow> (\<forall>wk\<in>set (po_workers p). wk_over wk)
         \<and> length (filter (Not \<circ> found_open) (po_finished p)) + length (in_hand p) \<le> 1)"
proof -
  have inv: "pool_inv w p" by (rule pools.reachable_inv [OF assms])
  then have l: "log_inv w p" and o: "out_inv p" by (simp_all add: pool_inv_def)
  show ?thesis
    using l o in_hand_single [of p] acks_seen_out [of w] by (auto simp: log_inv_def out_inv_def)
qed

text \<open>The sample command, started, seen out after its session and the client's loop have ended: it is not acked.\<close>

definition shut_pool :: pool where
  "shut_pool = close_outbound 0 (pool_new\<lparr>po_workers := [worker_new\<lparr>wk_phase := Running sample_command,
       wk_queue := drop_tx (chan_new 64), wk_budget := command_queue_bytes, wk_over := True\<rparr>],
     po_turn := Some 0, po_accepted := [(0, sample_command)], po_started := [(0, sample_command)]\<rparr>)"

definition silent_answer :: task_end where
  "silent_answer = Answered \<lparr>ha_config = None, ha_command = Some (Inr JNull)\<rparr>"

lemma shut_pool_reachable: "reachable (\<lambda>p. p = pool_new) (pool_step w) shut_pool"
proof -
  let ?p1 = "poll_turn 0 sample_pool" and ?step = "pool_step w"
  let ?p2 = "poll_next 0 ?p1"
  let ?p3 = "set_worker 0 ((po_workers ?p2 ! 0)\<lparr>wk_queue := drop_tx (wk_queue (po_workers ?p2 ! 0)), wk_over := True\<rparr>) ?p2"
  have idle: "?p1 = sample_pool\<lparr>po_workers := [(po_workers sample_pool ! 0)\<lparr>wk_phase := Idle\<rparr>], po_turn := Some 0\<rparr>"
    by (simp add: poll_turn_def sample_pool_def worker_new_def pool_new_def set_worker_def)
  have run: "?p2 = sample_pool\<lparr>po_workers := [(po_workers sample_pool ! 0)\<lparr>wk_phase := Running sample_command,
        wk_queue := chan_new 64, wk_budget := command_queue_bytes\<rparr>], po_turn := Some 0, po_started := [(0, sample_command)]\<rparr>"
    unfolding idle
    by (simp add: poll_next_def recv_def release_def sample_pool_def worker_new_def pool_new_def set_worker_def chan_new_def
        sample_command_def command_queue_bytes_def max_inbound_ws_bytes_def)
  have "reachable (\<lambda>p. p = pool_new) ?step ?p1"
    by (rule reach_step [OF sample_pool_reachable], rule step_poll_turn) (simp_all add: sample_pool_def worker_new_def)
  then have "reachable (\<lambda>p. p = pool_new) ?step ?p2"
    by (rule reach_step, intro step_poll_next) (simp_all add: idle)
  then have "reachable (\<lambda>p. p = pool_new) ?step ?p3"
    by (rule reach_step, intro step_session_over)
      (simp_all only: run, simp_all add: sample_pool_def worker_new_def)
  then have "reachable (\<lambda>p. p = pool_new) ?step (close_outbound 0 ?p3)"
    by (rule reach_step, intro step_close)
      (simp_all only: run, simp_all add: sample_pool_def pool_new_def in_hand_def)
  moreover have "close_outbound 0 ?p3 = shut_pool"
    unfolding run by (simp add: shut_pool_def sample_pool_def set_worker_def worker_new_def pool_new_def)
  ultimately show ?thesis by simp
qed

theorem every_started_command_is_acked_once_witness:
  "let p = command_joined mute_wire 0 sample_command silent_answer shut_pool in
   po_started p = [(0, sample_command)] \<and> in_hand p = []
     \<and> (\<exists>r. acks (fst (see_out mute_wire sample_command (silent_answer, ClosedAfter 0)))
          \<in> {[], [(''command_ack'', command_ack_payload ''c1'' r)]})
     \<and> acks (fst (see_out mute_wire sample_command (silent_answer, ClosedAfter 0))) = []"
proof -
  let ?p = "command_joined mute_wire 0 sample_command silent_answer shut_pool"
  have "reachable (\<lambda>p. p = pool_new) (pool_step mute_wire) ?p"
    by (rule reach_step [OF shut_pool_reachable], rule step_joined) (simp_all add: shut_pool_def)
  note acked = every_started_command_is_acked_once [OF this]
  have fin: "po_finished ?p = [(0, sample_command, silent_answer, ClosedAfter 0)]" "po_started ?p = [(0, sample_command)]"
    by (simp_all add: shut_pool_def pool_new_def)
  have "qc_id sample_command = ''c1''" "\<not> cut_off silent_answer" by (simp_all add: sample_command_def silent_answer_def)
  then show ?thesis using acked unfolding Let_def fin by simp
qed

text \<open>C21: a queued command never waits on anything but a running one. In every reachable state in which the
  last session is not over, a command is at the head of its queue and no command runs, some steps start
  exactly that command next, with no other command accepted or finished on the way.\<close>

theorem queued_command_can_start:
  assumes "reachable (\<lambda>p. p = pool_new) (pool_step w) p" and "po_workers p \<noteq> []"
    and "\<not> wk_over (last (po_workers p))" and "ch_items (wk_queue (last (po_workers p))) = c # cs"
    and "in_hand p = []"
  shows "\<exists>p'. (pool_step w)\<^sup>*\<^sup>* p p' \<and> po_started p' = po_started p @ [(length (po_workers p) - 1, c)]
     \<and> po_accepted p' = po_accepted p \<and> po_finished p' = po_finished p"
  by (rule queued_starts [OF pools.reachable_inv [OF assms(1)] refl assms(2)])
    (use assms(2-5) in \<open>simp_all add: last_conv_nth\<close>)

theorem queued_command_can_start_witness:
  "\<exists>p'. (pool_step mute_wire)\<^sup>*\<^sup>* sample_pool p' \<and> po_started p' = [(0, sample_command)]"
proof -
  have "\<exists>p'. (pool_step mute_wire)\<^sup>*\<^sup>* sample_pool p'
      \<and> po_started p' = po_started sample_pool @ [(length (po_workers sample_pool) - 1, sample_command)]
      \<and> po_accepted p' = po_accepted sample_pool \<and> po_finished p' = po_finished sample_pool"
    by (rule queued_command_can_start [OF sample_pool_reachable])
      (simp_all add: sample_pool_def worker_new_def in_hand_def pool_new_def)
  then show ?thesis by (auto simp: sample_pool_def pool_new_def)
qed

end
