(* ===== verification/Cadence.thy ===== *)
theory Cadence
  imports Prelude
begin

section \<open>The silence watchdog (InboundCadence in src/ws_client.rs)\<close>

text \<open>
  What the session has heard from the manager and how often it pings: \<open>on_frame\<close>, \<open>on_ping\<close>,
  \<open>silence_limit\<close> and \<open>dead_for\<close>, with the constants of the source.
\<close>

definition silence_floor :: duration where "silence_floor = secs 90"
definition silence_pings :: nat where "silence_pings = 4"
definition ping_gaps_kept :: nat where "ping_gaps_kept = 8"
definition max_ping_gap :: duration where "max_ping_gap = secs 300"

text \<open>\<open>Duration::MAX\<close>, where \<open>saturating_mul\<close> stops.\<close>

definition duration_max :: duration where
  "duration_max = secs (2 ^ 64 - 1) + 999999999"

record inbound_cadence =
  ic_started :: instant
  ic_last_frame :: instant
  ic_last_ping :: "instant option"
  ic_gaps :: "duration list"

definition cadence_new :: "instant \<Rightarrow> inbound_cadence" where
  "cadence_new now = \<lparr>ic_started = now, ic_last_frame = now, ic_last_ping = None, ic_gaps = []\<rparr>"

definition on_frame :: "instant \<Rightarrow> inbound_cadence \<Rightarrow> inbound_cadence" where
  "on_frame now c = c\<lparr>ic_last_frame := now\<rparr>"

definition on_ping :: "instant \<Rightarrow> inbound_cadence \<Rightarrow> inbound_cadence" where
  "on_ping now c0 =
     (let c = on_frame now c0;
          since = (case ic_last_ping c of Some t \<Rightarrow> t | None \<Rightarrow> ic_started c);
          gap = min (now - since) max_ping_gap;
          kept = (if length (ic_gaps c) = ping_gaps_kept then tl (ic_gaps c) else ic_gaps c)
      in c\<lparr>ic_gaps := kept @ [gap], ic_last_ping := Some now\<rparr>)"

definition silence_limit :: "inbound_cadence \<Rightarrow> duration option" where
  "silence_limit c =
     (let gaps = sort (ic_gaps c) in
      if length gaps div 2 < length gaps then
        Some (max silence_floor (min (silence_pings * gaps ! (length gaps div 2)) duration_max))
      else None)"

definition dead_for :: "instant \<Rightarrow> inbound_cadence \<Rightarrow> (duration \<times> duration) option" where
  "dead_for now c =
     (case silence_limit c of
        None \<Rightarrow> None
      | Some limit \<Rightarrow>
          let silent = now - ic_last_frame c in
          if silent > limit then Some (silent, limit) else None)"

subsection \<open>Runs\<close>

text \<open>Everything a session can do to its cadence: frames and pings, at any times.\<close>

datatype heard = Frame instant | Ping instant

fun hear :: "heard \<Rightarrow> inbound_cadence \<Rightarrow> inbound_cadence" where
  "hear (Frame t) c = on_frame t c"
| "hear (Ping t) c = on_ping t c"

definition hear_all :: "instant \<Rightarrow> heard list \<Rightarrow> inbound_cadence" where
  "hear_all t0 hs = fold hear hs (cadence_new t0)"

fun is_ping :: "heard \<Rightarrow> bool" where
  "is_ping (Ping _) = True"
| "is_ping (Frame _) = False"

definition cadence_inv :: "inbound_cadence \<Rightarrow> bool" where
  "cadence_inv c =
     (length (ic_gaps c) \<le> ping_gaps_kept \<and> (\<forall>g\<in>set (ic_gaps c). g \<le> max_ping_gap)
      \<and> (ic_gaps c = [] \<longleftrightarrow> ic_last_ping c = None))"

lemma cadence_inv_new: "cadence_inv (cadence_new t)"
  by (simp add: cadence_inv_def cadence_new_def)

lemma cadence_inv_hear: "cadence_inv c \<Longrightarrow> cadence_inv (hear h c)"
proof (cases h)
  case (Ping t)
  assume inv: "cadence_inv c"
  have "length (tl (ic_gaps c)) < ping_gaps_kept" if "length (ic_gaps c) = ping_gaps_kept"
    using that by (simp add: ping_gaps_kept_def)
  moreover have "\<forall>g\<in>set (tl (ic_gaps c)). g \<le> max_ping_gap"
    using inv by (cases "ic_gaps c") (auto simp: cadence_inv_def)
  ultimately show ?thesis
    using inv Ping by (auto simp: cadence_inv_def on_ping_def on_frame_def Let_def)
qed (simp add: cadence_inv_def on_frame_def)

lemma cadence_inv_run: "cadence_inv (hear_all t0 hs)"
proof -
  have "cadence_inv c \<Longrightarrow> cadence_inv (fold hear hs c)" for c
    by (induction hs arbitrary: c) (auto intro: cadence_inv_hear)
  then show ?thesis by (simp add: hear_all_def cadence_inv_new)
qed

lemma armed_run: "ic_gaps (hear_all t0 hs) \<noteq> [] \<longleftrightarrow> (\<exists>h\<in>set hs. is_ping h)"
proof -
  have "ic_gaps (fold hear hs c) \<noteq> [] \<longleftrightarrow> ic_gaps c \<noteq> [] \<or> (\<exists>h\<in>set hs. is_ping h)" for c
  proof (induction hs arbitrary: c)
    case (Cons h hs)
    have "ic_gaps (hear h c) \<noteq> [] \<longleftrightarrow> ic_gaps c \<noteq> [] \<or> is_ping h"
      by (cases h) (auto simp: on_ping_def on_frame_def Let_def)
    then show ?case using Cons.IH [of "hear h c"] by auto
  qed simp
  then show ?thesis by (simp add: hear_all_def cadence_new_def)
qed

subsection \<open>The upper median\<close>

lemma sorted_nth_le_iff:
  "sorted xs \<Longrightarrow> i < length xs \<Longrightarrow> xs ! i \<le> (b :: nat) \<longleftrightarrow> i < length (filter (\<lambda>x. x \<le> b) xs)"
proof (induction xs arbitrary: i)
  case (Cons x xs)
  show ?case
  proof (cases "x \<le> b")
    case True
    with Cons show ?thesis by (cases i) auto
  next
    case False
    with Cons.prems have "filter (\<lambda>x. x \<le> b) (x # xs) = []" by (auto simp: filter_empty_conv)
    moreover have "x \<le> (x # xs) ! i" using Cons.prems by (cases i) (auto simp: nth_mem)
    ultimately show ?thesis using False by simp
  qed
qed simp

lemma sort_nth_le_iff:
  "i < length xs \<Longrightarrow> sort xs ! i \<le> (b :: nat) \<longleftrightarrow> i < length (filter (\<lambda>x. x \<le> b) xs)"
  using sorted_nth_le_iff [of "sort xs" i b] by (simp add: filter_sort)

lemma sort_nth_mem: "i < length xs \<Longrightarrow> sort xs ! i \<in> set xs"
  by (metis length_sort nth_mem set_sort)

lemma silence_limit_eq:
  "silence_limit c =
     (if ic_gaps c = [] then None
      else Some (max silence_floor
        (min (silence_pings * sort (ic_gaps c) ! (length (ic_gaps c) div 2)) duration_max)))"
  by (cases "ic_gaps c") (auto simp: silence_limit_def Let_def)

lemma capped_median:
  assumes "cadence_inv c" and "ic_gaps c \<noteq> []"
  shows "silence_limit c =
     Some (max silence_floor (silence_pings * sort (ic_gaps c) ! (length (ic_gaps c) div 2)))"
proof -
  have "length (ic_gaps c) div 2 < length (ic_gaps c)" using assms(2) by simp
  then have "sort (ic_gaps c) ! (length (ic_gaps c) div 2) \<le> max_ping_gap"
    using assms(1) sort_nth_mem by (auto simp: cadence_inv_def)
  then show ?thesis
    using assms(2)
    by (simp add: silence_limit_eq silence_pings_def max_ping_gap_def duration_max_def secs_def)
qed

subsection \<open>A steady manager\<close>

text \<open>Pings every \<open>p\<close>, the first one \<open>p\<close> after the session began.\<close>

definition steady :: "instant \<Rightarrow> duration \<Rightarrow> nat \<Rightarrow> heard list" where
  "steady t0 p n = map (\<lambda>i. Ping (t0 + Suc i * p)) [0..<n]"

lemma on_ping_eq:
  "on_ping t \<lparr>ic_started = a, ic_last_frame = b, ic_last_ping = q, ic_gaps = g\<rparr> =
     \<lparr>ic_started = a, ic_last_frame = t, ic_last_ping = Some t,
      ic_gaps = (if length g = ping_gaps_kept then tl g else g)
        @ [min (t - (case q of Some u \<Rightarrow> u | None \<Rightarrow> a)) max_ping_gap]\<rparr>"
  by (cases q) (simp_all add: on_ping_def on_frame_def Let_def)

lemma steady_state:
  assumes "p \<le> max_ping_gap"
  shows "hear_all t0 (steady t0 p n) =
     \<lparr>ic_started = t0, ic_last_frame = t0 + n * p,
      ic_last_ping = (if n = 0 then None else Some (t0 + n * p)),
      ic_gaps = replicate (min n ping_gaps_kept) p\<rparr>"
proof (induction n)
  case 0
  then show ?case by (simp add: hear_all_def steady_def cadence_new_def)
next
  case (Suc n)
  have "steady t0 p (Suc n) = steady t0 p n @ [Ping (t0 + Suc n * p)]"
    by (simp add: steady_def)
  then have step: "hear_all t0 (steady t0 p (Suc n)) =
      on_ping (t0 + Suc n * p) (hear_all t0 (steady t0 p n))"
    by (simp add: hear_all_def)
  let ?k = ping_gaps_kept and ?r = "replicate (min n ping_gaps_kept) p"
  have kept: "(if length ?r = ?k then tl ?r else ?r) @ [p] = replicate (min (Suc n) ?k) p"
  proof (cases "n < ?k")
    case True
    then have "min n ?k = n" "min (Suc n) ?k = Suc n" by simp_all
    then show ?thesis using True by (simp only: length_replicate replicate_append_same replicate_Suc if_False less_imp_neq)
  next
    case False
    then have "min n ?k = Suc 7" "min (Suc n) ?k = Suc 7" by (simp_all add: ping_gaps_kept_def)
    then show ?thesis by (simp add: ping_gaps_kept_def numeral_eq_Suc)
  qed
  have gap: "t0 + Suc n * p - (case if n = 0 then None else Some (t0 + n * p) of Some t \<Rightarrow> t | None \<Rightarrow> t0) = p"
    by simp
  show ?case
    unfolding step Suc.IH on_ping_eq gap min_absorb1 [OF assms] kept by simp
qed

lemma steady_limit:
  assumes "p \<le> max_ping_gap" and "0 < n"
  shows "silence_limit (hear_all t0 (steady t0 p n)) = Some (max silence_floor (silence_pings * p))"
proof -
  let ?c = "hear_all t0 (steady t0 p n)" and ?k = "min n ping_gaps_kept"
  have gaps: "ic_gaps ?c = replicate ?k p" using steady_state [OF assms(1)] by simp
  have k: "0 < ?k" using assms(2) by (simp add: ping_gaps_kept_def)
  have "sort (replicate ?k p) = replicate ?k p" by (rule sort_key_id_if_sorted) (simp add: sorted_replicate)
  moreover have "m div 2 < m" if "0 < m" for m :: nat using that by simp
  note this [OF k]
  ultimately have "sort (ic_gaps ?c) ! (length (ic_gaps ?c) div 2) = p"
    unfolding gaps by (simp only: length_replicate nth_replicate)
  moreover have "ic_gaps ?c \<noteq> []" using k gaps by (metis length_0_conv length_replicate less_irrefl)
  ultimately show ?thesis using capped_median [OF cadence_inv_run] by simp
qed

subsection \<open>Properties\<close>

text \<open>C32: whatever frames and pings arrive and whenever, the watchdog has no limit before the first
  ping (an old manager that never pings is never declared dead), and from then on its limit is at
  least 90 s and at most 1200 s.\<close>

theorem silence_limit_bounds:
  "case silence_limit (hear_all t0 hs) of
     None \<Rightarrow> filter is_ping hs = []
   | Some limit \<Rightarrow> filter is_ping hs \<noteq> [] \<and> secs 90 \<le> limit \<and> limit \<le> secs 1200"
proof (cases "ic_gaps (hear_all t0 hs) = []")
  case True
  then show ?thesis using armed_run [of t0 hs] by (simp add: silence_limit_eq filter_empty_conv)
next
  case False
  let ?g = "ic_gaps (hear_all t0 hs)"
  have "length ?g div 2 < length ?g" using False by simp
  then have "sort ?g ! (length ?g div 2) \<le> max_ping_gap"
    using sort_nth_mem cadence_inv_run [of t0 hs] by (auto simp: cadence_inv_def)
  then show ?thesis
    using False armed_run [of t0 hs] capped_median [OF cadence_inv_run False]
    by (auto simp: filter_empty_conv silence_floor_def silence_pings_def max_ping_gap_def secs_def)
qed

text \<open>A manager that pings every \<open>p\<close> (up to the 300 s cap) is declared dead exactly when it has
  been silent for longer than both 90 s and four of its own intervals; in particular never while its
  pings keep coming.\<close>

lemma steady_manager_dead_iff:
  assumes "p \<le> max_ping_gap" and "0 < n"
  shows "dead_for (t0 + n * p + d) (hear_all t0 (steady t0 p n)) =
     (if d > max (secs 90) (4 * p) then Some (d, max (secs 90) (4 * p)) else None)"
  using steady_limit [OF assms, of t0] steady_state [OF assms(1), of t0 n]
  by (simp add: dead_for_def Let_def silence_floor_def silence_pings_def)

text \<open>A minority of long pauses does not raise the limit.\<close>

lemma minority_of_pauses_ignored:
  assumes "2 * length (filter (\<lambda>g. b < g) (ic_gaps (hear_all t0 hs))) < length (ic_gaps (hear_all t0 hs))"
  shows "\<exists>limit. silence_limit (hear_all t0 hs) = Some limit \<and> limit \<le> max (secs 90) (4 * b)"
proof -
  let ?g = "ic_gaps (hear_all t0 hs)"
  have ne: "?g \<noteq> []" using assms by auto
  have "length (filter (\<lambda>g. g \<le> b) ?g) + length (filter (\<lambda>g. b < g) ?g) = length ?g"
    using sum_length_filter_compl [of "\<lambda>g. g \<le> b" ?g] by (simp add: not_le)
  then have "length ?g div 2 < length (filter (\<lambda>g. g \<le> b) ?g)" using assms by linarith
  then have "sort ?g ! (length ?g div 2) \<le> b" using ne by (subst sort_nth_le_iff) simp_all
  then show ?thesis
    using capped_median [OF cadence_inv_run ne]
    by (simp add: silence_floor_def silence_pings_def)
qed

end
