(* ===== verification/Session.thy ===== *)
theory Session
  imports Commands Cadence
begin

section \<open>One session: the reader and the session loop (src/ws_client.rs)\<close>

text \<open>
  \<open>read_manager\<close> reads frames the moment they arrive and hands them to \<open>drive_session\<close> over a bounded
  channel and a byte budget; \<open>drive_session\<close> is the only writer. The reader is a state machine whose
  waits (for budget, for room) are phases, interleaved with the loop's takes; the loop is a function of
  what each turn of its \<open>select!\<close> picked and of how the write it made ended.
\<close>

definition inbound_channel_size :: nat where "inbound_channel_size = 256"
definition inbound_budget_bytes :: nat where "inbound_budget_bytes = 4 * max_inbound_ws_bytes"
definition write_stall_limit :: duration where "write_stall_limit = secs 300"

text \<open>What \<open>read.next()\<close> yields; a \<open>Text\<close> is its UTF-8 bytes.\<close>

datatype ws_read =
    ReadText string
  | ReadBinary
  | ReadPing bytes
  | ReadPong
  | ReadClose "string option"
  | ReadError string
  | ReadEnd

datatype inbound =
    InText string nat
  | InPing bytes
  | InClosed "string option"
  | InFailed string
  | InEnded

subsection \<open>The reader\<close>

datatype reader_phase =
    Reading
  | WantBudget string
  | WantRoom inbound
  | Parked
  | FoundDead duration duration

record reader =
  rd_cadence :: inbound_cadence
  rd_phase :: reader_phase
  rd_inbound :: "inbound chan"
  rd_budget :: nat
  rd_routing :: nat
  rd_reads :: "ws_read list"
  rd_taken :: "inbound list"

definition reader_new :: "instant \<Rightarrow> reader" where
  "reader_new started = \<lparr>rd_cadence = cadence_new started, rd_phase = Reading,
     rd_inbound = chan_new inbound_channel_size, rd_budget = inbound_budget_bytes, rd_routing = 0,
     rd_reads = [], rd_taken = []\<rparr>"

text \<open>A frame read: stamped, then dropped, offered (a ping) or waiting to be handed over.\<close>

definition on_read :: "instant \<Rightarrow> ws_read \<Rightarrow> reader \<Rightarrow> reader" where
  "on_read now fr s0 =
     (let s = s0\<lparr>rd_reads := rd_reads s0 @ [fr]\<rparr>;
          stamped = s\<lparr>rd_cadence := on_frame now (rd_cadence s)\<rparr> in
      case fr of
        ReadPing d \<Rightarrow>
          s\<lparr>rd_cadence := on_ping now (rd_cadence s),
            rd_inbound := (case try_send (InPing d) (rd_inbound s) of Sent c \<Rightarrow> c | _ \<Rightarrow> rd_inbound s)\<rparr>
      | ReadText t \<Rightarrow> stamped\<lparr>rd_phase := WantBudget t\<rparr>
      | ReadClose f \<Rightarrow> stamped\<lparr>rd_phase := WantRoom (InClosed f)\<rparr>
      | ReadBinary \<Rightarrow> stamped
      | ReadPong \<Rightarrow> stamped
      | ReadError e \<Rightarrow> s\<lparr>rd_phase := WantRoom (InFailed e)\<rparr>
      | ReadEnd \<Rightarrow> s\<lparr>rd_phase := WantRoom InEnded\<rparr>)"

text \<open>\<open>acquire_many_owned\<close>: ready once the budget has the frame's cost.\<close>

definition on_budget :: "string \<Rightarrow> reader \<Rightarrow> reader" where
  "on_budget t s =
     (case try_acquire (permit_cost (length t)) (rd_budget s) of
        None \<Rightarrow> s
      | Some b \<Rightarrow> s\<lparr>rd_budget := b, rd_phase := WantRoom (InText t (permit_cost (length t)))\<rparr>)"

fun more_after :: "inbound \<Rightarrow> bool" where
  "more_after (InText _ _) = True"
| "more_after _ = False"

text \<open>\<open>inbound.send(handover)\<close>: ready once there is room; reading goes on after text only, timed from now.\<close>

definition on_room :: "instant \<Rightarrow> inbound \<Rightarrow> reader \<Rightarrow> reader" where
  "on_room now h s =
     (case try_send h (rd_inbound s) of
        Full \<Rightarrow> s
      | Closed \<Rightarrow> s\<lparr>rd_phase := Parked\<rparr>
      | Sent c \<Rightarrow>
          if more_after h then
            s\<lparr>rd_inbound := c, rd_phase := Reading, rd_cadence := on_frame now (rd_cadence s)\<rparr>
          else s\<lparr>rd_inbound := c, rd_phase := Parked\<rparr>)"

definition on_check :: "instant \<Rightarrow> reader \<Rightarrow> reader" where
  "on_check now s =
     (case dead_for now (rd_cadence s) of
        None \<Rightarrow> s
      | Some (silent, limit) \<Rightarrow> s\<lparr>rd_phase := FoundDead silent limit\<rparr>)"

text \<open>The loop's side: it takes what was handed over, and gives a text's bytes back once it has routed it,
  before it takes more.\<close>

fun held_by :: "inbound \<Rightarrow> nat" where
  "held_by (InText _ n) = n"
| "held_by _ = 0"

definition on_take :: "reader \<Rightarrow> reader" where
  "on_take s =
     (case recv (rd_inbound s) of
        Got h c \<Rightarrow> s\<lparr>rd_inbound := c, rd_routing := held_by h, rd_taken := rd_taken s @ [h]\<rparr>
      | _ \<Rightarrow> s)"

definition on_routed :: "reader \<Rightarrow> reader" where
  "on_routed s = s\<lparr>rd_routing := 0, rd_budget := release (rd_routing s) (rd_budget s)\<rparr>"

inductive reader_step :: "reader \<Rightarrow> reader \<Rightarrow> bool" where
  rs_read: "rd_phase s = Reading \<Longrightarrow> reader_step s (on_read now fr s)"
| rs_budget: "rd_phase s = WantBudget t \<Longrightarrow> reader_step s (on_budget t s)"
| rs_room: "rd_phase s = WantRoom h \<Longrightarrow> reader_step s (on_room now h s)"
| rs_check: "rd_phase s = Reading \<Longrightarrow> reader_step s (on_check now s)"
| rs_take: "rd_routing s = 0 \<Longrightarrow> reader_step s (on_take s)"
| rs_routed: "reader_step s (on_routed s)"

subsection \<open>The session loop\<close>

datatype connection_result =
    AuthenticatedThenClosed
  | AuthenticatedThenLost sdk_error
  | ShutdownRequested

text \<open>How a bounded write ended.\<close>

datatype write_end = Written | AfterClosing | WriteFailed string | WriteStalls

definition send_bounded :: "write_end \<Rightarrow> string \<Rightarrow> sdk_error + unit" where
  "send_bounded e what =
     (case e of
        AfterClosing \<Rightarrow> Inr ()
      | Written \<Rightarrow> Inr ()
      | WriteFailed err \<Rightarrow> Inl (sdk_from_tungstenite err)
      | WriteStalls \<Rightarrow> Inl (WebSocket (WriteStalled what (as_secs write_stall_limit))))"

definition gateway_busy :: command_error where
  "gateway_busy = command_error_new ''gateway_busy''
     (''The gateway is still working through earlier commands and did not run ''
      @ ''this one. Retry once they have finished.'')"

text \<open>What routing a text leaves to do: nothing, a reply to write, or the end.\<close>

datatype routed =
    RoutedDone
  | Reply (reply_what: string) (reply_type: string) (reply_payload: json)
  | WorkerStopped

definition refuse_busy :: "string \<Rightarrow> routed" where
  "refuse_busy command_id = Reply ''command_ack'' ''command_ack'' (command_ack_payload command_id (Inl gateway_busy))"

definition route_inbound :: "wire \<Rightarrow> string \<Rightarrow> worker \<Rightarrow> routed \<times> worker" where
  "route_inbound w txt wk =
     (case parse_incoming w txt of
        None \<Rightarrow> (RoutedDone, wk)
      | Some m \<Rightarrow>
          if im_type m = ''command'' then
            let command_id = (case get_str (im_payload m) ''command_id'' of Some i \<Rightarrow> i | None \<Rightarrow> []) in
            (case queue_command command_id txt wk of
               Accepted wk' \<Rightarrow> (RoutedDone, wk')
             | Refused \<Rightarrow> (refuse_busy command_id, wk)
             | WorkerGone \<Rightarrow> (WorkerStopped, wk))
          else if im_type m = ''ping'' then (Reply ''pong'' ''pong'' JNull, wk)
          else (RoutedDone, wk))"

text \<open>What one turn of the loop's \<open>select!\<close> picked.\<close>

datatype loop_input =
    FromManager "inbound option"
  | FromEmitter frame
  | HeartbeatTick

datatype ws_write = WriteText string | WritePong bytes | WriteClose

definition heartbeat_payload :: "string \<Rightarrow> json" where
  "heartbeat_payload version = json_obj [(''status'', JStr ''ok''), (''version'', JStr version)]"

definition after_write :: "sdk_error + unit \<Rightarrow> connection_result option" where
  "after_write r = (case r of Inl e \<Rightarrow> Some (AuthenticatedThenLost e) | Inr _ \<Rightarrow> None)"

definition loop_turn ::
  "wire \<Rightarrow> string \<Rightarrow> string \<Rightarrow> loop_input \<Rightarrow> write_end \<Rightarrow> worker
     \<Rightarrow> ws_write list \<times> connection_result option \<times> worker" where
  "loop_turn w now version input e wk =
     (case input of
        FromManager (Some (InText t _)) \<Rightarrow>
          (case route_inbound w t wk of
             (RoutedDone, wk') \<Rightarrow> ([], None, wk')
           | (Reply what ty p, wk') \<Rightarrow>
               ([WriteText (envelope w now ty p)], after_write (send_bounded e what), wk')
           | (WorkerStopped, wk') \<Rightarrow>
               ([], Some (AuthenticatedThenLost (Channel channel_msg.WorkerStopped)), wk'))
      | FromManager (Some (InPing d)) \<Rightarrow> ([WritePong d], after_write (send_bounded e ''pong''), wk)
      | FromManager (Some (InClosed f)) \<Rightarrow> ([], Some AuthenticatedThenClosed, wk)
      | FromManager (Some (InFailed err)) \<Rightarrow>
          ([], Some (AuthenticatedThenLost (sdk_from_tungstenite err)), wk)
      | FromManager (Some InEnded) \<Rightarrow> ([], Some AuthenticatedThenClosed, wk)
      | FromManager None \<Rightarrow> ([], Some AuthenticatedThenClosed, wk)
      | FromEmitter frame \<Rightarrow> ([WriteText frame], after_write (send_bounded e ''outbound''), wk)
      | HeartbeatTick \<Rightarrow>
          ([WriteText (envelope w now ''health'' (heartbeat_payload version))],
           after_write (send_bounded e ''heartbeat''), wk))"

text \<open>The worker shares the queue: before a turn it may have started some commands, or have returned.\<close>

datatype worker_move = WorkerTook nat | WorkerReturned

fun took :: "nat \<Rightarrow> worker \<Rightarrow> worker" where
  "took 0 wk = wk"
| "took (Suc n) wk =
     (case recv (wk_queue wk) of
        Got c q \<Rightarrow> took n (wk\<lparr>wk_queue := q, wk_budget := release (qc_held c) (wk_budget wk)\<rparr>)
      | _ \<Rightarrow> wk)"

fun worker_moved :: "worker_move \<Rightarrow> worker \<Rightarrow> worker" where
  "worker_moved (WorkerTook n) wk = took n wk"
| "worker_moved WorkerReturned wk = drop_queue wk"

text \<open>The loop over its turns: the time stamp, what the worker did before, the branch picked and how the
  write made ended. No result while it is still running.\<close>

type_synonym turn = "string \<times> worker_move \<times> loop_input \<times> write_end"

fun drive_session ::
  "wire \<Rightarrow> string \<Rightarrow> turn list \<Rightarrow> worker \<Rightarrow> ws_write list \<times> connection_result option \<times> worker" where
  "drive_session w version [] wk = ([], None, wk)"
| "drive_session w version ((now, m, input, e) # turns) wk =
     (case loop_turn w now version input e (worker_moved m wk) of
        (ws, Some r, wk') \<Rightarrow> (ws, Some r, wk')
      | (ws, None, wk') \<Rightarrow>
          (let (ws', r, wk'') = drive_session w version turns wk' in (ws @ ws', r, wk'')))"

subsection \<open>The session\<close>

text \<open>\<open>run_session\<close> races the loop against shutdown and the reader: it ends with the loop, or the loop is
  dropped where it stands. At shutdown a Close frame is written.\<close>

datatype session_stop = KeepsRunning | ShutdownFirst | ReaderFoundDead duration duration

definition run_session ::
  "wire \<Rightarrow> string \<Rightarrow> turn list \<Rightarrow> session_stop \<Rightarrow> ws_write list \<times> connection_result option" where
  "run_session w version turns stop =
     (case drive_session w version turns worker_new of
        (ws, Some fin, _) \<Rightarrow> (ws, Some fin)
      | (ws, None, _) \<Rightarrow>
          (case stop of
             KeepsRunning \<Rightarrow> (ws, None)
           | ShutdownFirst \<Rightarrow> (ws @ [WriteClose], Some ShutdownRequested)
           | ReaderFoundDead silent limit \<Rightarrow>
               (ws, Some (AuthenticatedThenLost (WebSocket (ManagerSilent (as_secs silent) (as_secs limit)))))))"

subsection \<open>What the reader keeps\<close>

text \<open>What a read frame is handed over as; pings are only offered.\<close>

fun wanted :: "ws_read \<Rightarrow> inbound list" where
  "wanted (ReadText t) = [InText t (permit_cost (length t))]"
| "wanted (ReadClose f) = [InClosed f]"
| "wanted (ReadError e) = [InFailed e]"
| "wanted ReadEnd = [InEnded]"
| "wanted _ = []"

definition all_wanted :: "reader \<Rightarrow> inbound list" where
  "all_wanted s = concat (map wanted (rd_reads s))"

fun not_ping :: "inbound \<Rightarrow> bool" where
  "not_ping (InPing _) = False"
| "not_ping _ = True"

fun pending :: "reader_phase \<Rightarrow> inbound list" where
  "pending (WantBudget t) = [InText t (permit_cost (length t))]"
| "pending (WantRoom h) = [h]"
| "pending _ = []"

fun granted :: "reader_phase \<Rightarrow> nat" where
  "granted (WantRoom h) = held_by h"
| "granted _ = 0"

fun at_end :: "reader_phase \<Rightarrow> bool" where
  "at_end Parked = True"
| "at_end (WantRoom h) = (\<not> more_after h)"
| "at_end _ = False"

definition reader_inv :: "reader \<Rightarrow> bool" where
  "reader_inv s =
     (filter not_ping (rd_taken s @ ch_items (rd_inbound s)) @ pending (rd_phase s) = all_wanted s
      \<and> rd_budget s + rd_routing s + sum_list (map held_by (ch_items (rd_inbound s))) + granted (rd_phase s)
          = inbound_budget_bytes
      \<and> mpsc.within (rd_inbound s) \<and> ch_cap (rd_inbound s) = inbound_channel_size
      \<and> ch_rx_open (rd_inbound s)
      \<and> list_all not_ping (pending (rd_phase s))
      \<and> list_all more_after (if at_end (rd_phase s) then butlast (all_wanted s) else all_wanted s))"

lemma reader_inv_new: "reader_inv (reader_new t)"
  by (simp add: reader_inv_def reader_new_def all_wanted_def chan_new_def mpsc.within_def)

lemma all_wanted_read: "all_wanted (on_read now fr s) = all_wanted s @ wanted fr"
  by (cases fr) (simp_all add: all_wanted_def on_read_def Let_def)

lemma reader_inv_read:
  assumes "reader_inv s" and "rd_phase s = Reading"
  shows "reader_inv (on_read now fr s)"
proof (cases "\<exists>d. fr = ReadPing d")
  case True
  then obtain d where d: "fr = ReadPing d" ..
  show ?thesis
  proof (cases "try_send (InPing d) (rd_inbound s)")
    case (Sent c)
    then show ?thesis
      using sent_facts [OF Sent] assms all_wanted_read [of now fr s] by (simp add: d reader_inv_def on_read_def Let_def Sent)
  qed (use assms all_wanted_read [of now fr s] in \<open>simp_all add: d reader_inv_def on_read_def Let_def\<close>)
next
  case False
  then show ?thesis
    using assms all_wanted_read [of now fr s]
    by (cases fr) (auto simp: reader_inv_def on_read_def Let_def)
qed

lemma reader_inv_budget: "reader_inv s \<Longrightarrow> rd_phase s = WantBudget t \<Longrightarrow> reader_inv (on_budget t s)"
  by (auto simp: reader_inv_def on_budget_def all_wanted_def try_acquire_Some_iff split: option.split)

lemma reader_inv_room:
  assumes "reader_inv s" and "rd_phase s = WantRoom h"
  shows "reader_inv (on_room now h s)"
proof (cases "try_send h (rd_inbound s)")
  case (Sent c)
  then show ?thesis using sent_facts [OF Sent] assms by (auto simp: reader_inv_def on_room_def all_wanted_def Sent)
next
  case Closed
  then show ?thesis using assms by (auto simp: reader_inv_def try_send_def split: if_splits)
qed (use assms in \<open>simp add: on_room_def\<close>)

lemma reader_inv_take: "reader_inv s \<Longrightarrow> rd_routing s = 0 \<Longrightarrow> reader_inv (on_take s)"
proof (cases "recv (rd_inbound s)")
  case (Got h c)
  assume inv: "reader_inv s" and idle: "rd_routing s = 0"
  have "ch_items (rd_inbound s) = h # ch_items c" "ch_cap c = ch_cap (rd_inbound s)" "ch_rx_open c = ch_rx_open (rd_inbound s)"
    using Got by (auto simp: recv_def split: list.splits if_splits)
  then show ?thesis
    using inv idle by (auto simp: reader_inv_def on_take_def Got all_wanted_def mpsc.within_def)
qed (simp_all add: on_take_def)

lemma reader_inv_routed: "reader_inv s \<Longrightarrow> reader_inv (on_routed s)"
  by (auto simp: reader_inv_def on_routed_def all_wanted_def release_def)

lemma reader_inv_step: "reader_step s s' \<Longrightarrow> reader_inv s \<Longrightarrow> reader_inv s'"
proof (induction rule: reader_step.induct)
  case (rs_check s now)
  then show ?case
    by (auto simp: on_check_def reader_inv_def all_wanted_def split: option.split)
qed (simp_all add: reader_inv_read reader_inv_budget reader_inv_room reader_inv_take reader_inv_routed)

interpretation readers: step_invariant "\<lambda>s. \<exists>t. s = reader_new t" reader_step reader_inv
  by unfold_locales (auto simp: reader_inv_new intro: reader_inv_step)

subsection \<open>What routing keeps\<close>

lemma queue_command_cases:
  assumes "ch_rx_open (wk_queue wk)"
  shows "queue_command i f wk =
     (if permit_cost (length f) \<le> wk_budget wk \<and> length (ch_items (wk_queue wk)) < ch_cap (wk_queue wk)
      then Accepted (wk\<lparr>wk_queue := (wk_queue wk)\<lparr>ch_items := ch_items (wk_queue wk)
             @ [\<lparr>qc_id = i, qc_frame = f, qc_held = permit_cost (length f)\<rparr>]\<rparr>,
             wk_budget := wk_budget wk - permit_cost (length f)\<rparr>)
      else Refused)"
  using assms by (simp add: queue_command_def Let_def try_acquire_def try_send_def)

lemma route_keeps_queue:
  assumes "ch_rx_open (wk_queue wk)" and "route_inbound w t wk = (x, wk')"
  shows "ch_rx_open (wk_queue wk') \<and> x \<noteq> WorkerStopped"
  using assms
  by (auto simp: route_inbound_def queue_command_cases Let_def refuse_busy_def split: option.splits if_splits)

fun session_ends :: "loop_input \<Rightarrow> bool" where
  "session_ends (FromManager None) = True"
| "session_ends (FromManager (Some (InClosed _))) = True"
| "session_ends (FromManager (Some InEnded)) = True"
| "session_ends _ = False"

fun read_failed :: "loop_input \<Rightarrow> bool" where
  "read_failed (FromManager (Some (InFailed _))) = True"
| "read_failed _ = False"

lemma good_write: "e \<in> {Written, AfterClosing} \<Longrightarrow> after_write (send_bounded e what) = None"
  by (auto simp: after_write_def send_bounded_def)

lemma loop_turn_quiet:
  assumes "e \<in> {Written, AfterClosing}" and "ch_rx_open (wk_queue wk)" and "\<not> read_failed input"
    and "loop_turn w now version input e wk = (ws, r, wk')"
  shows "ch_rx_open (wk_queue wk') \<and> r = (if session_ends input then Some AuthenticatedThenClosed else None)"
proof (cases input)
  case (FromManager h)
  show ?thesis
  proof (cases "\<exists>t n. h = Some (InText t n)")
    case True
    then obtain t n where h: "h = Some (InText t n)" by blast
    obtain x wk1 where rt: "route_inbound w t wk = (x, wk1)" by fastforce
    then show ?thesis
      using assms(4) route_keeps_queue [OF assms(2) rt] good_write [OF assms(1)]
      by (cases x) (auto simp: loop_turn_def FromManager h)
  next
    case False
    then show ?thesis
      using assms good_write [OF assms(1)]
      by (cases h; cases "the h") (auto simp: loop_turn_def FromManager)
  qed
qed (use assms good_write [OF assms(1)] in \<open>auto simp: loop_turn_def\<close>)

lemma took_keeps_queue: "ch_rx_open (wk_queue (took n wk)) = ch_rx_open (wk_queue wk)"
  by (induction n wk rule: took.induct) (auto simp: recv_def split: received.split list.split)

lemma drive_session_quiet:
  "\<forall>(now, m, input, e)\<in>set turns. m \<noteq> WorkerReturned \<and> e \<in> {Written, AfterClosing} \<and> \<not> read_failed input \<Longrightarrow>
   ch_rx_open (wk_queue wk) \<Longrightarrow>
     fst (snd (drive_session w version turns wk)) =
       (if \<exists>(now, m, input, e)\<in>set turns. session_ends input then Some AuthenticatedThenClosed else None)"
proof (induction turns arbitrary: wk)
  case (Cons turn turns)
  obtain now m input e where t: "turn = (now, m, input, e)" by (cases turn)
  obtain ws r wk' where run: "loop_turn w now version input e (worker_moved m wk) = (ws, r, wk')"
    by (cases "loop_turn w now version input e (worker_moved m wk)")
  have "ch_rx_open (wk_queue (worker_moved m wk))" using Cons.prems t by (cases m) (auto simp: took_keeps_queue)
  then have q: "ch_rx_open (wk_queue wk')" "r = (if session_ends input then Some AuthenticatedThenClosed else None)"
    using loop_turn_quiet [OF _ _ _ run] Cons.prems t by auto
  show ?case
    using Cons.IH [OF _ q(1)] Cons.prems(1) q(2)
    by (cases "drive_session w version turns wk'") (auto simp: t run split: if_splits)
qed simp

subsection \<open>Properties\<close>

text \<open>C13: the reader loses and reorders nothing. In every reachable state the frames it has handed over, those
  in the channel and the one in its hands are, pings aside, exactly the texts, closes, errors and ends it has
  read, in order, with nothing after an end; at most 256 items and 20 MiB of text wait; and a text of at most
  5 MiB never waits for budget when nothing is ahead of it but one text being routed.\<close>

theorem reader_delivers_in_order:
  assumes "reachable (\<lambda>s. \<exists>t. s = reader_new t) reader_step s"
  shows "filter not_ping (rd_taken s @ ch_items (rd_inbound s)) @ pending (rd_phase s)
       = concat (map wanted (rd_reads s))
    \<and> list_all more_after (butlast (concat (map wanted (rd_reads s))))
    \<and> length (ch_items (rd_inbound s)) \<le> 256
    \<and> sum_list (map held_by (ch_items (rd_inbound s))) + rd_routing s \<le> 20971520
    \<and> (\<forall>t. rd_phase s = WantBudget t \<and> length t \<le> 5242880 \<and> ch_items (rd_inbound s) = []
         \<and> rd_routing s \<le> 5242880 \<longrightarrow> rd_phase (on_budget t s) = WantRoom (InText t (permit_cost (length t))))"
proof -
  have inv: "reader_inv s" by (rule readers.reachable_inv [OF assms])
  have b: "inbound_budget_bytes = 20971520" by (simp add: inbound_budget_bytes_def max_inbound_ws_bytes_def)
  have cost: "permit_cost n \<le> n" for n by (simp add: permit_cost_def)
  have last: "list_all more_after (butlast xs)" if "list_all more_after xs" for xs :: "inbound list"
    using that by (auto simp: list_all_iff dest: in_set_butlastD)
  have "list_all more_after (butlast (all_wanted s))"
    using inv last by (auto simp: reader_inv_def split: if_splits)
  moreover have "rd_phase (on_budget t s) = WantRoom (InText t (permit_cost (length t)))"
    if "rd_phase s = WantBudget t" "length t \<le> 5242880" "ch_items (rd_inbound s) = []" "rd_routing s \<le> 5242880" for t
    using inv that b cost [of "length t"] by (auto simp: reader_inv_def on_budget_def try_acquire_def)
  ultimately show ?thesis
    using inv b unfolding reader_inv_def all_wanted_def
    by (auto simp: mpsc.within_def inbound_channel_size_def)
qed

theorem reader_delivers_in_order_witness:
  "let s = on_read 5 (ReadText ''hi'') (on_read 3 ReadPong (reader_new 0)) in
   filter not_ping (rd_taken s @ ch_items (rd_inbound s)) @ pending (rd_phase s) = [InText ''hi'' 2]"
proof -
  define s where "s = on_read 5 (ReadText ''hi'') (on_read 3 ReadPong (reader_new 0))"
  have "reachable (\<lambda>s. \<exists>t. s = reader_new t) reader_step (reader_new 0)" by (rule reach_init) blast
  then have "reachable (\<lambda>s. \<exists>t. s = reader_new t) reader_step (on_read 3 ReadPong (reader_new 0))"
    by (rule reach_step) (rule rs_read, simp add: reader_new_def)
  then have "reachable (\<lambda>s. \<exists>t. s = reader_new t) reader_step s"
    unfolding s_def by (rule reach_step) (rule rs_read, simp add: reader_new_def on_read_def)
  from reader_delivers_in_order [OF this] show ?thesis
    by (simp add: s_def on_read_def reader_new_def permit_cost_def)
qed

text \<open>A command is queued or refused as busy, never lost. While the worker lives, a command frame goes to
  the back of the queue with its id and bytes when both the byte budget and the queue have room, and is
  answered at once with a \<open>gateway_busy\<close> ack of its id, nothing changed, when one has none.\<close>

lemma command_is_queued_or_refused:
  assumes "parse_incoming w txt = Some \<lparr>im_type = ''command'', im_payload = p\<rparr>"
    and "get_str p ''command_id'' = Some i" and "ch_rx_open (wk_queue wk)"
  shows "route_inbound w txt wk =
     (if permit_cost (length txt) \<le> wk_budget wk \<and> length (ch_items (wk_queue wk)) < ch_cap (wk_queue wk)
      then (RoutedDone, wk\<lparr>wk_queue := (wk_queue wk)\<lparr>ch_items := ch_items (wk_queue wk)
             @ [\<lparr>qc_id = i, qc_frame = txt, qc_held = permit_cost (length txt)\<rparr>]\<rparr>,
             wk_budget := wk_budget wk - permit_cost (length txt)\<rparr>)
      else (Reply ''command_ack'' ''command_ack'' (command_ack_payload i (Inl gateway_busy)), wk))
    \<and> ack_outcome (command_ack_payload i (Inl gateway_busy)) = Some (i, Inl gateway_busy)"
  using assms by (simp add: route_inbound_def queue_command_cases refuse_busy_def ack_outcome_payload)

text \<open>C29: a session whose writes go out or come too late ends cleanly or not at all. While no read fails, no
  write fails or stalls, and the worker lives, the loop ends exactly when the manager's close or the end of
  the stream reaches it, and then as closed: a frame refused because the manager has closed already never
  turns a clean close into a lost session.\<close>

theorem late_writes_do_not_lose_the_session:
  assumes "\<forall>(now, m, input, e)\<in>set turns. m \<noteq> WorkerReturned \<and> e \<in> {Written, AfterClosing} \<and> \<not> read_failed input"
    and "ch_rx_open (wk_queue wk)"
  shows "fst (snd (drive_session w version turns wk)) =
     (if \<exists>(now, m, input, e)\<in>set turns. session_ends input then Some AuthenticatedThenClosed else None)"
  by (rule drive_session_quiet [OF assms])

theorem late_writes_do_not_lose_the_session_witness:
  "fst (snd (drive_session mute_wire ''1.0'' [([], WorkerTook 0, FromManager (Some (InPing [1])), AfterClosing),
      ([], WorkerTook 1, FromManager (Some (InClosed None)), Written)] worker_new)) = Some AuthenticatedThenClosed"
  using late_writes_do_not_lose_the_session [of "[([], WorkerTook 0, FromManager (Some (InPing [1])), AfterClosing),
      ([], WorkerTook 1, FromManager (Some (InClosed None)), Written)]" worker_new mute_wire "''1.0''"]
  by (simp add: worker_new_def chan_new_def)

end
