(* ===== verification/Auth.thy ===== *)
theory Auth
  imports Envelope
begin

section \<open>Authentication replies (src/auth.rs)\<close>

text \<open>
  \<open>AuthOutcome\<close> and \<open>parse_auth_response\<close>, which decides from the manager's first reply whether the
  link is up. The credential file helpers are in \<open>CredentialFile\<close>.
\<close>

datatype auth_outcome = Registered (reg_node_id: string) (reg_node_secret: string) | Authenticated

definition parse_auth_response :: "wire \<Rightarrow> string \<Rightarrow> sdk_error + auth_outcome" where
  "parse_auth_response w txt =
     (case w_of_text w txt of
        Inl e \<Rightarrow> Inl (Json e)
      | Inr v \<Rightarrow>
          let msg_type = (case get_str v ''type'' of Some t \<Rightarrow> t | None \<Rightarrow> []);
              payload = (case jget v ''payload'' of Some p \<Rightarrow> p | None \<Rightarrow> JNull)
          in
          if msg_type = ''register_ack'' then
            bindR (ok_or (Auth MissingNodeId) (get_str payload ''node_id'')) (\<lambda>node_id.
            bindR (ok_or (Auth MissingNodeSecret) (get_str payload ''node_secret'')) (\<lambda>node_secret.
            Inr (Registered node_id node_secret)))
          else if msg_type = ''auth_ok'' then Inr Authenticated
          else if msg_type = ''auth_error'' then
            Inl (Auth (RejectedByManager
              (case get_str payload ''error'' of
                 Some e \<Rightarrow> e
               | None \<Rightarrow>
                   (case get_str payload ''message'' of
                      Some e \<Rightarrow> e
                    | None \<Rightarrow>
                        (case get_str v ''message'' of
                           Some e \<Rightarrow> e
                         | None \<Rightarrow> ''unknown auth error'')))))
          else Inl (Auth (UnexpectedAuthType msg_type)))"

text \<open>Exactly which replies register the gateway, and exactly which let it back in.\<close>

lemma parse_auth_registered_iff:
  "parse_auth_response w txt = Inr (Registered nid sec) \<longleftrightarrow>
     (\<exists>v p. w_of_text w txt = Inr v \<and> jget v ''type'' = Some (JStr ''register_ack'')
        \<and> jget v ''payload'' = Some p
        \<and> jget p ''node_id'' = Some (JStr nid) \<and> jget p ''node_secret'' = Some (JStr sec))"
  (is "?l \<longleftrightarrow> ?r")
proof
  assume ?r
  then show ?l by (auto simp: parse_auth_response_def get_str_def)
next
  assume ?l
  then obtain v where v: "w_of_text w txt = Inr v"
    by (auto simp: parse_auth_response_def split: sum.splits)
  with \<open>?l\<close> have "get_str v ''type'' = Some ''register_ack''"
    by (auto simp: parse_auth_response_def Let_def split: option.splits if_splits)
  with \<open>?l\<close> v show ?r
    by (auto simp: parse_auth_response_def Let_def result_simps str_simps split: option.splits)
qed

lemma parse_auth_authenticated_iff:
  "parse_auth_response w txt = Inr Authenticated \<longleftrightarrow>
     (\<exists>v. w_of_text w txt = Inr v \<and> jget v ''type'' = Some (JStr ''auth_ok''))"
  unfolding get_str_Some_iff [symmetric]
  by (auto simp: parse_auth_response_def Let_def result_simps
      split: sum.splits option.splits if_splits)

subsection \<open>Properties\<close>

text \<open>\<open>parse_auth_response\<close> accepts exactly two replies: a \<open>register_ack\<close> whose payload carries a
  string node id and a string node secret, with those credentials, and an \<open>auth_ok\<close>. Everything else
  (unparsable text, another type, a missing or non-string credential, an \<open>auth_error\<close>) is an error.\<close>

lemma auth_reply_accepted_iff:
  "parse_auth_response w txt = Inr out \<longleftrightarrow>
     (\<exists>v. w_of_text w txt = Inr v \<and>
        (case out of
           Authenticated \<Rightarrow> jget v ''type'' = Some (JStr ''auth_ok'')
         | Registered nid sec \<Rightarrow>
             jget v ''type'' = Some (JStr ''register_ack'')
             \<and> (\<exists>p. jget v ''payload'' = Some p \<and> jget p ''node_id'' = Some (JStr nid)
                    \<and> jget p ''node_secret'' = Some (JStr sec))))"
proof (cases out)
  case (Registered nid sec)
  then show ?thesis using parse_auth_registered_iff [of w "txt" nid sec] by simp
next
  case Authenticated
  then show ?thesis using parse_auth_authenticated_iff [of w "txt"] by simp
qed

end
