(* ===== verification/GwTls.thy ===== *)
theory GwTls
  imports Errors
begin

section \<open>TLS configuration of the manager link (src/tls.rs)\<close>

text \<open>
  Which of the three TLS modes a configuration selects, the normalised form of a pinned fingerprint,
  and what each certificate verifier decides. rustls' own chain validation and handshake-signature
  checks are the record \<open>webpki\<close>, an argument, and so is SHA-256.
\<close>

subsection \<open>Fingerprints\<close>

definition is_hexdigit_u :: "nat \<Rightarrow> bool" where
  "is_hexdigit_u c = (c < 128 \<and> is_hexdigit (char_of c))"

text \<open>Pairs of characters joined by colons: \<open>chunks(2)\<close> of an even-length text.\<close>

fun colon_pairs :: "string \<Rightarrow> string" where
  "colon_pairs (a # b # []) = [a, b]"
| "colon_pairs (a # b # r) = a # b # CHR '':'' # colon_pairs r"
| "colon_pairs s = s"

definition normalise_fingerprint :: "ustring \<Rightarrow> sdk_error + string" where
  "normalise_fingerprint input =
     (let clean = filter (\<lambda>c. c \<noteq> of_char CHR '':'' \<and> \<not> is_ws c) input in
      if utf8_len clean \<noteq> 64 then Inl (Tls (FingerprintLength (utf8_len clean)))
      else if \<not> list_all is_hexdigit_u clean then Inl (Tls FingerprintNonHex)
      else Inr (colon_pairs (map ascii_lower (ascii_of clean))))"

definition fingerprint_hex_colons :: "(bytes \<Rightarrow> bytes) \<Rightarrow> bytes \<Rightarrow> string" where
  "fingerprint_hex_colons sha256 der =
     (case map hex_byte (sha256 der) of
        [] \<Rightarrow> []
      | h # hs \<Rightarrow> h @ concat (map (\<lambda>b. CHR '':'' # b) hs))"

subsection \<open>Choosing the mode\<close>

datatype verifier = WebPkiVerifier | InsecureVerifier | PinnedVerifier string

definition build_standard_config :: "sdk_error + verifier" where
  "build_standard_config = Inr WebPkiVerifier"

definition build_insecure_config :: "env \<Rightarrow> sdk_error + verifier" where
  "build_insecure_config e =
     (if \<not> env_is_1 e ''BILBYCAST_ALLOW_INSECURE'' then Inl (Tls InsecureNotAllowed)
      else Inr InsecureVerifier)"

text \<open>\<open>built\<close> is the result of building rustls' webpki verifier, its error a text.\<close>

definition build_pinned_config :: "string + unit \<Rightarrow> ustring \<Rightarrow> sdk_error + verifier" where
  "build_pinned_config built fingerprint =
     bindR (normalise_fingerprint fingerprint) (\<lambda>fp.
     bindR (map_err (\<lambda>e. Tls (VerifierBuildFailed e)) built) (\<lambda>_.
     Inr (PinnedVerifier fp)))"

definition build_tls_config ::
  "env \<Rightarrow> string + unit \<Rightarrow> bool \<Rightarrow> ustring option \<Rightarrow> sdk_error + verifier" where
  "build_tls_config e built accept_self_signed cert_fingerprint =
     (let fp = (case cert_fingerprint of Some fp \<Rightarrow> utrim fp | None \<Rightarrow> []) in
      if fp \<noteq> [] then build_pinned_config built fp
      else if accept_self_signed then build_insecure_config e
      else build_standard_config)"

subsection \<open>What a verifier decides\<close>

text \<open>
  A server certificate is checked against its name and the time (\<open>'c\<close> stands for the intermediates,
  the name, the OCSP response and the time together); a handshake signature against the transcript.
\<close>

datatype rustls_error = General string string | FromInner string

record ('c, 's) webpki =
  pki_verify_cert :: "bytes \<Rightarrow> 'c \<Rightarrow> string + unit"
  pki_verify_tls12 :: "bytes \<Rightarrow> bytes \<Rightarrow> 's \<Rightarrow> string + unit"
  pki_verify_tls13 :: "bytes \<Rightarrow> bytes \<Rightarrow> 's \<Rightarrow> string + unit"

fun verify_server_cert ::
  "('c, 's) webpki \<Rightarrow> (bytes \<Rightarrow> bytes) \<Rightarrow> verifier \<Rightarrow> bytes \<Rightarrow> 'c \<Rightarrow> rustls_error + unit" where
  "verify_server_cert inner sha256 WebPkiVerifier end_entity ctxt =
     map_err FromInner (pki_verify_cert inner end_entity ctxt)"
| "verify_server_cert inner sha256 InsecureVerifier end_entity ctxt = Inr ()"
| "verify_server_cert inner sha256 (PinnedVerifier expected) end_entity ctxt =
     bindR (map_err FromInner (pki_verify_cert inner end_entity ctxt)) (\<lambda>_.
       let fp = fingerprint_hex_colons sha256 end_entity in
       if fp = expected then Inr () else Inl (General expected fp))"

fun verify_tls12_signature ::
  "('c, 's) webpki \<Rightarrow> verifier \<Rightarrow> bytes \<Rightarrow> bytes \<Rightarrow> 's \<Rightarrow> rustls_error + unit" where
  "verify_tls12_signature inner InsecureVerifier message cert dss = Inr ()"
| "verify_tls12_signature inner v message cert dss =
     map_err FromInner (pki_verify_tls12 inner message cert dss)"

fun verify_tls13_signature ::
  "('c, 's) webpki \<Rightarrow> verifier \<Rightarrow> bytes \<Rightarrow> bytes \<Rightarrow> 's \<Rightarrow> rustls_error + unit" where
  "verify_tls13_signature inner InsecureVerifier message cert dss = Inr ()"
| "verify_tls13_signature inner v message cert dss =
     map_err FromInner (pki_verify_tls13 inner message cert dss)"

text \<open>The signature schemes a verifier offers: the permissive one a list of its own, the others webpki's
  (\<open>inner\<close>, which may have schemes the code never names).\<close>

datatype signature_scheme =
    RSA_PKCS1_SHA256 | RSA_PKCS1_SHA384 | RSA_PKCS1_SHA512
  | ECDSA_NISTP256_SHA256 | ECDSA_NISTP384_SHA384 | ECDSA_NISTP521_SHA512
  | RSA_PSS_SHA256 | RSA_PSS_SHA384 | RSA_PSS_SHA512
  | ED25519
  | OtherScheme u16

definition all_schemes :: "signature_scheme list" where
  "all_schemes = [RSA_PKCS1_SHA256, RSA_PKCS1_SHA384, RSA_PKCS1_SHA512, ECDSA_NISTP256_SHA256,
     ECDSA_NISTP384_SHA384, ECDSA_NISTP521_SHA512, RSA_PSS_SHA256, RSA_PSS_SHA384, RSA_PSS_SHA512, ED25519]"

fun supported_verify_schemes :: "signature_scheme list \<Rightarrow> verifier \<Rightarrow> signature_scheme list" where
  "supported_verify_schemes inner InsecureVerifier = all_schemes"
| "supported_verify_schemes inner v = inner"

subsection \<open>Fingerprint lemmas\<close>

lemma colon_pairs_inj:
  "even (length a) \<Longrightarrow> length a = length b \<Longrightarrow> colon_pairs a = colon_pairs b \<longleftrightarrow> a = b"
proof (induction a arbitrary: b rule: colon_pairs.induct)
  case (1 x y)
  then have "length b = Suc (Suc 0)" by simp
  then obtain p q where "b = [p, q]" by (auto simp: length_Suc_conv)
  then show ?case by simp
next
  case (2 x y v r)
  then have "length b = Suc (Suc (Suc (length r)))" by simp
  then obtain p q u r' where b: "b = p # q # u # r'" by (auto simp: length_Suc_conv)
  from 2 b show ?case by auto
qed auto

lemma fingerprint_as_pairs: "fingerprint_hex_colons sha256 der = colon_pairs (hex_of (sha256 der))"
proof -
  have "(case map hex_byte bs of [] \<Rightarrow> [] | h # hs \<Rightarrow> h @ concat (map (\<lambda>b. CHR '':'' # b) hs))
        = colon_pairs (hex_of bs)" for bs
  proof (induction bs)
    case Nil
    then show ?case by simp
  next
    case (Cons b bs)
    show ?case
    proof (cases bs)
      case Nil
      then show ?thesis by (simp add: hex_byte_def)
    next
      case (Cons c cs)
      have nz: "hex_of bs = (hex_byte c ! 0) # (hex_byte c ! 1) # hex_of cs"
        using Cons by (simp add: hex_byte_def)
      have "colon_pairs (hex_of (b # bs)) = hex_byte b @ CHR '':'' # colon_pairs (hex_of bs)"
        by (simp add: nz hex_byte_def)
      with Cons.IH Cons show ?thesis by simp
    qed
  qed
  then show ?thesis by (simp add: fingerprint_hex_colons_def)
qed

text \<open>The characters of a fingerprint that survive normalisation.\<close>

definition fp_clean :: "ustring \<Rightarrow> ustring" where
  "fp_clean input = filter (\<lambda>c. c \<noteq> of_char CHR '':'' \<and> \<not> is_ws c) input"

definition fp_hex :: "ustring \<Rightarrow> string" where
  "fp_hex input = map ascii_lower (ascii_of (fp_clean input))"

lemma normalise_ok_iff:
  "normalise_fingerprint input = Inr fp \<longleftrightarrow>
     length (fp_clean input) = 64 \<and> list_all is_hexdigit_u (fp_clean input)
     \<and> fp = colon_pairs (fp_hex input)"
proof -
  have "utf8_len (fp_clean input) = length (fp_clean input)"
    if "list_all is_hexdigit_u (fp_clean input)"
    using that by (intro utf8_len_ascii) (auto simp: list_all_iff is_hexdigit_u_def)
  then show ?thesis
    unfolding normalise_fingerprint_def fp_clean_def [symmetric] fp_hex_def Let_def by auto
qed

lemma pinned_matches_iff:
  assumes "normalise_fingerprint input = Inr fp" and "length (sha256 der) = 32"
  shows "fingerprint_hex_colons sha256 der = fp \<longleftrightarrow> hex_of (sha256 der) = fp_hex input"
proof -
  have "length (hex_of (sha256 der)) = length (fp_hex input)" "even (length (hex_of (sha256 der)))"
    using assms by (simp_all add: normalise_ok_iff fp_hex_def ascii_of_def)
  then show ?thesis
    using assms(1) by (simp add: fingerprint_as_pairs normalise_ok_iff colon_pairs_inj)
qed

lemma dropWhile_ws_clean: "fp_clean (dropWhile is_ws s) = fp_clean s"
  by (induction s) (auto simp: fp_clean_def)

lemma fp_clean_utrim [simp]: "fp_clean (utrim s) = fp_clean s"
proof -
  have rev: "fp_clean (rev s) = rev (fp_clean s)" for s by (simp add: fp_clean_def rev_filter)
  show ?thesis by (simp add: utrim_def rev dropWhile_ws_clean)
qed

text \<open>A repeated pair of digits, the fingerprint of the witnesses.\<close>

lemma fp_repeated:
  "fp_clean (concat (replicate n (ustr ''AB:''))) = concat (replicate n (ustr ''AB''))"
  "hex_of (replicate n 0xAB) = concat (replicate n ''ab'')"
  "map ascii_lower (ascii_of (concat (replicate n (ustr ''AB'')))) = concat (replicate n ''ab'')"
  "list_all is_hexdigit_u (concat (replicate n (ustr ''AB'')))"
  "length (concat (replicate n (ustr ''AB''))) = 2 * n"
proof -
  have "fp_clean (ustr ''AB:'' @ s) = ustr ''AB'' @ fp_clean s" for s
    by (simp add: fp_clean_def ustr_def is_ws_def)
  moreover have "hex_byte 0xAB = ''ab''" by code_simp
  moreover have "map ascii_lower (ascii_of (ustr ''AB'')) = ''ab''" by code_simp
  moreover have "list_all is_hexdigit_u (ustr ''AB'')" by code_simp
  moreover have "length (ustr ''AB'') = 2" by (simp add: ustr_def)
  moreover have "map ascii_lower (ascii_of (a @ b)) = map ascii_lower (ascii_of a) @ map ascii_lower (ascii_of b)"
    for a b by (simp add: ascii_of_def)
  ultimately show
    "fp_clean (concat (replicate n (ustr ''AB:''))) = concat (replicate n (ustr ''AB''))"
    "hex_of (replicate n 0xAB) = concat (replicate n ''ab'')"
    "map ascii_lower (ascii_of (concat (replicate n (ustr ''AB'')))) = concat (replicate n ''ab'')"
    "list_all is_hexdigit_u (concat (replicate n (ustr ''AB'')))"
    "length (concat (replicate n (ustr ''AB''))) = 2 * n"
    by (induction n) (simp_all add: fp_clean_def ascii_of_def)
qed

subsection \<open>Properties\<close>

definition fp_blank :: "ustring option \<Rightarrow> bool" where
  "fp_blank fp = (case fp of Some f \<Rightarrow> utrim f = [] | None \<Rightarrow> True)"

text \<open>Which verifier a configuration gets. A non-blank fingerprint always selects pinning (or an
  error), whatever the self-signed flag; checks are switched off only with the flag and the environment
  variable and no fingerprint; a blank fingerprint counts as none.\<close>

lemma tls_mode_table:
  "(build_tls_config e built self fp = Inr InsecureVerifier \<longleftrightarrow>
      fp_blank fp \<and> self \<and> e ''BILBYCAST_ALLOW_INSECURE'' = Some ''1'')
   \<and> (build_tls_config e built self fp = Inr WebPkiVerifier \<longleftrightarrow> fp_blank fp \<and> \<not> self)
   \<and> (build_tls_config e built self fp = Inr (PinnedVerifier p) \<longleftrightarrow>
        (\<exists>f. fp = Some f \<and> utrim f \<noteq> [] \<and> normalise_fingerprint (utrim f) = Inr p
           \<and> built = Inr ()))"
  unfolding fp_blank_def build_tls_config_def build_pinned_config_def build_insecure_config_def
    build_standard_config_def Let_def
  by (auto simp: result_simps str_simps split: option.splits)

text \<open>C28: a pinned configuration accepts a server certificate exactly when rustls' own chain validation
  accepts it and the SHA-256 of the certificate is the configured fingerprint, compared as hexadecimal
  with colons, spaces and case ignored; the self-signed flag does not weaken it.\<close>

theorem pinned_accepts_iff:
  assumes "build_tls_config e (Inr ()) self (Some f) = Inr v" and "utrim f \<noteq> []"
    and "length (sha256 der) = 32"
  shows "verify_server_cert inner sha256 v der ctxt = Inr () \<longleftrightarrow>
     pki_verify_cert inner der ctxt = Inr () \<and> hex_of (sha256 der) = fp_hex f"
proof -
  obtain p where p: "normalise_fingerprint (utrim f) = Inr p" and v: "v = PinnedVerifier p"
    using assms(1,2) by (auto simp: build_tls_config_def build_pinned_config_def Let_def result_simps)
  have "fp_hex (utrim f) = fp_hex f" by (simp add: fp_hex_def)
  with pinned_matches_iff [OF p, of sha256 der] assms(3) show ?thesis
    by (auto simp: v result_simps Let_def)
qed

theorem pinned_accepts_iff_witness:
  "let f = concat (replicate 32 (ustr ''AB:'')); cert = replicate 32 0xAB in
   (\<exists>v. build_tls_config Map.empty (Inr ()) True (Some f) = Inr v
      \<and> (\<lambda>inner :: (unit, unit) webpki. verify_server_cert inner id v cert () = Inr ())
        = (\<lambda>inner. pki_verify_cert inner cert () = Inr ()))"
proof -
  define f where "f = concat (replicate 32 (ustr ''AB:''))"
  define cert :: bytes where "cert = replicate 32 0xAB"
  have hex: "hex_of (id cert) = fp_hex f"
    by (simp add: cert_def f_def fp_hex_def fp_repeated)
  have "fp_clean f \<noteq> []"
    using fp_repeated(1) [of 32] fp_repeated(5) [of 32] unfolding f_def by (metis list.size(3) mult_eq_0_iff zero_neq_numeral)
  then have ne: "utrim f \<noteq> []" using fp_clean_utrim [of f] by (metis filter.simps(1) fp_clean_def)
  have "\<exists>p. normalise_fingerprint (utrim f) = Inr p"
    using fp_repeated [of 32] by (simp add: normalise_ok_iff f_def)
  then obtain v where v: "build_tls_config Map.empty (Inr ()) True (Some f) = Inr v"
    using ne by (auto simp: build_tls_config_def build_pinned_config_def)
  have "length (id cert) = 32" by (simp add: cert_def)
  from pinned_accepts_iff [OF v ne, of id cert] this v hex show ?thesis
    unfolding f_def [symmetric] cert_def [symmetric] Let_def by (intro exI [of _ v] conjI ext) simp_all
qed

end
