(* ===== verification/Dial.thy ===== *)
theory Dial
  imports Errors StepSystem "HOL-Library.Multiset"
begin

section \<open>Dialling the manager (dial_manager, manager_host_port, interleave_families and connect_staggered in src/ws_client.rs)\<close>

text \<open>
  The address order, the Happy-Eyeballs race over it, and the staged dial. The race is a state machine
  whose events are what the loop's \<open>select!\<close> can see: an attempt that finishes, or the stagger that
  runs out. DNS, TCP and the TLS upgrade are outside the repository: their outcomes are arguments.
\<close>

datatype socket_addr = V4 u32 u16 | V6 "128 word" u16

fun is_ipv6 :: "socket_addr \<Rightarrow> bool" where
  "is_ipv6 (V6 _ _) = True"
| "is_ipv6 (V4 _ _) = False"

definition dial_timeout :: duration where "dial_timeout = secs 30"
definition connect_attempt_delay :: duration where "connect_attempt_delay = millis 250"

subsection \<open>Order of addresses\<close>

fun alternate :: "'a list \<Rightarrow> 'a list \<Rightarrow> 'a list" where
  "alternate [] [] = []"
| "alternate (a # as) [] = a # alternate as []"
| "alternate [] (b # bs) = b # alternate [] bs"
| "alternate (a # as) (b # bs) = a # b # alternate as bs"

definition interleave_families :: "socket_addr list \<Rightarrow> socket_addr list" where
  "interleave_families addrs =
     (case addrs of
        [] \<Rightarrow> []
      | first # _ \<Rightarrow>
          let lead_is_v6 = is_ipv6 first;
              (lead, other) = partition (\<lambda>a. is_ipv6 a = lead_is_v6) addrs
          in alternate lead other)"

text \<open>\<open>manager_host_port\<close>\<close>

definition manager_host_port :: "url_parser \<Rightarrow> string \<Rightarrow> sdk_error + string \<times> u16" where
  "manager_host_port parse url =
     bindR (map_err sdk_from_url_parse (parse url)) (\<lambda>parsed.
     bindR (case url_host_of parsed of
              Some (Domain domain) \<Rightarrow> Inr domain
            | Some (Ipv4 ip) \<Rightarrow> Inr ip
            | Some (Ipv6 ip) \<Rightarrow> Inr ip
            | None \<Rightarrow> Inl (Config (UrlNoHost url))) (\<lambda>host.
     bindR (ok_or (Config (UrlNoPort url)) (url_port_or_known_default parsed)) (\<lambda>port.
     Inr (host, port))))"

subsection \<open>The race\<close>

text \<open>
  The loop's variables, with the attempts of \<open>FuturesUnordered\<close> identified by their start numbers
  (they are the entries of \<open>in_flight\<close>), and the time since the first attempt.
\<close>

record 'e race =
  r_waiting :: "socket_addr list"
  r_in_flight :: "(nat \<times> socket_addr) list"
  r_started :: nat
  r_last_err :: "'e option"
  r_elapsed :: duration

datatype ('s, 'e) raced =
    Racing "'e race"
  | Connected 's socket_addr "socket_addr list"
  | AllFailed "'e option"

text \<open>The head of a pass: start the next address, and give up when nothing is left running.\<close>

definition begin_pass :: "'e race \<Rightarrow> ('s, 'e) raced" where
  "begin_pass r =
     (let r' = (case r_waiting r of
           addr # rest \<Rightarrow> r\<lparr>r_waiting := rest, r_in_flight := r_in_flight r @ [(r_started r, addr)],
                           r_started := Suc (r_started r)\<rparr>
         | [] \<Rightarrow> r)
      in if r_in_flight r' = [] then AllFailed (r_last_err r') else Racing r')"

definition race_start :: "socket_addr list \<Rightarrow> ('s, 'e) raced" where
  "race_start addrs =
     begin_pass \<lparr>r_waiting = addrs, r_in_flight = [], r_started = 0, r_last_err = None, r_elapsed = 0\<rparr>"

text \<open>
  What the \<open>select!\<close> does with each event. \<open>Finished t seq result\<close>: attempt \<open>seq\<close> finished \<open>t\<close> after
  the pass began; \<open>Stagger\<close>: the delay ran out first, an event only while addresses are waiting.
\<close>

datatype ('s, 'e) race_event = Finished duration nat "'e + 's" | Stagger

fun race_enabled :: "'e race \<Rightarrow> ('s, 'e) race_event \<Rightarrow> bool" where
  "race_enabled r (Finished t seq _) =
     (seq \<in> fst ` set (r_in_flight r) \<and> (r_waiting r \<noteq> [] \<longrightarrow> t \<le> connect_attempt_delay))"
| "race_enabled r Stagger = (r_waiting r \<noteq> [])"

fun on_race_event :: "'e race \<Rightarrow> ('s, 'e) race_event \<Rightarrow> ('s, 'e) raced" where
  "on_race_event r (Finished t seq result) =
     (let in_flight = filter (\<lambda>(s, _). s \<noteq> seq) (r_in_flight r);
          addr = the (map_of (r_in_flight r) seq)
      in case result of
           Inr stream \<Rightarrow> Connected stream addr (map snd (filter (\<lambda>(s, _). s < seq) in_flight))
         | Inl e \<Rightarrow> begin_pass (r\<lparr>r_in_flight := in_flight, r_last_err := Some e,
                                  r_elapsed := r_elapsed r + t\<rparr>))"
| "on_race_event r Stagger = begin_pass (r\<lparr>r_elapsed := r_elapsed r + connect_attempt_delay\<rparr>)"

fun race_init :: "socket_addr list \<Rightarrow> ('s, 'e) raced \<Rightarrow> bool" where
  "race_init addrs x = (x = race_start addrs)"

inductive race_step :: "('s, 'e) raced \<Rightarrow> ('s, 'e) raced \<Rightarrow> bool" where
  race_move: "race_enabled r ev \<Longrightarrow> race_step (Racing r) (on_race_event r ev)"

inductive_cases race_stepE: "race_step x y"

text \<open>\<open>unwrap_or_else\<close>: the race over no addresses reports that the name resolved to none.\<close>

definition connect_result :: "'e \<Rightarrow> ('s, 'e) raced \<Rightarrow> ('e + 's \<times> socket_addr \<times> socket_addr list) option" where
  "connect_result no_addresses x =
     (case x of
        Racing _ \<Rightarrow> None
      | Connected s a ab \<Rightarrow> Some (Inr (s, a, ab))
      | AllFailed e \<Rightarrow> Some (Inl (case e of Some e' \<Rightarrow> e' | None \<Rightarrow> no_addresses)))"

subsection \<open>The staged dial\<close>

text \<open>
  What each stage comes back with before the shared deadline; \<open>None\<close> is \<open>timeout_at\<close> giving up.
  Every stage runs against the same deadline, 30 s after the dial began.
\<close>

record ('tcp, 'ws) dial_world =
  dw_lookup :: "string \<Rightarrow> u16 \<Rightarrow> (string + socket_addr list) option"
  dw_connect :: "socket_addr list \<Rightarrow> (string + 'tcp) option"
  dw_upgrade :: "string \<Rightarrow> 'tcp \<Rightarrow> (string + 'ws) option"

definition dial_manager ::
  "url_parser \<Rightarrow> ('tcp, 'ws) dial_world \<Rightarrow> string \<Rightarrow> sdk_error + 'ws" where
  "dial_manager parse w url =
     bindR (manager_host_port parse url) (\<lambda>(host, port).
     bindR (case dw_lookup w host port of
              Some (Inr addrs) \<Rightarrow> Inr addrs
            | Some (Inl e) \<Rightarrow> Inl (WebSocket (DnsFailed host e))
            | None \<Rightarrow> Inl (WebSocket (DnsTimedOut host (as_secs dial_timeout)))) (\<lambda>addrs.
     let count = length addrs in
     bindR (case dw_connect w (interleave_families addrs) of
              Some (Inr tcp) \<Rightarrow> Inr tcp
            | Some (Inl e) \<Rightarrow> Inl (WebSocket (TcpFailed host count e))
            | None \<Rightarrow> Inl (WebSocket (TcpTimedOut host))) (\<lambda>tcp.
     case dw_upgrade w url tcp of
       Some (Inr ws) \<Rightarrow> Inr ws
     | Some (Inl e) \<Rightarrow> Inl (WebSocket (UpgradeFailed host e))
     | None \<Rightarrow> Inl (WebSocket (UpgradeTimedOut host (as_secs dial_timeout))))))"

subsection \<open>Lemmas on the order\<close>

lemma mset_alternate: "mset (alternate as bs) = mset as + mset bs"
  by (induction as bs rule: alternate.induct) auto

lemma mset_interleave: "mset (interleave_families addrs) = mset addrs"
  by (cases addrs) (auto simp: interleave_families_def mset_alternate Let_def simp flip: mset_append
      intro!: multiset_partition [symmetric])

subsection \<open>Invariant of the race\<close>

text \<open>
  What holds of the loop's variables around a pass: the started addresses are a prefix of the order,
  each attempt in flight is one of them, an error is kept as soon as one attempt has failed, and no
  address is still waiting once its turn (its position times the stagger) has passed.
\<close>

definition race_core :: "socket_addr list \<Rightarrow> nat \<Rightarrow> 'e race \<Rightarrow> bool" where
  "race_core addrs turns r =
     (r_waiting r = drop (r_started r) addrs \<and> r_started r \<le> length addrs
      \<and> sorted_wrt (<) (map fst (r_in_flight r))
      \<and> (\<forall>(s, a)\<in>set (r_in_flight r). s < r_started r \<and> a = addrs ! s)
      \<and> (r_last_err r = None \<longleftrightarrow> length (r_in_flight r) = r_started r)
      \<and> length (r_in_flight r) \<le> r_started r
      \<and> (r_waiting r \<noteq> [] \<longrightarrow> r_elapsed r \<le> turns * connect_attempt_delay))"

definition race_inv :: "socket_addr list \<Rightarrow> ('s, 'e) raced \<Rightarrow> bool" where
  "race_inv addrs x =
     (case x of
        Racing r \<Rightarrow> race_core addrs (r_started r - 1) r \<and> r_in_flight r \<noteq> []
      | Connected s a abandoned \<Rightarrow>
          (\<exists>i seqs. i < length addrs \<and> a = addrs ! i \<and> sorted_wrt (<) seqs
             \<and> (\<forall>k\<in>set seqs. k < i) \<and> abandoned = map (\<lambda>k. addrs ! k) seqs)
      | AllFailed e \<Rightarrow> (e = None \<longleftrightarrow> addrs = []))"

definition race_size :: "('s, 'e) raced \<Rightarrow> nat" where
  "race_size x = (case x of
       Racing r \<Rightarrow> 2 * length (r_waiting r) + length (r_in_flight r)
     | _ \<Rightarrow> 0)"

lemma begin_pass_inv:
  assumes "race_core addrs n r" and "n = r_started r"
  shows "race_inv addrs (begin_pass r :: ('s, 'e) raced)"
proof (cases "r_waiting r")
  case Nil
  then show ?thesis
    using assms by (auto simp: begin_pass_def race_inv_def race_core_def)
next
  case (Cons a rest)
  with assms have wd: "drop (r_started r) addrs = a # rest" by (simp add: race_core_def)
  then have lt: "r_started r < length addrs" by (metis drop_all leI list.distinct(1))
  have a: "a = addrs ! r_started r" using wd by (rule nth_via_drop [symmetric])
  have rest: "rest = drop (Suc (r_started r)) addrs" using wd by (metis drop_Suc list.sel(3) tl_drop)
  have bp: "(begin_pass r :: ('s, 'e) raced) =
      Racing (r\<lparr>r_waiting := rest, r_in_flight := r_in_flight r @ [(r_started r, a)],
                r_started := Suc (r_started r)\<rparr>)"
    by (simp add: begin_pass_def Cons Let_def)
  have "sorted_wrt (<) (map fst (r_in_flight r) @ [r_started r])"
    using assms by (auto simp: race_core_def sorted_wrt_append)
  then show ?thesis
    unfolding bp using assms Cons lt a rest by (auto simp: race_inv_def race_core_def)
qed

lemma race_inv_start: "race_inv addrs (race_start addrs :: ('s, 'e) raced)"
  unfolding race_start_def by (rule begin_pass_inv [where n = 0]) (simp_all add: race_core_def)

lemma in_flight_lookup:
  assumes "race_core addrs n r" and "seq \<in> fst ` set (r_in_flight r)"
  shows "map_of (r_in_flight r) seq = Some (addrs ! seq)" and "seq < r_started r"
proof -
  have "distinct (map fst (r_in_flight r))"
    using assms(1) by (auto simp: race_core_def strict_sorted_iff)
  moreover obtain a where "(seq, a) \<in> set (r_in_flight r)" using assms(2) by auto
  moreover from this have "a = addrs ! seq" "seq < r_started r"
    using assms(1) by (auto simp: race_core_def)
  ultimately show "map_of (r_in_flight r) seq = Some (addrs ! seq)" "seq < r_started r" by auto
qed

lemma filter_other_length:
  "sorted_wrt (<) (map fst xs) \<Longrightarrow> seq \<in> fst ` set xs \<Longrightarrow>
     length (filter (\<lambda>(s, _). s \<noteq> (seq :: nat)) xs) = length xs - 1"
proof (induction xs)
  case (Cons x xs)
  show ?case
  proof (cases "fst x = seq")
    case True
    with Cons.prems have "filter (\<lambda>(s, _). s \<noteq> seq) xs = xs"
      by (auto simp: filter_id_conv)
    with True show ?thesis by (auto split: prod.splits)
  next
    case False
    with Cons.prems have "seq \<in> fst ` set xs" by auto
    moreover from this have "xs \<noteq> []" by auto
    ultimately show ?thesis using Cons False by (auto split: prod.splits)
  qed
qed simp

lemma sorted_filter_fst:
  "sorted_wrt (<) (map fst xs) \<Longrightarrow> sorted_wrt (<) (map fst (filter P xs))"
  by (induction xs) auto

lemma failed_core:
  assumes "race_core addrs (r_started r - 1) r" and "race_enabled r (Finished t seq (Inl e :: 'e + 's))"
  shows "race_core addrs (r_started r)
     (r\<lparr>r_in_flight := filter (\<lambda>(s, _). s \<noteq> seq) (r_in_flight r), r_last_err := Some e,
        r_elapsed := r_elapsed r + t\<rparr>)"
proof -
  have srt: "sorted_wrt (<) (map fst (r_in_flight r))" and seq: "seq \<in> fst ` set (r_in_flight r)"
    using assms by (auto simp: race_core_def)
  have len: "length (filter (\<lambda>(s, _). s \<noteq> seq) (r_in_flight r)) = length (r_in_flight r) - 1"
    by (rule filter_other_length [OF srt seq])
  have pos: "0 < length (r_in_flight r)" "length (r_in_flight r) \<le> r_started r"
    using seq assms(1) by (auto simp: race_core_def)
  have time: "r_elapsed r + t \<le> r_started r * connect_attempt_delay" if "r_waiting r \<noteq> []"
  proof -
    have "r_elapsed r + t \<le> (r_started r - 1) * connect_attempt_delay + connect_attempt_delay"
      using that assms by (auto simp: race_core_def intro!: add_mono)
    also have "\<dots> = r_started r * connect_attempt_delay" using pos by (cases "r_started r") auto
    finally show ?thesis .
  qed
  have "length (filter (\<lambda>(s, _). s \<noteq> seq) (r_in_flight r)) < r_started r" using len pos by linarith
  then show ?thesis
    using assms(1) time sorted_filter_fst [OF srt] by (auto simp: race_core_def)
qed

lemma stagger_core:
  assumes "race_core addrs (r_started r - 1) r" and "r_in_flight r \<noteq> []"
  shows "race_core addrs (r_started r) (r\<lparr>r_elapsed := r_elapsed r + connect_attempt_delay\<rparr>)"
proof -
  have "0 < r_started r" using assms by (cases "r_in_flight r") (auto simp: race_core_def)
  then show ?thesis using assms(1) by (cases "r_started r") (auto simp: race_core_def)
qed

lemma race_coreD:
  assumes "race_core addrs n r"
  shows "sorted_wrt (<) (map fst (r_in_flight r))" and "r_started r \<le> length addrs"
    and "(k, a) \<in> set (r_in_flight r) \<Longrightarrow> a = addrs ! k"
  using assms unfolding race_core_def by blast+

lemma connected_inv:
  fixes st :: 's
  assumes "race_core addrs n (r :: 'e race)" and "seq \<in> fst ` set (r_in_flight r)"
  shows "race_inv addrs (on_race_event r (Finished t seq (Inr st)))"
proof -
  let ?f = "filter (\<lambda>(k, _). k < seq) (filter (\<lambda>(k, _). k \<noteq> seq) (r_in_flight r))"
  have m: "map_of (r_in_flight r) seq = Some (addrs ! seq)" and lt: "seq < r_started r"
    using in_flight_lookup [OF assms] by simp_all
  have "map snd ?f = map ((\<lambda>k. addrs ! k) \<circ> fst) ?f"
    by (rule map_cong [OF refl]) (use race_coreD(3) [OF assms(1)] in force)
  then have "map snd ?f = map (\<lambda>k. addrs ! k) (map fst ?f)" by (simp only: map_map)
  moreover have "sorted_wrt (<) (map fst ?f)"
    by (intro sorted_filter_fst race_coreD(1) [OF assms(1)])
  moreover have "\<forall>k\<in>set (map fst ?f). k < seq" by (simp add: split_beta)
  moreover have "seq < length addrs" using lt race_coreD(2) [OF assms(1)] by (rule less_le_trans)
  ultimately have
    "\<exists>i seqs. i < length addrs \<and> addrs ! seq = addrs ! i \<and> sorted_wrt (<) seqs
       \<and> (\<forall>k\<in>set seqs. k < i) \<and> map snd ?f = map (\<lambda>k. addrs ! k) seqs"
    by (intro exI [of _ seq] exI [of _ "map fst ?f"] conjI) (rule refl | assumption)+
  moreover have "on_race_event r (Finished t seq (Inr st)) = Connected st (addrs ! seq) (map snd ?f)"
    by (simp only: on_race_event.simps Let_def m sum.case option.sel)
  ultimately show ?thesis by (simp only: race_inv_def raced.case)
qed

lemma race_inv_step:
  fixes x y :: "('s, 'e) raced"
  assumes "race_inv addrs x" and "race_step x y"
  shows "race_inv addrs y"
proof -
  obtain r ev where x: "x = Racing r" and y: "y = on_race_event r ev" and en: "race_enabled r ev"
    using assms(2) by (rule race_stepE)
  have core: "race_core addrs (r_started r - 1) r" "r_in_flight r \<noteq> []"
    using assms(1) x by (simp_all add: race_inv_def)
  show ?thesis
  proof (cases ev)
    case Stagger
    have "race_inv addrs (begin_pass (r\<lparr>r_elapsed := r_elapsed r + connect_attempt_delay\<rparr>) :: ('s, 'e) raced)"
      by (rule begin_pass_inv [OF stagger_core [OF core]]) simp
    then show ?thesis by (simp only: y Stagger on_race_event.simps)
  next
    case (Finished t seq res)
    show ?thesis
    proof (cases res)
      case (Inl e)
      then have en': "race_enabled r (Finished t seq (Inl e) :: ('s, 'e) race_event)"
        using en Finished by simp
      have "race_inv addrs (begin_pass (r\<lparr>r_in_flight := filter (\<lambda>(s, _). s \<noteq> seq) (r_in_flight r),
              r_last_err := Some e, r_elapsed := r_elapsed r + t\<rparr>) :: ('s, 'e) raced)"
        by (rule begin_pass_inv [OF failed_core [OF core(1) en']]) simp
      then show ?thesis by (simp only: y Finished Inl on_race_event.simps Let_def sum.case)
    next
      case (Inr s)
      have "seq \<in> fst ` set (r_in_flight r)" using en Finished by simp
      then show ?thesis unfolding y Finished Inr by (rule connected_inv [OF core(1)])
    qed
  qed
qed

lemma race_size_begin:
  "race_size (begin_pass r :: ('s, 'e) raced) \<le> 2 * length (r_waiting r) + length (r_in_flight r)
     \<and> (r_waiting r \<noteq> [] \<longrightarrow>
          race_size (begin_pass r :: ('s, 'e) raced) < 2 * length (r_waiting r) + length (r_in_flight r))"
  by (auto simp: begin_pass_def race_size_def Let_def split: list.splits)

lemma race_size_step:
  fixes x y :: "('s, 'e) raced"
  assumes "race_inv addrs x" and "race_step x y"
  shows "race_size y < race_size x"
proof -
  obtain r ev where x: "x = Racing r" and y: "y = on_race_event r ev" and en: "race_enabled r ev"
    using assms(2) by (auto elim: race_stepE)
  have srt: "sorted_wrt (<) (map fst (r_in_flight r))" and ne: "r_in_flight r \<noteq> []"
    using assms(1) x by (auto simp: race_inv_def race_core_def)
  show ?thesis
  proof (cases ev)
    case Stagger
    then show ?thesis
      using x y en race_size_begin [where 's = 's and r = "r\<lparr>r_elapsed := r_elapsed r + connect_attempt_delay\<rparr>"]
      by (simp add: race_size_def)
  next
    case (Finished t seq res)
    have len: "length (filter (\<lambda>(s, _). s \<noteq> seq) (r_in_flight r)) < length (r_in_flight r)"
      using filter_other_length [OF srt] en Finished ne by simp
    show ?thesis
    proof (cases res)
      case (Inl e)
      let ?r = "r\<lparr>r_in_flight := filter (\<lambda>(s, _). s \<noteq> seq) (r_in_flight r), r_last_err := Some e,
                  r_elapsed := r_elapsed r + t\<rparr>"
      have "race_size y \<le> 2 * length (r_waiting r) + length (r_in_flight ?r)"
        using y Finished Inl race_size_begin [where 's = 's and r = ?r] by simp
      then show ?thesis using x len by (simp add: race_size_def)
    next
      case (Inr s)
      then show ?thesis using x y Finished ne by (simp add: race_size_def Let_def)
    qed
  qed
qed

interpretation race: decreasing_steps
  "race_init addrs" race_step "race_inv addrs" race_size for addrs
  by unfold_locales (auto intro: race_inv_start race_inv_step race_size_step)

lemma filter_alternate:
  "list_all P as \<Longrightarrow> list_all (\<lambda>x. \<not> P x) bs \<Longrightarrow>
     filter P (alternate as bs) = as \<and> filter (\<lambda>x. \<not> P x) (alternate as bs) = bs"
  by (induction as bs rule: alternate.induct) auto

lemma take_alternate:
  "list_all P as \<Longrightarrow> list_all (\<lambda>x. \<not> P x) bs \<Longrightarrow>
     map P (take (2 * min (length as) (length bs)) (alternate as bs)) =
       concat (replicate (min (length as) (length bs)) [True, False])"
  by (induction as bs rule: alternate.induct) auto

lemma hd_alternate: "as \<noteq> [] \<Longrightarrow> alternate as bs \<noteq> [] \<and> hd (alternate as bs) = hd as"
  by (cases as; cases bs) auto

lemma interleave_Cons:
  "interleave_families (a # as) =
     alternate (filter (\<lambda>x. is_ipv6 x = is_ipv6 a) (a # as)) (filter (\<lambda>x. is_ipv6 x \<noteq> is_ipv6 a) (a # as))"
  by (simp add: interleave_families_def o_def Let_def)

lemma race_failed_count:
  fixes x :: "('s, 'e) raced"
  shows "(race_step ^^ n) (race_start addrs) x \<Longrightarrow>
     (case x of
        Racing r \<Rightarrow> r_started r \<le> n + length (r_in_flight r)
      | AllFailed _ \<Rightarrow> length addrs \<le> n
      | Connected _ _ _ \<Rightarrow> True)"
proof (induction n arbitrary: x)
  case 0
  then show ?case by (cases addrs) (auto simp: race_start_def begin_pass_def Let_def)
next
  case (Suc n)
  then obtain y where y: "(race_step ^^ n) (race_start addrs) y" "race_step y x" by auto
  then obtain r ev where r: "y = Racing r" "x = on_race_event r ev" "race_enabled r ev"
    by (auto elim: race_stepE)
  have inv: "race_inv addrs y"
    using y(1) race.steps_inv race_inv_start relpowp_imp_rtranclp by metis
  then have core: "race_core addrs (r_started r - 1) r" by (simp add: race_inv_def r(1))
  have cnt: "r_started r \<le> n + length (r_in_flight r)" using Suc.IH [OF y(1)] r(1) by simp
  have pass: "case (begin_pass q :: ('s, 'e) raced) of Racing r' \<Rightarrow> r_started r' \<le> Suc n + length (r_in_flight r')
      | AllFailed _ \<Rightarrow> length addrs \<le> Suc n | Connected _ _ _ \<Rightarrow> True"
    if "r_started q \<le> Suc n + length (r_in_flight q)" "r_waiting q = drop (r_started q) addrs"
    for q :: "'e race"
  proof (cases "r_waiting q")
    case Nil
    then have "length addrs \<le> r_started q" using that(2) by simp
    then show ?thesis using that(1) Nil by (auto simp: begin_pass_def)
  next
    case (Cons a as)
    then show ?thesis using that(1) by (simp add: begin_pass_def)
  qed
  have wt: "r_waiting r = drop (r_started r) addrs" using core by (simp add: race_core_def)
  show ?case
  proof (cases ev)
    case Stagger
    then show ?thesis using pass cnt wt r(2) by simp
  next
    case (Finished t seq res)
    have "length (filter (\<lambda>(s, _). s \<noteq> seq) (r_in_flight r)) = length (r_in_flight r) - 1"
      using r(3) Finished by (intro filter_other_length race_coreD(1) [OF core]) simp
    then have "r_started r \<le> Suc n + length (filter (\<lambda>(s, _). s \<noteq> seq) (r_in_flight r))"
      using cnt by simp
    then show ?thesis
      using r(2) Finished pass wt by (cases res) (simp_all add: Let_def)
  qed
qed

subsection \<open>Properties\<close>

text \<open>C33: \<open>interleave_families\<close> only reorders: each family keeps all its addresses in the resolver's
  order, the resolver's first address stays first, and as long as both families last the families
  alternate.\<close>

theorem interleave_reorders_only:
  "filter is_ipv6 (interleave_families addrs) = filter is_ipv6 addrs
   \<and> filter (\<lambda>a. \<not> is_ipv6 a) (interleave_families addrs) = filter (\<lambda>a. \<not> is_ipv6 a) addrs
   \<and> take 1 (interleave_families addrs) = take 1 addrs
   \<and> (let k = min (length (filter is_ipv6 addrs)) (length (filter (\<lambda>a. \<not> is_ipv6 a) addrs))
      in map (\<lambda>a. is_ipv6 a = is_ipv6 (hd addrs)) (take (2 * k) (interleave_families addrs)) =
         concat (replicate k [True, False]))"
proof (intro conjI)
  have split: "filter is_ipv6 (interleave_families addrs) = filter is_ipv6 addrs \<and>
      filter (\<lambda>a. \<not> is_ipv6 a) (interleave_families addrs) = filter (\<lambda>a. \<not> is_ipv6 a) addrs"
  proof (cases addrs)
    case (Cons a as)
    let ?same = "filter (\<lambda>x. is_ipv6 x = is_ipv6 a) addrs"
      and ?other = "filter (\<lambda>x. is_ipv6 x \<noteq> is_ipv6 a) addrs"
    have "filter (\<lambda>x. is_ipv6 x = is_ipv6 a) (alternate ?same ?other) = ?same
        \<and> filter (\<lambda>x. is_ipv6 x \<noteq> is_ipv6 a) (alternate ?same ?other) = ?other"
      by (rule filter_alternate) (simp_all add: list_all_iff)
    moreover have "interleave_families addrs = alternate ?same ?other"
      by (simp only: Cons interleave_Cons)
    ultimately show ?thesis by (cases "is_ipv6 a") simp_all
  qed (simp add: interleave_families_def)
  then show "filter is_ipv6 (interleave_families addrs) = filter is_ipv6 addrs"
    and "filter (\<lambda>a. \<not> is_ipv6 a) (interleave_families addrs) = filter (\<lambda>a. \<not> is_ipv6 a) addrs"
    by simp_all
  show "take 1 (interleave_families addrs) = take 1 addrs"
  proof (cases addrs)
    case (Cons a as)
    let ?same = "filter (\<lambda>x. is_ipv6 x = is_ipv6 a) (a # as)"
    have "interleave_families addrs \<noteq> [] \<and> hd (interleave_families addrs) = hd ?same"
      unfolding Cons interleave_Cons by (rule hd_alternate) simp
    then show ?thesis using Cons by (cases "interleave_families addrs") simp_all
  qed (simp add: interleave_families_def)
  show "let k = min (length (filter is_ipv6 addrs)) (length (filter (\<lambda>a. \<not> is_ipv6 a) addrs))
     in map (\<lambda>a. is_ipv6 a = is_ipv6 (hd addrs)) (take (2 * k) (interleave_families addrs)) =
        concat (replicate k [True, False])"
  proof (cases addrs)
    case (Cons a as)
    have "map (\<lambda>x. is_ipv6 x = is_ipv6 a) (take (2 * k) (interleave_families addrs)) =
        concat (replicate k [True, False])"
      if "k = min (length (filter (\<lambda>x. is_ipv6 x = is_ipv6 a) addrs))
                  (length (filter (\<lambda>x. is_ipv6 x \<noteq> is_ipv6 a) addrs))" for k
      unfolding that Cons interleave_Cons by (rule take_alternate) (simp_all add: list_all_iff)
    then show ?thesis using Cons by (cases "is_ipv6 a") (simp_all add: Let_def min.commute)
  qed simp
qed

text \<open>C16: the race always ends: over \<open>n\<close> addresses it takes at most \<open>2 * n\<close> steps whatever the attempts
  do, it can always take one until it has a result, and it gives up only after at least one step, a
  failed attempt, for each address.\<close>

theorem race_terminates:
  assumes "(race_step ^^ n) (race_start addrs) x"
  shows "n \<le> 2 * length addrs
    \<and> (connect_result d x = None \<longleftrightarrow> (\<exists>y. race_step x y))
    \<and> (case x of AllFailed e \<Rightarrow> length addrs \<le> n | _ \<Rightarrow> True)"
proof (intro conjI)
  have inv: "race_inv addrs x"
    using assms race.steps_inv race_inv_start relpowp_imp_rtranclp by metis
  have "n + race_size x \<le> race_size (race_start addrs :: ('a, 'b) raced)"
    using race.steps_bounded [OF assms race_inv_start] .
  also have "\<dots> \<le> 2 * length addrs"
    unfolding race_start_def by (rule le_trans [OF conjunct1 [OF race_size_begin]]) simp
  finally show "n \<le> 2 * length addrs" by simp
  show "case x of AllFailed e \<Rightarrow> length addrs \<le> n | _ \<Rightarrow> True"
    using race_failed_count [OF assms] by (cases x) simp_all
  show "connect_result d x = None \<longleftrightarrow> (\<exists>y. race_step x y)"
  proof
    assume "connect_result d x = None"
    then obtain r where x: "x = Racing r" by (cases x) (auto simp: connect_result_def)
    then obtain s where "s \<in> fst ` set (r_in_flight r)" using inv by (cases "r_in_flight r") (auto simp: race_inv_def)
    then have "race_enabled r (Finished 0 s (Inl undefined) :: ('a, 'b) race_event)" by simp
    then show "\<exists>y. race_step x y" unfolding x by (blast intro: race_move)
  next
    assume "\<exists>y. race_step x y"
    then show "connect_result d x = None" by (auto elim: race_stepE simp: connect_result_def)
  qed
qed

theorem race_terminates_witness:
  "(race_step ^^ 1) (race_start [V4 1 443] :: (unit, string) raced) (AllFailed (Some ''refused''))
   \<and> \<not> (\<exists>y. race_step (AllFailed (Some ''refused'') :: (unit, string) raced) y)
   \<and> length [V4 1 443] \<le> 1"
proof -
  let ?r = "\<lparr>r_waiting = [], r_in_flight = [(0, V4 1 443)], r_started = 1, r_last_err = None,
             r_elapsed = 0\<rparr> :: string race"
  have "race_step (Racing ?r) (on_race_event ?r (Finished 5 0 (Inl ''refused'')) :: (unit, string) raced)"
    by (rule race_move) simp
  moreover have "race_start [V4 1 443] = (Racing ?r :: (unit, string) raced)"
    by (simp add: race_start_def begin_pass_def)
  moreover have "on_race_event ?r (Finished 5 0 (Inl ''refused'')) =
      (AllFailed (Some ''refused'') :: (unit, string) raced)"
    by (simp add: begin_pass_def)
  ultimately have
    "(race_step ^^ 1) (race_start [V4 1 443] :: (unit, string) raced) (AllFailed (Some ''refused''))"
    by (simp only: relpowp_1)
  from this race_terminates [OF this, of "''none''"] show ?thesis
    by (simp add: connect_result_def del: relpowp.simps)
qed

text \<open>C15: what a reachable state of the race says: a winner is one of the addresses, and the attempts
  reported as abandoned are addresses started before it, in order; \<open>no addresses\<close> is reported exactly
  for an empty list; and while addresses wait, the next one is started no later than its position times
  the 250 ms stagger.\<close>

theorem race_outcome:
  assumes "reachable (race_init addrs) race_step x"
  shows "case x of
      Connected s a abandoned \<Rightarrow>
        (\<exists>i seqs. i < length addrs \<and> a = addrs ! i \<and> sorted_wrt (<) seqs \<and> set seqs \<subseteq> {..<i}
           \<and> abandoned = map (\<lambda>k. addrs ! k) seqs)
    | AllFailed e \<Rightarrow> e = None \<longleftrightarrow> addrs = []
    | Racing r \<Rightarrow> r_in_flight r \<noteq> [] \<and> r_waiting r = drop (r_started r) addrs
        \<and> (r_waiting r = [] \<or> r_elapsed r \<le> (r_started r - 1) * millis 250)"
proof -
  have "race_inv addrs x"
    using assms by (rule race.reachable_inv)
  then show ?thesis
    by (cases x) (auto simp: race_inv_def race_core_def connect_attempt_delay_def)
qed

theorem race_outcome_witness:
  "reachable (race_init [V4 1 443, V6 1 443]) race_step
     (on_race_event \<lparr>r_waiting = [V6 1 443], r_in_flight = [(0, V4 1 443)], r_started = 1,
                     r_last_err = None, r_elapsed = 0\<rparr> Stagger :: (unit, string) raced)
   \<and> connect_attempt_delay \<le> 1 * millis 250"
proof -
  let ?r = "\<lparr>r_waiting = [V6 1 443], r_in_flight = [(0, V4 1 443)], r_started = 1,
                     r_last_err = None, r_elapsed = 0\<rparr> :: string race"
  have "race_init [V4 1 443, V6 1 443] (Racing ?r :: (unit, string) raced)"
    by (simp add: race_start_def begin_pass_def)
  then have r0: "reachable (race_init [V4 1 443, V6 1 443]) race_step (Racing ?r :: (unit, string) raced)"
    by (rule reach_init)
  have "race_step (Racing ?r) (on_race_event ?r Stagger :: (unit, string) raced)"
    by (rule race_move) simp
  with r0 have r1: "reachable (race_init [V4 1 443, V6 1 443]) race_step
      (on_race_event ?r Stagger :: (unit, string) raced)"
    by (rule reach_step)
  from race_outcome [OF this] race_outcome [OF r0] r1 show ?thesis
    by (simp add: connect_attempt_delay_def)
qed

end
