(* ===== verification/GwConfig.thy ===== *)
theory GwConfig
  imports Errors
begin

section \<open>Gateway configuration and reconnect backoff (src/config.rs)\<close>

text \<open>
  \<open>GatewayConfig\<close> with \<open>minimal\<close>, \<open>validate\<close> and \<open>has_credentials\<close>, and \<open>ReconnectBackoff\<close>
  with \<open>delay_for_attempt\<close>. \<open>Url::parse\<close> and the environment are arguments of \<open>validate\<close>.
\<close>

record reconnect_backoff =
  steps_secs :: "u64 list"

definition reconnect_backoff_default :: reconnect_backoff where
  "reconnect_backoff_default = \<lparr>steps_secs = [1, 2, 5, 10, 30]\<rparr>"

text \<open>
  \<open>attempt.max(1) as usize - 1\<close>, cut off at the last step; the empty policy waits 5 s. The code's
  subtraction and index never fail: the attempt is at least 1 and the index below the length.
\<close>

definition delay_for_attempt :: "reconnect_backoff \<Rightarrow> u32 \<Rightarrow> duration" where
  "delay_for_attempt b attempt =
     (if steps_secs b = [] then secs 5
      else let idx = min (unat (max attempt 1) - 1) (length (steps_secs b) - 1)
           in secs (unat (steps_secs b ! idx)))"

record gateway_config =
  cfg_manager_urls :: "string list"
  cfg_device_type :: string
  cfg_software_version :: string
  cfg_node_id :: "string option"
  cfg_node_secret :: "string option"
  cfg_registration_token :: "string option"
  cfg_accept_self_signed_cert :: bool
  cfg_allow_plaintext_ws :: bool
  cfg_cert_fingerprint :: "ustring option"
  cfg_heartbeat_interval :: duration
  cfg_reconnect_backoff :: reconnect_backoff

definition default_heartbeat :: duration where
  "default_heartbeat = secs 15"

definition minimal_config :: "string \<Rightarrow> string \<Rightarrow> string \<Rightarrow> gateway_config" where
  "minimal_config manager_url device_type software_version =
     \<lparr>cfg_manager_urls = [manager_url],
      cfg_device_type = device_type,
      cfg_software_version = software_version,
      cfg_node_id = None,
      cfg_node_secret = None,
      cfg_registration_token = None,
      cfg_accept_self_signed_cert = False,
      cfg_allow_plaintext_ws = False,
      cfg_cert_fingerprint = None,
      cfg_heartbeat_interval = default_heartbeat,
      cfg_reconnect_backoff = reconnect_backoff_default\<rparr>"

definition plaintext_ws_env_set :: "env \<Rightarrow> bool" where
  "plaintext_ws_env_set e = env_is_1 e ''BILBYCAST_SDK_ALLOW_PLAINTEXT_WS''"

text \<open>The loop over \<open>manager_urls\<close>: \<open>i\<close> is the index, \<open>seen\<close> the URLs before it.\<close>

fun validate_urls ::
  "url_parser \<Rightarrow> env \<Rightarrow> bool \<Rightarrow> nat \<Rightarrow> string list \<Rightarrow> string list \<Rightarrow> sdk_error + unit" where
  "validate_urls parse e allow i seen [] = Inr ()"
| "validate_urls parse e allow i seen (u # us) =
     (if length u > 2048 then Inl (Config (UrlTooLong i))
      else if \<not> starts_with ''wss://'' u \<and> \<not> (allow \<and> plaintext_ws_env_set e) then
        Inl (Config (UrlNotTls i u
          (if allow then EnvHalfMissing
           else if plaintext_ws_env_set e then ConfigHalfMissing
           else BothHalvesMissing)))
      else (case parse u of
          Inl err \<Rightarrow> Inl (Config (UrlUnparsable i err))
        | Inr _ \<Rightarrow>
            if u \<in> set seen then Inl (Config (UrlDuplicate i u))
            else validate_urls parse e allow (Suc i) (u # seen) us))"

definition validate_config :: "url_parser \<Rightarrow> env \<Rightarrow> gateway_config \<Rightarrow> sdk_error + unit" where
  "validate_config parse e cfg =
     (if cfg_manager_urls cfg = [] then Inl (Config ManagerUrlsEmpty)
      else if length (cfg_manager_urls cfg) > 16 then
        Inl (Config (ManagerUrlsTooMany (length (cfg_manager_urls cfg))))
      else bindR (validate_urls parse e (cfg_allow_plaintext_ws cfg) 0 [] (cfg_manager_urls cfg)) (\<lambda>_.
        if cfg_device_type cfg = [] \<or> length (cfg_device_type cfg) > 64 then
          Inl (Config DeviceTypeLength)
        else if (cfg_node_id cfg \<noteq> None) \<noteq> (cfg_node_secret cfg \<noteq> None) then
          Inl (Config CredentialsHalfSet)
        else if cfg_node_id cfg = None \<and> cfg_registration_token cfg = None then
          Inl (Config CredentialsMissing)
        else let hb_secs = as_secs (cfg_heartbeat_interval cfg) in
          if \<not> (5 \<le> hb_secs \<and> hb_secs \<le> 300) then Inl (Config (HeartbeatOutOfRange hb_secs))
          else Inr ()))"

definition has_credentials :: "gateway_config \<Rightarrow> bool" where
  "has_credentials cfg = (cfg_node_id cfg \<noteq> None \<and> cfg_node_secret cfg \<noteq> None)"

subsection \<open>What validate accepts\<close>

definition url_ok :: "url_parser \<Rightarrow> env \<Rightarrow> bool \<Rightarrow> string \<Rightarrow> bool" where
  "url_ok parse e allow u =
     (length u \<le> 2048 \<and> (starts_with ''wss://'' u \<or> allow \<and> plaintext_ws_env_set e) \<and> is_ok (parse u))"

definition config_ok :: "url_parser \<Rightarrow> env \<Rightarrow> gateway_config \<Rightarrow> bool" where
  "config_ok parse e cfg =
     (1 \<le> length (cfg_manager_urls cfg) \<and> length (cfg_manager_urls cfg) \<le> 16
      \<and> distinct (cfg_manager_urls cfg)
      \<and> (\<forall>u\<in>set (cfg_manager_urls cfg). url_ok parse e (cfg_allow_plaintext_ws cfg) u)
      \<and> 1 \<le> length (cfg_device_type cfg) \<and> length (cfg_device_type cfg) \<le> 64
      \<and> (has_credentials cfg
         \<or> cfg_node_id cfg = None \<and> cfg_node_secret cfg = None \<and> cfg_registration_token cfg \<noteq> None)
      \<and> secs 5 \<le> cfg_heartbeat_interval cfg \<and> cfg_heartbeat_interval cfg < secs 301)"

lemma validate_urls_ok_iff:
  "validate_urls parse e allow i seen us = Inr () \<longleftrightarrow>
     distinct us \<and> set us \<inter> set seen = {} \<and> (\<forall>u\<in>set us. url_ok parse e allow u)"
  by (induction us arbitrary: i seen) (auto simp: url_ok_def result_simps split: sum.splits)

lemma as_secs_range: "5 \<le> as_secs d \<and> as_secs d \<le> 300 \<longleftrightarrow> secs 5 \<le> d \<and> d < secs 301"
  unfolding as_secs_def secs_def by auto

lemma validate_config_ok:
  "validate_config parse e cfg = Inr () \<longleftrightarrow> config_ok parse e cfg"
proof -
  have len: "1 \<le> length xs \<longleftrightarrow> xs \<noteq> []" for xs :: "'a list" by (cases xs) auto
  show ?thesis
    unfolding validate_config_def config_ok_def len as_secs_range [symmetric] has_credentials_def Let_def
    by (auto simp: result_simps validate_urls_ok_iff)
qed

subsection \<open>Backoff\<close>

lemma delay_default_bounds:
  "delay_for_attempt reconnect_backoff_default a \<in> secs ` {1, 2, 5, 10, 30}"
proof -
  have "min (unat (max a 1) - 1) 4 \<in> set [0..<5]" by auto
  moreover have "\<forall>i\<in>set [0..<5]. secs (unat ([1, 2, 5, 10, 30 :: u64] ! i)) \<in> secs ` {1, 2, 5, 10, 30}"
    by (simp add: upt_rec)
  ultimately show ?thesis
    by (simp add: delay_for_attempt_def reconnect_backoff_default_def Let_def)
qed

lemma delay_eq:
  "steps_secs b \<noteq> [] \<Longrightarrow>
     delay_for_attempt b a = secs (unat (steps_secs b ! min (unat a - 1) (length (steps_secs b) - 1)))"
  by (cases "a = 0") (auto simp: delay_for_attempt_def Let_def max_def word_less_nat_alt
      word_le_nat_alt unat_eq_0 intro!: arg_cong [where f = "\<lambda>i. secs (unat (steps_secs b ! i))"])

subsection \<open>Properties\<close>

text \<open>\<open>GatewayConfig::validate\<close> accepts exactly the configurations of the documented form
  (\<open>config_ok\<close>: 1 to 16 distinct URLs of at most 2048 bytes that parse and are \<open>wss://\<close> unless both
  plaintext keys are set, a device type of 1 to 64 bytes, credentials or a token but never half of the
  credentials, a heartbeat of 5 to 300 whole seconds), and every refusal is a configuration error.\<close>

lemma validate_accepts_exactly:
  "\<exists>c. validate_config parse e cfg = (if config_ok parse e cfg then Inr () else Inl (Config c))"
proof -
  have urls: "validate_urls parse e b i seen us = Inl x \<Longrightarrow> \<exists>c. x = Config c" for b i seen us x
    by (induction us arbitrary: i seen) (auto split: sum.splits if_splits)
  have "validate_config parse e cfg = Inl x \<Longrightarrow> \<exists>c. x = Config c" for x
    using urls by (fastforce simp: validate_config_def Let_def result_simps split: if_splits)
  then have "\<exists>c. validate_config parse e cfg = Inl (Config c) \<or> validate_config parse e cfg = Inr ()"
    by (cases "validate_config parse e cfg") auto
  then show ?thesis using validate_config_ok [of parse e cfg] by auto
qed

text \<open>With a non-decreasing policy, \<open>delay_for_attempt\<close> never waits less on a later attempt than
  on an earlier one, and from the attempt numbered by the length of the policy on it always waits the
  last step; attempt 0 counts as the first.\<close>

lemma backoff_grows_to_its_last_step:
  assumes "sorted (map unat (steps_secs b))" and "steps_secs b \<noteq> []" and "a \<le> a'"
  shows "delay_for_attempt b a \<le> delay_for_attempt b a'
    \<and> (length (steps_secs b) \<le> unat a \<longrightarrow>
           delay_for_attempt b a = secs (unat (last (steps_secs b))))
    \<and> delay_for_attempt b 0 = secs (unat (hd (steps_secs b)))"
proof (intro conjI impI)
  let ?i = "\<lambda>a :: u32. min (unat a - 1) (length (steps_secs b) - 1)"
  have "?i a \<le> ?i a'" using assms(3) by (auto simp: word_le_nat_alt min_def)
  moreover have "?i a' < length (steps_secs b)" using assms(2) by (cases "steps_secs b") auto
  ultimately have "unat (steps_secs b ! ?i a) \<le> unat (steps_secs b ! ?i a')"
    using sorted_nth_mono [OF assms(1)] by simp
  then show "delay_for_attempt b a \<le> delay_for_attempt b a'" using assms(2) by (simp add: delay_eq)
  show "delay_for_attempt b a = secs (unat (last (steps_secs b)))" if "length (steps_secs b) \<le> unat a"
  proof -
    have "?i a = length (steps_secs b) - 1" using that by simp
    then show ?thesis using assms(2) by (simp add: delay_eq last_conv_nth)
  qed
  show "delay_for_attempt b 0 = secs (unat (hd (steps_secs b)))"
    using assms(2) by (simp add: delay_eq hd_conv_nth)
qed

end
