(* ===== verification/Client.thy ===== *)
theory Client
  imports Session Auth GwTls Dial GwConfig
begin

section \<open>The client: connect, authenticate, reconnect (src/ws_client.rs)\<close>

text \<open>
  \<open>GatewayClient\<close> with the credentials and the link state it shares, one connection from the dial to the
  end of its session, and the reconnect loop of \<open>run\<close>. What the outside does during one turn of the loop
  (name lookup, sockets, the manager's replies, the clock, the session's turns, when shutdown is asked
  for) is a record \<open>conn_attempt\<close>; the loop is a function of a list of attempts and returns what it did as a
  list of events. A client comes from \<open>connect\<close>, so its list of URLs is not empty.
\<close>

type_synonym usize = "64 word"

definition outbound_channel_size :: nat where "outbound_channel_size = 256"
definition auth_send_timeout :: duration where "auth_send_timeout = secs 10"

subsection \<open>Shared state\<close>

record live_credentials =
  lc_node_id :: "string option"
  lc_node_secret :: "string option"
  lc_registration_token :: "string option"

record connection_state =
  cs_connected :: bool
  cs_last_connect_epoch :: u64

definition connection_state_new :: connection_state where
  "connection_state_new = \<lparr>cs_connected = False, cs_last_connect_epoch = 0\<rparr>"

definition is_connected :: "connection_state \<Rightarrow> bool" where
  "is_connected s = cs_connected s"

definition last_connect_epoch :: "connection_state \<Rightarrow> u64 option" where
  "last_connect_epoch s = (if cs_last_connect_epoch s = 0 then None else Some (cs_last_connect_epoch s))"

text \<open>The clock gives the seconds since the epoch, or an error when it is set before it.\<close>

definition set_connected :: "u64 option \<Rightarrow> connection_state \<Rightarrow> connection_state" where
  "set_connected clock s =
     s\<lparr>cs_last_connect_epoch := (case clock of Some d \<Rightarrow> d | None \<Rightarrow> 0), cs_connected := True\<rparr>"

definition set_disconnected :: "connection_state \<Rightarrow> connection_state" where
  "set_disconnected s = s\<lparr>cs_connected := False\<rparr>"

subsection \<open>The client\<close>

text \<open>The callback is the vendor's: whether there is one is a field, what it is called with is an event.\<close>

record gateway_client =
  gc_cfg :: gateway_config
  gc_outbound :: "frame chan"
  gc_credentials :: live_credentials
  gc_on_register :: bool
  gc_state :: connection_state

definition connect :: "url_parser \<Rightarrow> env \<Rightarrow> gateway_config \<Rightarrow> sdk_error + gateway_client" where
  "connect parse e cfg =
     bindR (validate_config parse e cfg) (\<lambda>_.
     Inr \<lparr>gc_cfg = cfg,
          gc_outbound = chan_new outbound_channel_size,
          gc_credentials = \<lparr>lc_node_id = cfg_node_id cfg, lc_node_secret = cfg_node_secret cfg,
                            lc_registration_token = cfg_registration_token cfg\<rparr>,
          gc_on_register = False,
          gc_state = connection_state_new\<rparr>)"

definition on_register :: "gateway_client \<Rightarrow> gateway_client" where
  "on_register c = c\<lparr>gc_on_register := True\<rparr>"

definition current_credentials :: "gateway_client \<Rightarrow> string option \<times> string option" where
  "current_credentials c = (lc_node_id (gc_credentials c), lc_node_secret (gc_credentials c))"

subsection \<open>One connection\<close>

datatype auth_sent = AuthSent | AuthSendFailed string | AuthSendStalled | AuthSendShutdown

datatype auth_reply =
    AuthText string
  | AuthBinary
  | AuthClose
  | AuthOtherFrame
  | AuthReadError string
  | AuthStreamEnded
  | AuthNoReply
  | AuthReplyShutdown

text \<open>What the outside does in one turn of the loop. No dial at all means that shutdown came first.\<close>

record ('tcp, 'ws) conn_attempt =
  at_cancelled_before :: bool
  at_verifier :: "string + unit"
  at_dial :: "('tcp, 'ws) dial_world option"
  at_now :: string
  at_sent :: auth_sent
  at_reply :: auth_reply
  at_clock :: "u64 option"
  at_turns :: "turn list"
  at_stop :: session_stop
  at_cancelled_after :: bool
  at_cancelled_asleep :: bool

text \<open>Every stage ends the connection early with an error or with \<open>ShutdownRequested\<close>, or goes on.\<close>

type_synonym early = "sdk_error + connection_result"

text \<open>What the client does that can be seen from outside or in its log.\<close>

datatype client_event =
    Dials string
  | Authenticates string
  | RegistersAs string string
  | CallsBack string string
  | LinkUp
  | Writes "ws_write list"
  | LinkDown early
  | Waits duration

definition dial_stage :: "url_parser \<Rightarrow> ('tcp, 'ws) dial_world option \<Rightarrow> string \<Rightarrow> early + 'ws" where
  "dial_stage parse dw url =
     (case dw of None \<Rightarrow> Inl (Inr ShutdownRequested) | Some d \<Rightarrow> map_err Inl (dial_manager parse d url))"

definition auth_frame :: "wire \<Rightarrow> string \<Rightarrow> gateway_client \<Rightarrow> sdk_error + string" where
  "auth_frame w now c =
     (case (lc_node_id (gc_credentials c), lc_node_secret (gc_credentials c)) of
        (Some nid, Some nsec) \<Rightarrow>
          Inr (auth_reconnect w now nid nsec (cfg_software_version (gc_cfg c)) (cfg_device_type (gc_cfg c)))
      | _ \<Rightarrow>
          (case lc_registration_token (gc_credentials c) of
             Some tok \<Rightarrow>
               Inr (auth_register w now tok (cfg_software_version (gc_cfg c)) (cfg_device_type (gc_cfg c)))
           | None \<Rightarrow> Inl (Config NoCredentialsConfigured)))"

fun send_auth :: "auth_sent \<Rightarrow> early + unit" where
  "send_auth AuthSent = Inr ()"
| "send_auth (AuthSendFailed e) = Inl (Inl (sdk_from_tungstenite e))"
| "send_auth AuthSendStalled = Inl (Inl (WebSocket (AuthFrameNotTaken (as_secs auth_send_timeout))))"
| "send_auth AuthSendShutdown = Inl (Inr ShutdownRequested)"

fun receive_auth :: "auth_reply \<Rightarrow> early + string" where
  "receive_auth (AuthText t) = Inr t"
| "receive_auth AuthBinary = Inl (Inl (Auth BinaryAuthResponse))"
| "receive_auth AuthClose = Inl (Inl (Auth ClosedDuringAuth))"
| "receive_auth AuthOtherFrame = Inl (Inl (Auth NonTextAuthFrame))"
| "receive_auth (AuthReadError e) = Inl (Inl (sdk_from_tungstenite e))"
| "receive_auth AuthStreamEnded = Inl (Inl (Auth ClosedBeforeAuthResponse))"
| "receive_auth AuthNoReply = Inl (Inl AuthTimeout)"
| "receive_auth AuthReplyShutdown = Inl (Inr ShutdownRequested)"

definition authenticate :: "wire \<Rightarrow> auth_sent \<Rightarrow> auth_reply \<Rightarrow> early + auth_outcome" where
  "authenticate w sent reply =
     bindR (send_auth sent) (\<lambda>_.
     bindR (receive_auth reply) (\<lambda>txt.
     map_err Inl (parse_auth_response w txt)))"

fun accept_auth :: "auth_outcome \<Rightarrow> gateway_client \<Rightarrow> gateway_client \<times> client_event list" where
  "accept_auth (Registered nid nsec) c =
     (c\<lparr>gc_credentials := \<lparr>lc_node_id = Some nid, lc_node_secret = Some nsec, lc_registration_token = None\<rparr>\<rparr>,
      RegistersAs nid nsec # (if gc_on_register c then [CallsBack nid nsec] else []))"
| "accept_auth Authenticated c = (c, [])"

text \<open>The outcome is missing while the session still runs.\<close>

definition one_connection ::
  "url_parser \<Rightarrow> env \<Rightarrow> wire \<Rightarrow> ('tcp, 'ws) conn_attempt \<Rightarrow> string \<Rightarrow> gateway_client
     \<Rightarrow> gateway_client \<times> client_event list \<times> early option" where
  "one_connection parse e w at url c =
     (case bindR (map_err Inl (build_tls_config e (at_verifier at)
                   (cfg_accept_self_signed_cert (gc_cfg c)) (cfg_cert_fingerprint (gc_cfg c)))) (\<lambda>_.
             dial_stage parse (at_dial at) url) of
        Inl out \<Rightarrow> (c, [], Some out)
      | Inr _ \<Rightarrow>
     (case auth_frame w (at_now at) c of
        Inl err \<Rightarrow> (c, [], Some (Inl err))
      | Inr frame \<Rightarrow>
     (case authenticate w (at_sent at) (at_reply at) of
        Inl out \<Rightarrow> (c, [Authenticates frame], Some out)
      | Inr outcome \<Rightarrow>
          let (c1, called) = accept_auth outcome c;
              c2 = c1\<lparr>gc_state := set_connected (at_clock at) (gc_state c1)\<rparr>;
              (ws, fin) = run_session w (cfg_software_version (gc_cfg c2)) (at_turns at) (at_stop at)
          in (c2, Authenticates frame # called @ [LinkUp, Writes ws], map_option Inr fin))))"

subsection \<open>The reconnect loop\<close>

record run_state =
  rs_client :: gateway_client
  rs_cursor :: usize
  rs_attempt :: u32

definition run_start :: "gateway_client \<Rightarrow> run_state" where
  "run_start c = \<lparr>rs_client = c, rs_cursor = 0, rs_attempt = 0\<rparr>"

datatype run_next = Retries run_state | InSession gateway_client | Breaks gateway_client

definition closed_cleanly :: "early \<Rightarrow> bool" where
  "closed_cleanly out = (case out of Inr AuthenticatedThenClosed \<Rightarrow> True | _ \<Rightarrow> False)"

definition shutdown_seen :: "early \<Rightarrow> bool" where
  "shutdown_seen out = (case out of Inr ShutdownRequested \<Rightarrow> True | _ \<Rightarrow> False)"

definition run_attempt ::
  "url_parser \<Rightarrow> env \<Rightarrow> wire \<Rightarrow> ('tcp, 'ws) conn_attempt \<Rightarrow> run_state \<Rightarrow> client_event list \<times> run_next" where
  "run_attempt parse e w at s =
     (let c = rs_client s; urls = cfg_manager_urls (gc_cfg c) in
      if at_cancelled_before at then ([], Breaks c)
      else
        let url = urls ! (unat (rs_cursor s) mod length urls);
            (c1, evs, out) = one_connection parse e w at url c
        in (case out of
              None \<Rightarrow> (Dials url # evs, InSession c1)
            | Some res \<Rightarrow>
                let c2 = c1\<lparr>gc_state := set_disconnected (gc_state c1)\<rparr>;
                    evs2 = Dials url # evs @ [LinkDown res];
                    attempt = (if closed_cleanly res then 0 else rs_attempt s)
                in if shutdown_seen res \<or> at_cancelled_after at then (evs2, Breaks c2)
                   else
                     let attempt' = saturating_inc attempt;
                         delay = delay_for_attempt (cfg_reconnect_backoff (gc_cfg c)) attempt'
                     in (evs2 @ [Waits delay],
                         if at_cancelled_asleep at then Breaks c2
                         else Retries \<lparr>rs_client = c2, rs_cursor = rs_cursor s + 1, rs_attempt = attempt'\<rparr>)))"

fun run_loop ::
  "url_parser \<Rightarrow> env \<Rightarrow> wire \<Rightarrow> ('tcp, 'ws) conn_attempt list \<Rightarrow> run_state \<Rightarrow> client_event list \<times> run_next" where
  "run_loop parse e w [] s = ([], Retries s)"
| "run_loop parse e w (at # ats) s =
     (case run_attempt parse e w at s of
        (evs, Retries s') \<Rightarrow> (let (evs', n) = run_loop parse e w ats s' in (evs @ evs', n))
      | (evs, n) \<Rightarrow> (evs, n))"

text \<open>After the loop: the outbound channel is closed, then the command turn is waited for, up to 30 s.\<close>

datatype drained = CommandsDone | CommandAbandoned

definition run_ends :: "bool \<Rightarrow> gateway_client \<Rightarrow> gateway_client \<times> drained" where
  "run_ends turn_in_time c =
     (c\<lparr>gc_outbound := close_rx (gc_outbound c)\<rparr>, if turn_in_time then CommandsDone else CommandAbandoned)"

subsection \<open>Reading a trace\<close>

definition dials :: "client_event list \<Rightarrow> string list" where
  "dials evs = [u. Dials u \<leftarrow> evs]"

definition outcomes :: "client_event list \<Rightarrow> early list" where
  "outcomes evs = [r. LinkDown r \<leftarrow> evs]"

definition waits :: "client_event list \<Rightarrow> duration list" where
  "waits evs = [d. Waits d \<leftarrow> evs]"

definition registrations :: "client_event list \<Rightarrow> (string \<times> string) list" where
  "registrations evs = [(i, k). RegistersAs i k \<leftarrow> evs]"

definition called_back :: "client_event list \<Rightarrow> (string \<times> string) list" where
  "called_back evs = [(i, k). CallsBack i k \<leftarrow> evs]"

lemma trace_nil [simp]:
  "dials [] = []" "outcomes [] = []" "waits [] = []" "registrations [] = []" "called_back [] = []"
  by (simp_all add: dials_def outcomes_def waits_def registrations_def called_back_def)

lemma trace_cons [simp]:
  "dials (x # es) = (case x of Dials u \<Rightarrow> [u] | _ \<Rightarrow> []) @ dials es"
  "outcomes (x # es) = (case x of LinkDown r \<Rightarrow> [r] | _ \<Rightarrow> []) @ outcomes es"
  "waits (x # es) = (case x of Waits d \<Rightarrow> [d] | _ \<Rightarrow> []) @ waits es"
  "registrations (x # es) = (case x of RegistersAs i k \<Rightarrow> [(i, k)] | _ \<Rightarrow> []) @ registrations es"
  "called_back (x # es) = (case x of CallsBack i k \<Rightarrow> [(i, k)] | _ \<Rightarrow> []) @ called_back es"
  by (simp_all add: dials_def outcomes_def waits_def registrations_def called_back_def)

lemma trace_append [simp]:
  "dials (a @ b) = dials a @ dials b" "outcomes (a @ b) = outcomes a @ outcomes b"
  "waits (a @ b) = waits a @ waits b" "registrations (a @ b) = registrations a @ registrations b"
  "called_back (a @ b) = called_back a @ called_back b"
  by (simp_all add: dials_def outcomes_def waits_def registrations_def called_back_def)

text \<open>How many attempts in a row the next delay counts: those since the last clean close, which counts as
  the first.\<close>

definition attempts_counted :: "early list \<Rightarrow> nat" where
  "attempts_counted rs =
     length (takeWhile (\<lambda>r. \<not> closed_cleanly r) (rev rs)) + (if \<exists>r\<in>set rs. closed_cleanly r then 1 else 0)"

lemma attempts_counted_snoc:
  "attempts_counted (rs @ [r]) = (if closed_cleanly r then 1 else attempts_counted rs + 1)"
  by (auto simp: attempts_counted_def)

definition asks_shutdown :: "('tcp, 'ws) conn_attempt \<Rightarrow> bool" where
  "asks_shutdown at =
     (at_cancelled_before at \<or> at_cancelled_after at \<or> at_cancelled_asleep at \<or> at_dial at = None
      \<or> at_sent at = AuthSendShutdown \<or> at_reply at = AuthReplyShutdown \<or> at_stop at = ShutdownFirst)"

subsection \<open>One connection, case by case\<close>

lemma one_connection_cases:
  assumes "one_connection parse e w at url c = (c1, evs, out)"
  obtains (no_frame) res where "c1 = c" "evs = []" "out = Some res"
    | (refused) f res where "c1 = c" "evs = [Authenticates f]" "out = Some res" "auth_frame w (at_now at) c = Inr f"
    | (session) f outcome called ws fin c0 where "auth_frame w (at_now at) c = Inr f"
        "authenticate w (at_sent at) (at_reply at) = Inr outcome" "accept_auth outcome c = (c0, called)"
        "run_session w (cfg_software_version (gc_cfg c)) (at_turns at) (at_stop at) = (ws, fin)"
        "c1 = c0\<lparr>gc_state := set_connected (at_clock at) (gc_state c0)\<rparr>"
        "evs = Authenticates f # called @ [LinkUp, Writes ws]" "out = map_option Inr fin"
proof (cases "bindR (map_err Inl (build_tls_config e (at_verifier at)
                   (cfg_accept_self_signed_cert (gc_cfg c)) (cfg_cert_fingerprint (gc_cfg c)))) (\<lambda>_.
             dial_stage parse (at_dial at) url)")
  case (Inl res)
  then show ?thesis using assms by (auto simp: one_connection_def intro: no_frame)
next
  case dialled: (Inr d)
  show ?thesis
  proof (cases "auth_frame w (at_now at) c")
    case (Inl err)
    then show ?thesis using assms dialled by (auto simp: one_connection_def intro: no_frame)
  next
    case frame: (Inr f)
    show ?thesis
    proof (cases "authenticate w (at_sent at) (at_reply at)")
      case (Inl res)
      then show ?thesis using assms dialled frame by (auto simp: one_connection_def intro: refused)
    next
      case (Inr outcome)
      obtain c0 called where a: "accept_auth outcome c = (c0, called)" by fastforce
      moreover have "gc_cfg c0 = gc_cfg c" using a by (cases outcome) auto
      moreover obtain ws fin where
        "run_session w (cfg_software_version (gc_cfg c)) (at_turns at) (at_stop at) = (ws, fin)" by fastforce
      ultimately show ?thesis
        using assms dialled frame Inr by (intro session) (auto simp: one_connection_def)
    qed
  qed
qed

lemma accept_auth_keeps:
  assumes "accept_auth out c = (c0, called)"
  shows "gc_cfg c0 = gc_cfg c" "gc_outbound c0 = gc_outbound c" "gc_on_register c0 = gc_on_register c"
    "gc_state c0 = gc_state c" "dials called = []" "outcomes called = []" "waits called = []"
  using assms by (cases out; auto split: if_splits)+

lemma one_connection_keeps:
  assumes "one_connection parse e w at url c = (c1, evs, out)"
  shows "gc_cfg c1 = gc_cfg c" "gc_outbound c1 = gc_outbound c" "gc_on_register c1 = gc_on_register c"
    "dials evs = []" "outcomes evs = []" "waits evs = []"
  using assms
  by (cases rule: one_connection_cases; force dest: accept_auth_keeps)+

text \<open>One turn of the loop: not begun, left in its session, broken off, or followed by a wait.\<close>

lemma run_attempt_cases:
  assumes "run_attempt parse e w at s = (evs, n)"
  obtains (cancelled) "at_cancelled_before at" "evs = []" "n = Breaks (rs_client s)"
    | (running) url evs1 c1 where "one_connection parse e w at url (rs_client s) = (c1, evs1, None)"
        "url = cfg_manager_urls (gc_cfg (rs_client s)) ! (unat (rs_cursor s) mod length (cfg_manager_urls (gc_cfg (rs_client s))))"
        "evs = Dials url # evs1" "n = InSession c1"
    | (ended) url evs1 c1 res tail where "one_connection parse e w at url (rs_client s) = (c1, evs1, Some res)"
        "url = cfg_manager_urls (gc_cfg (rs_client s)) ! (unat (rs_cursor s) mod length (cfg_manager_urls (gc_cfg (rs_client s))))"
        "evs = Dials url # evs1 @ LinkDown res # tail"
        "tail = [] \<and> (shutdown_seen res \<or> at_cancelled_after at) \<and> n = Breaks (c1\<lparr>gc_state := set_disconnected (gc_state c1)\<rparr>)
         \<or> (let k = saturating_inc (if closed_cleanly res then 0 else rs_attempt s) in
             tail = [Waits (delay_for_attempt (cfg_reconnect_backoff (gc_cfg (rs_client s))) k)]
             \<and> (if at_cancelled_asleep at then n = Breaks (c1\<lparr>gc_state := set_disconnected (gc_state c1)\<rparr>)
                else n = Retries \<lparr>rs_client = c1\<lparr>gc_state := set_disconnected (gc_state c1)\<rparr>,
                                   rs_cursor = rs_cursor s + 1, rs_attempt = k\<rparr>))"
proof (cases "at_cancelled_before at")
  case True
  then show ?thesis using assms by (intro cancelled) (auto simp: run_attempt_def)
next
  case False
  let ?urls = "cfg_manager_urls (gc_cfg (rs_client s))"
  define url where "url = ?urls ! (unat (rs_cursor s) mod length ?urls)"
  obtain c1 evs1 out where run: "one_connection parse e w at url (rs_client s) = (c1, evs1, out)"
    by (cases "one_connection parse e w at url (rs_client s)")
  show ?thesis
  proof (cases out)
    case None
    then show ?thesis using assms False run
      by (intro running [of url c1 evs1]) (auto simp: run_attempt_def Let_def url_def)
  next
    case (Some res)
    show ?thesis
      by (rule ended [of url c1 evs1 res "drop (Suc (Suc (length evs1))) evs"])
        (use assms False run Some in
          \<open>auto simp: run_attempt_def Let_def url_def split: if_splits\<close>)
  qed
qed

subsection \<open>The schedule\<close>

definition counter_of :: "nat \<Rightarrow> u32" where
  "counter_of n = word_of_nat (min n (2 ^ 32 - 1))"

lemma unat_counter_of: "unat (counter_of n) = min n (2 ^ 32 - 1)"
  by (simp add: counter_of_def unat_of_nat take_bit_nat_eq_self_iff min_def)

lemma saturating_inc_counter: "saturating_inc (counter_of n) = counter_of (Suc n)"
  by (rule unsigned_word_eqI [where 'a = nat])
    (simp add: unat_saturating_inc unat_counter_of min_def)

lemma counter_of_0 [simp]: "counter_of 0 = 0"
  by (simp add: counter_of_def)

lemma run_loop_schedule:
  assumes "run_loop parse e w ats s = (evs, n)" and "rs_attempt s = counter_of (attempts_counted past)"
    and "unat (rs_cursor s) + length ats < 2 ^ 64" and "gc_cfg (rs_client s) = cfg"
  shows "(\<forall>i<length (dials evs). dials evs ! i
            = cfg_manager_urls cfg ! ((unat (rs_cursor s) + i) mod length (cfg_manager_urls cfg)))
     \<and> (\<forall>i<length (waits evs). waits evs ! i = delay_for_attempt (cfg_reconnect_backoff cfg)
            (counter_of (attempts_counted (past @ take (Suc i) (outcomes evs)))))
     \<and> length (waits evs) \<le> length (outcomes evs)"
  using assms
proof (induction ats arbitrary: s evs past)
  case Nil
  then show ?case by auto
next
  case (Cons at ats)
  obtain evs1 n1 where run: "run_attempt parse e w at s = (evs1, n1)" by fastforce
  from run show ?case
  proof (cases rule: run_attempt_cases)
    case cancelled
    then show ?thesis using Cons.prems(1) run by auto
  next
    case (running url evs2 c1)
    then have "evs = Dials url # evs2" using Cons.prems(1) run by auto
    then show ?thesis using one_connection_keeps [OF running(1)] running(2) Cons.prems(4)
      by auto
  next
    case (ended url evs2 c1 res tail)
    note keeps = one_connection_keeps [OF ended(1)]
    let ?k = "saturating_inc (if closed_cleanly res then 0 else rs_attempt s)"
    have k: "?k = counter_of (attempts_counted (past @ [res]))"
      using saturating_inc_counter [of 0] saturating_inc_counter [of "attempts_counted past"] Cons.prems(2)
      by (simp add: attempts_counted_snoc)
    have "dials tail = []" "outcomes tail = []" using ended(4) by (auto simp: Let_def)
    then have pieces: "dials evs1 = [url]" "outcomes evs1 = [res]" "waits evs1 = waits tail"
      using keeps(4-6) ended(3,4) by simp_all
    show ?thesis
    proof (cases n1)
      case (Retries s')
      then obtain evs' where rest: "run_loop parse e w ats s' = (evs', n)" "evs = evs1 @ evs'"
        using Cons.prems(1) run by (auto split: prod.splits)
      have s': "rs_client s' = c1\<lparr>gc_state := set_disconnected (gc_state c1)\<rparr>" "rs_cursor s' = rs_cursor s + 1" "rs_attempt s' = ?k"
        and tail: "waits tail = [delay_for_attempt (cfg_reconnect_backoff cfg) ?k]"
        using ended(4) Retries Cons.prems(4) by (auto simp: Let_def split: if_splits)
      have cur: "unat (rs_cursor s') = Suc (unat (rs_cursor s))"
        using Cons.prems(3) unfolding s'(2) by (subst unat_add_lem [THEN iffD1]) simp_all
      have IH: "(\<forall>i<length (dials evs'). dials evs' ! i
            = cfg_manager_urls cfg ! ((unat (rs_cursor s') + i) mod length (cfg_manager_urls cfg)))
        \<and> (\<forall>i<length (waits evs'). waits evs' ! i = delay_for_attempt (cfg_reconnect_backoff cfg)
            (counter_of (attempts_counted ((past @ [res]) @ take (Suc i) (outcomes evs')))))
        \<and> length (waits evs') \<le> length (outcomes evs')"
        by (rule Cons.IH [OF rest(1)]) (use s' k cur keeps(1) Cons.prems(3,4) in simp_all)
      then show ?thesis
        using pieces tail k ended(2) Cons.prems(4) unfolding rest(2)
        by (auto simp: nth_Cons cur split: nat.split)
    next
      case (InSession c)
      then show ?thesis using ended(4) by (auto simp: Let_def split: if_splits)
    next
      case (Breaks c)
      then have "evs = evs1" using Cons.prems(1) run by auto
      then show ?thesis using pieces k ended(2,4) Cons.prems(4)
        by (auto simp: Let_def split: if_splits)
    qed
  qed
qed

subsection \<open>The credentials\<close>

definition latest_credentials :: "gateway_config \<Rightarrow> client_event list \<Rightarrow> live_credentials" where
  "latest_credentials cfg past =
     (if registrations past = [] then
        \<lparr>lc_node_id = cfg_node_id cfg, lc_node_secret = cfg_node_secret cfg,
         lc_registration_token = cfg_registration_token cfg\<rparr>
      else \<lparr>lc_node_id = Some (fst (last (registrations past))),
            lc_node_secret = Some (snd (last (registrations past))), lc_registration_token = None\<rparr>)"

text \<open>The frame a connection has to authenticate with, after the events before it.\<close>

definition frame_due :: "wire \<Rightarrow> gateway_config \<Rightarrow> client_event list \<Rightarrow> string \<Rightarrow> bool" where
  "frame_due w cfg past f =
     (let v = cfg_software_version cfg; d = cfg_device_type cfg in
      if registrations past \<noteq> [] then
        (\<exists>now. f = auth_reconnect w now (fst (last (registrations past))) (snd (last (registrations past))) v d)
      else if has_credentials cfg then
        (\<exists>now. f = auth_reconnect w now (the (cfg_node_id cfg)) (the (cfg_node_secret cfg)) v d)
      else (\<exists>now tok. cfg_registration_token cfg = Some tok \<and> f = auth_register w now tok v d))"

fun frames_due :: "wire \<Rightarrow> gateway_config \<Rightarrow> client_event list \<Rightarrow> client_event list \<Rightarrow> bool" where
  "frames_due w cfg past [] = True"
| "frames_due w cfg past (x # es) =
     ((case x of Authenticates f \<Rightarrow> frame_due w cfg past f | _ \<Rightarrow> True) \<and> frames_due w cfg (past @ [x]) es)"

lemma frames_due_append:
  "frames_due w cfg past (a @ b) \<longleftrightarrow> frames_due w cfg past a \<and> frames_due w cfg (past @ a) b"
  by (induction a arbitrary: past) auto

lemma frames_due_at: "frames_due w cfg past (pre @ Authenticates f # post) \<Longrightarrow> frame_due w cfg (past @ pre) f"
  by (simp add: frames_due_append)

lemma auth_frame_due:
  assumes "auth_frame w now c = Inr f" and "gc_credentials c = latest_credentials (gc_cfg c) past"
  shows "frame_due w (gc_cfg c) past f"
  using assms by (auto simp: auth_frame_def latest_credentials_def frame_due_def has_credentials_def Let_def
      split: option.splits if_splits)

lemma one_connection_credentials:
  assumes "one_connection parse e w at url c = (c1, evs, out)"
    and "gc_credentials c = latest_credentials (gc_cfg c) past"
  shows "frames_due w (gc_cfg c) past evs \<and> gc_credentials c1 = latest_credentials (gc_cfg c) (past @ evs)
     \<and> called_back evs = (if gc_on_register c then registrations evs else [])"
  using assms(1)
proof (cases rule: one_connection_cases)
  case (session f out called ws fin c0)
  show ?thesis
    using session auth_frame_due [OF session(1) assms(2)] assms(2)
    by (cases out) (auto simp: latest_credentials_def)
qed (use assms(2) auth_frame_due in \<open>auto simp: latest_credentials_def\<close>)

fun client_of :: "run_next \<Rightarrow> gateway_client" where
  "client_of (Retries s) = rs_client s"
| "client_of (InSession c) = c"
| "client_of (Breaks c) = c"

definition client_trace :: "wire \<Rightarrow> gateway_client \<Rightarrow> client_event list \<Rightarrow> client_event list \<Rightarrow> gateway_client \<Rightarrow> bool" where
  "client_trace w c past evs c' =
     (frames_due w (gc_cfg c) past evs \<and> gc_credentials c' = latest_credentials (gc_cfg c) (past @ evs)
      \<and> called_back evs = (if gc_on_register c then registrations evs else [])
      \<and> gc_cfg c' = gc_cfg c \<and> gc_on_register c' = gc_on_register c)"

lemma client_trace_append:
  "client_trace w c past a c1 \<Longrightarrow> client_trace w c1 (past @ a) b c2 \<Longrightarrow> client_trace w c past (a @ b) c2"
  by (auto simp: client_trace_def frames_due_append)

lemma run_attempt_credentials:
  assumes "run_attempt parse e w at s = (evs, n)"
    and "gc_credentials (rs_client s) = latest_credentials (gc_cfg (rs_client s)) past"
  shows "client_trace w (rs_client s) past evs (client_of n)"
  using assms(1)
proof (cases rule: run_attempt_cases)
  case cancelled
  then show ?thesis using assms(2) by (simp add: client_trace_def)
next
  case (running url evs1 c1)
  then show ?thesis
    using one_connection_credentials [OF running(1), of "past @ [Dials url]"] one_connection_keeps [OF running(1)] assms(2)
    by (auto simp: client_trace_def latest_credentials_def)
next
  case (ended url evs1 c1 res tail)
  have "frames_due w cfg p tail" "registrations tail = []" "called_back tail = []" for cfg p
    using ended(4) by (auto simp: Let_def)
  moreover have "gc_credentials (client_of n) = gc_credentials c1" "gc_cfg (client_of n) = gc_cfg c1"
    "gc_on_register (client_of n) = gc_on_register c1"
    using ended(4) by (auto simp: Let_def split: if_splits)
  ultimately show ?thesis
    using one_connection_credentials [OF ended(1), of "past @ [Dials url]"] one_connection_keeps [OF ended(1)] assms(2) ended(3)
    by (auto simp: client_trace_def latest_credentials_def frames_due_append)
qed

lemma run_loop_credentials:
  "run_loop parse e w ats s = (evs, n) \<Longrightarrow>
   gc_credentials (rs_client s) = latest_credentials (gc_cfg (rs_client s)) past \<Longrightarrow>
     client_trace w (rs_client s) past evs (client_of n)"
proof (induction ats arbitrary: s evs past)
  case Nil
  then show ?case by (auto simp: client_trace_def)
next
  case (Cons at ats)
  obtain evs1 n1 where run: "run_attempt parse e w at s = (evs1, n1)" by fastforce
  have 1: "client_trace w (rs_client s) past evs1 (client_of n1)" by (rule run_attempt_credentials [OF run Cons.prems(2)])
  show ?case
  proof (cases n1)
    case (Retries s')
    then obtain evs' where rest: "run_loop parse e w ats s' = (evs', n)" "evs = evs1 @ evs'"
      using Cons.prems(1) run by (auto split: prod.splits)
    have "client_trace w (rs_client s') (past @ evs1) evs' (client_of n)"
      by (rule Cons.IH [OF rest(1)]) (use 1 Retries in \<open>simp add: client_trace_def\<close>)
    then show ?thesis using client_trace_append [OF 1] Retries rest(2) by simp
  qed (use Cons.prems(1) run 1 in auto)
qed

subsection \<open>The link\<close>

lemma turns_do_not_ask_shutdown: "loop_turn w now version input e wk = (ws, Some r, wk') \<Longrightarrow> r \<noteq> ShutdownRequested"
  by (auto simp: loop_turn_def after_write_def split: loop_input.splits option.splits inbound.splits
      prod.splits routed.splits sum.splits)

lemma loop_does_not_ask_shutdown: "drive_session w version turns wk = (ws, Some r, wk') \<Longrightarrow> r \<noteq> ShutdownRequested"
proof (induction turns arbitrary: wk ws)
  case (Cons turn turns)
  obtain now m input e where t: "turn = (now, m, input, e)" by (cases turn)
  obtain ws1 r1 wk1 where run: "loop_turn w now version input e (worker_moved m wk) = (ws1, r1, wk1)"
    by (cases "loop_turn w now version input e (worker_moved m wk)")
  show ?case using Cons turns_do_not_ask_shutdown run t
    by (cases r1) (fastforce split: prod.splits)+
qed simp

lemma session_shutdown: "run_session w version turns stop = (ws, Some ShutdownRequested) \<Longrightarrow> stop = ShutdownFirst"
  by (auto simp: run_session_def dest: loop_does_not_ask_shutdown split: prod.splits option.splits session_stop.splits)

lemma shutdown_asked:
  assumes "one_connection parse e w at url c = (c1, evs, Some res)" and "shutdown_seen res"
  shows "asks_shutdown at"
proof -
  have res: "res = Inr ShutdownRequested"
    using assms(2) by (auto simp: shutdown_seen_def split: sum.splits connection_result.splits)
  show ?thesis
    using assms(1) unfolding res
    by (auto simp: one_connection_def asks_shutdown_def bindR_def map_err_def dial_stage_def authenticate_def
        dest!: session_shutdown elim!: send_auth.elims receive_auth.elims
        split: sum.splits option.splits prod.splits)
qed

definition admitted :: "wire \<Rightarrow> ('tcp, 'ws) conn_attempt \<Rightarrow> bool" where
  "admitted w at = (at_dial at \<noteq> None \<and> at_sent at = AuthSent
     \<and> (\<exists>t. at_reply at = AuthText t \<and> is_ok (parse_auth_response w t)))"

lemma authenticate_Inr:
  "authenticate w sent reply = Inr out \<longleftrightarrow>
     sent = AuthSent \<and> (\<exists>t. reply = AuthText t \<and> parse_auth_response w t = Inr out)"
  by (cases sent; cases reply) (auto simp: authenticate_def bindR_def map_err_def split: sum.splits)

lemma one_connection_link:
  assumes "one_connection parse e w at url c = (c1, evs, out)" and "\<not> is_connected (gc_state c)"
  shows "is_connected (gc_state c1) \<longleftrightarrow> LinkUp \<in> set evs" and "LinkUp \<in> set evs \<Longrightarrow> admitted w at"
    and "out = None \<Longrightarrow> LinkUp \<in> set evs" and "LinkDown r \<notin> set evs"
proof -
  have dial: "at_dial at \<noteq> None" if "LinkUp \<in> set evs"
    using assms(1) that by (auto simp: one_connection_def dial_stage_def bindR_def split: sum.splits option.splits)
  show "admitted w at" if "LinkUp \<in> set evs"
    using assms(1) dial [OF that] that
    by (cases rule: one_connection_cases) (auto simp: admitted_def authenticate_Inr is_ok_def)
  show "is_connected (gc_state c1) \<longleftrightarrow> LinkUp \<in> set evs" "out = None \<Longrightarrow> LinkUp \<in> set evs"
    using assms by (cases rule: one_connection_cases; auto simp: is_connected_def set_connected_def)+
  show "LinkDown r \<notin> set evs"
  proof
    assume "LinkDown r \<in> set evs"
    then obtain a b where "evs = a @ LinkDown r # b" by (auto simp: in_set_conv_decomp)
    then show False using one_connection_keeps(5) [OF assms(1)] by simp
  qed
qed

lemma run_attempt_link:
  assumes "run_attempt parse e w at s = (evs, n)" and "\<not> is_connected (gc_state (rs_client s))"
  shows "(LinkUp \<in> set evs \<longrightarrow> admitted w at)
    \<and> gc_outbound (client_of n) = gc_outbound (rs_client s)
    \<and> (case n of Retries s' \<Rightarrow> \<not> is_connected (gc_state (rs_client s'))
         | InSession c \<Rightarrow> is_connected (gc_state c) \<and> LinkUp \<in> set evs
         | Breaks c \<Rightarrow> \<not> is_connected (gc_state c) \<and> asks_shutdown at)"
  using assms(1)
proof (cases rule: run_attempt_cases)
  case cancelled
  then show ?thesis using assms(2) by (simp add: asks_shutdown_def)
next
  case (running url evs1 c1)
  then show ?thesis using one_connection_link [OF running(1) assms(2)] one_connection_keeps(2) [OF running(1)] by auto
next
  case (ended url evs1 c1 res tail)
  have down: "\<not> is_connected (set_disconnected st)" for st by (simp add: is_connected_def set_disconnected_def)
  have "LinkUp \<notin> set tail" using ended(4) by (auto simp: Let_def)
  then show ?thesis
    using ended(3,4) one_connection_link [OF ended(1) assms(2)] one_connection_keeps(2) [OF ended(1)]
      shutdown_asked [OF ended(1)] down
    by (auto simp: Let_def asks_shutdown_def split: if_splits)
qed

lemma run_loop_link:
  "run_loop parse e w ats s = (evs, n) \<Longrightarrow> \<not> is_connected (gc_state (rs_client s)) \<Longrightarrow>
    (LinkUp \<in> set evs \<longrightarrow> (\<exists>at\<in>set ats. admitted w at))
    \<and> gc_outbound (client_of n) = gc_outbound (rs_client s)
    \<and> (case n of Retries s' \<Rightarrow> \<not> is_connected (gc_state (rs_client s'))
         | InSession c \<Rightarrow> is_connected (gc_state c) \<and> LinkUp \<in> set evs
         | Breaks c \<Rightarrow> \<not> is_connected (gc_state c) \<and> (\<exists>at\<in>set ats. asks_shutdown at))"
proof (induction ats arbitrary: s evs)
  case (Cons at ats)
  obtain evs1 n1 where run: "run_attempt parse e w at s = (evs1, n1)" by fastforce
  note 1 = run_attempt_link [OF run Cons.prems(2)]
  show ?case
  proof (cases n1)
    case (Retries s')
    then obtain evs' where rest: "run_loop parse e w ats s' = (evs', n)" "evs = evs1 @ evs'"
      using Cons.prems(1) run by (auto split: prod.splits)
    then show ?thesis using Cons.IH [OF rest(1)] 1 Retries by (auto split: run_next.splits)
  qed (use Cons.prems(1) run 1 in auto)
qed auto

subsection \<open>A client to try\<close>

text \<open>A gateway with a token that is registered and whose session closes cleanly, and that then twice cannot
  resolve the manager's name.\<close>

definition sample_gateway :: gateway_config where
  "sample_gateway = (minimal_config ''wss://m'' ''gw'' ''1.0'')\<lparr>cfg_registration_token := Some ''tok''\<rparr>"

definition sample_urls :: url_parser where
  "sample_urls u = Inr \<lparr>url_scheme = ''wss'', url_host_of = Some (Domain ''m''), url_host_str = Some ''m'',
     url_port_or_known_default = Some 443\<rparr>"

definition sample_wire :: wire where
  "sample_wire = \<lparr>w_to_text = (\<lambda>_. ''frame''), w_of_text = (\<lambda>_. Inr (json_obj [(''type'', JStr ''register_ack''),
     (''payload'', json_obj [(''node_id'', JStr ''n1''), (''node_secret'', JStr ''s1'')])]))\<rparr>"

definition sample_attempt :: "(string + socket_addr list) option \<Rightarrow> (unit, unit) conn_attempt" where
  "sample_attempt found = \<lparr>at_cancelled_before = False, at_verifier = Inr (),
     at_dial = Some \<lparr>dw_lookup = (\<lambda>_ _. found), dw_connect = (\<lambda>_. Some (Inr ())), dw_upgrade = (\<lambda>_ _. Some (Inr ()))\<rparr>,
     at_now = ''now'', at_sent = AuthSent, at_reply = AuthText ''reply'', at_clock = Some 1700000000,
     at_turns = [(''now'', WorkerTook 0, FromManager (Some (InClosed None)), Written)], at_stop = KeepsRunning,
     at_cancelled_after = False, at_cancelled_asleep = False\<rparr>"

definition sample_attempts :: "(unit, unit) conn_attempt list" where
  "sample_attempts = [sample_attempt (Some (Inr [V4 1 443])), sample_attempt None, sample_attempt None]"

definition sample_client :: gateway_client where
  "sample_client = \<lparr>gc_cfg = sample_gateway, gc_outbound = chan_new 256,
     gc_credentials = \<lparr>lc_node_id = None, lc_node_secret = None, lc_registration_token = Some ''tok''\<rparr>,
     gc_on_register = False, gc_state = connection_state_new\<rparr>"

definition sample_trace :: "client_event list" where
  "sample_trace = [Dials ''wss://m'', Authenticates ''frame'', RegistersAs ''n1'' ''s1'', LinkUp, Writes [],
     LinkDown (Inr AuthenticatedThenClosed), Waits (secs 1),
     Dials ''wss://m'', LinkDown (Inl (WebSocket (DnsTimedOut ''m'' 30))), Waits (secs 2),
     Dials ''wss://m'', LinkDown (Inl (WebSocket (DnsTimedOut ''m'' 30))), Waits (secs 5)]"

lemma sample_connects: "connect sample_urls (\<lambda>_. None) sample_gateway = Inr sample_client"
  by (simp add: connect_def validate_config_def sample_gateway_def minimal_config_def sample_urls_def
      sample_client_def starts_with_def default_heartbeat_def outbound_channel_size_def bindR_def)

lemmas sample_defs = sample_gateway_def minimal_config_def sample_attempt_def sample_urls_def sample_wire_def
  one_connection_def build_tls_config_def build_standard_config_def dial_stage_def dial_manager_def
  manager_host_port_def interleave_families_def auth_frame_def auth_register_def envelope_def authenticate_def
  parse_auth_response_def set_connected_def run_session_def loop_turn_def connection_state_new_def
  bindR_def map_err_def ok_or_def run_attempt_def closed_cleanly_def shutdown_seen_def set_disconnected_def
  delay_for_attempt_def saturating_inc_def reconnect_backoff_default_def dial_timeout_def

lemma sample_client_run:
  "\<exists>n. run_loop sample_urls (\<lambda>_. None) sample_wire sample_attempts (run_start sample_client) = (sample_trace, Retries n)
     \<and> gc_credentials (rs_client n) = \<lparr>lc_node_id = Some ''n1'', lc_node_secret = Some ''s1'', lc_registration_token = None\<rparr>"
  by (simp add: sample_attempts_def run_start_def sample_client_def sample_trace_def sample_defs)

subsection \<open>Properties\<close>

lemma connect_Inr:
  assumes "connect parse e cfg = Inr c"
  shows "gc_cfg c = cfg" "config_ok parse e cfg" "gc_credentials c = latest_credentials cfg []"
    "\<not> is_connected (gc_state c)" "gc_on_register c = False"
  using assms validate_config_ok [of parse e cfg]
  by (auto simp: connect_def latest_credentials_def is_connected_def connection_state_new_def result_simps)

text \<open>C10: the manager URLs are tried in turn and the delays grow until a clean close. A connected client
  dials URL \<open>i mod n\<close> at its \<open>i\<close>-th attempt, and after its \<open>i\<close>-th attempt waits the policy's delay for the
  number of attempts since the last clean close, which itself counts as one; a session that was lost does not
  reset the count, and the count stops at \<open>2\<^sup>3\<^sup>2 - 1\<close>.\<close>

theorem reconnects_in_turn_with_backoff:
  assumes "connect parse e cfg = Inr c" and "run_loop parse e w ats (run_start c) = (evs, n)"
    and "length ats < 2 ^ 64"
  shows "(\<forall>i<length (dials evs). dials evs ! i = cfg_manager_urls cfg ! (i mod length (cfg_manager_urls cfg)))
    \<and> (\<forall>i<length (waits evs). i < length (outcomes evs) \<and> waits evs ! i
         = delay_for_attempt (cfg_reconnect_backoff cfg) (counter_of (attempts_counted (take (Suc i) (outcomes evs)))))"
  using run_loop_schedule [OF assms(2), of "[]" cfg] assms(3) connect_Inr [OF assms(1)]
  by (auto simp: run_start_def attempts_counted_def)

theorem reconnects_in_turn_with_backoff_witness:
  "\<exists>n. run_loop sample_urls (\<lambda>_. None) sample_wire sample_attempts (run_start sample_client) = (sample_trace, Retries n)
     \<and> dials sample_trace ! 2 = ''wss://m''
     \<and> secs 5 = delay_for_attempt reconnect_backoff_default (counter_of 3)"
proof -
  obtain n where run: "run_loop sample_urls (\<lambda>_. None) sample_wire sample_attempts (run_start sample_client) = (sample_trace, Retries n)"
    using sample_client_run by blast
  have t: "waits sample_trace = [secs 1, secs 2, secs 5]" "length (dials sample_trace) = 3"
    "outcomes sample_trace = [Inr AuthenticatedThenClosed, Inl (WebSocket (DnsTimedOut ''m'' 30)), Inl (WebSocket (DnsTimedOut ''m'' 30))]"
    by (simp_all add: sample_trace_def)
  have "attempts_counted (take (Suc 2) (outcomes sample_trace)) = 3"
    by (simp add: t attempts_counted_def closed_cleanly_def)
  then show ?thesis
    using reconnects_in_turn_with_backoff [OF sample_connects run] run t
    by (auto simp: sample_attempts_def sample_gateway_def minimal_config_def)
qed

text \<open>C12: every connection authenticates with the newest credentials. The auth frame is a reconnect with the
  pair of the last registration once there was one, with the configured pair if there is one, and otherwise a
  registration with the configured token, which is never sent again after it was accepted. The client ends with
  that pair, and the callback was called with exactly the registered pairs, in order.\<close>

theorem newest_credentials_are_used:
  assumes "connect parse e cfg = Inr c0" and "c = c0 \<or> c = on_register c0"
    and "run_loop parse e w ats (run_start c) = (evs, n)"
  shows "(\<forall>pre f post. evs = pre @ Authenticates f # post \<longrightarrow> frame_due w cfg pre f)
    \<and> current_credentials (client_of n) = (if registrations evs = [] then (cfg_node_id cfg, cfg_node_secret cfg)
         else map_prod Some Some (last (registrations evs)))
    \<and> called_back evs = (if c = c0 then [] else registrations evs)
    \<and> (\<exists>f. auth_frame w now (client_of n) = Inr f)"
proof -
  note c0 = connect_Inr [OF assms(1)]
  have c: "gc_cfg c = cfg" "gc_credentials c = latest_credentials cfg []"
    using c0 assms(2) by (auto simp: on_register_def)
  have t: "client_trace w c [] evs (client_of n)"
    using run_loop_credentials [OF assms(3), of "[]"] c by (simp add: run_start_def)
  have reg: "gc_on_register c \<longleftrightarrow> c \<noteq> c0" using assms(2) c0(5) by (auto simp: on_register_def)
  have "frame_due w cfg pre f" if "evs = pre @ Authenticates f # post" for pre f post
    using t that c frames_due_at [of w cfg "[]" pre f post] by (simp add: client_trace_def)
  moreover have "\<exists>f. auth_frame w now (client_of n) = Inr f"
    using t c c0(2) by (auto simp: client_trace_def auth_frame_def latest_credentials_def config_ok_def has_credentials_def)
  ultimately show ?thesis
    using t c reg
    by (auto simp: client_trace_def current_credentials_def latest_credentials_def map_prod_def case_prod_beta)
qed

theorem newest_credentials_are_used_witness:
  "\<exists>n. run_loop sample_urls (\<lambda>_. None) sample_wire sample_attempts (run_start sample_client) = (sample_trace, Retries n)
     \<and> frame_due sample_wire sample_gateway [Dials ''wss://m''] ''frame''
     \<and> current_credentials (rs_client n) = (Some ''n1'', Some ''s1'')"
proof -
  obtain n where run: "run_loop sample_urls (\<lambda>_. None) sample_wire sample_attempts (run_start sample_client) = (sample_trace, Retries n)"
    using sample_client_run by blast
  have "sample_trace = [Dials ''wss://m''] @ Authenticates ''frame'' # drop 2 sample_trace"
    by (simp add: sample_trace_def)
  moreover have "registrations sample_trace = [(''n1'', ''s1'')]" by (simp add: sample_trace_def)
  moreover note props = newest_credentials_are_used [OF sample_connects disjI1 [OF refl] run, of undefined]
  ultimately show ?thesis
    using props [THEN conjunct1, rule_format, of "[Dials ''wss://m'']" "''frame''" "drop 2 sample_trace"] run by auto
qed

text \<open>C20: the link flag is up exactly while a session runs, and only shutdown ends the client. The flag
  comes up only for a connection whose auth frame went out and whose reply was accepted, is up when the loop is
  in a session and down whenever it retries or has ended; the loop ends only when shutdown was asked for; and
  then every send of an emitter fails as closed.\<close>

theorem link_is_up_only_in_a_session:
  assumes "connect parse e cfg = Inr c" and "run_loop parse e w ats (run_start c) = (evs, n)"
  shows "(LinkUp \<in> set evs \<longrightarrow> (\<exists>at\<in>set ats. admitted w at))
    \<and> (case n of
         Retries s \<Rightarrow> \<not> is_connected (gc_state (rs_client s))
       | InSession c' \<Rightarrow> is_connected (gc_state c') \<and> LinkUp \<in> set evs
       | Breaks c' \<Rightarrow> \<not> is_connected (gc_state c') \<and> (\<exists>at\<in>set ats. asks_shutdown at)
           \<and> send_envelope w now ty p (gc_outbound (fst (run_ends b c'))) = EmitFailed (Channel ChannelClosed))"
  using run_loop_link [OF assms(2)] connect_Inr(4) [OF assms(1)]
  by (auto simp: run_start_def run_ends_def send_envelope_def close_rx_def try_send_def Let_def split: run_next.splits)

theorem link_is_up_only_in_a_session_witness:
  "\<exists>n. run_loop sample_urls (\<lambda>_. None) sample_wire sample_attempts (run_start sample_client) = (sample_trace, Retries n)
     \<and> \<not> is_connected (gc_state (rs_client n)) \<and> (\<exists>at\<in>set sample_attempts. admitted sample_wire at)"
proof -
  obtain n where run: "run_loop sample_urls (\<lambda>_. None) sample_wire sample_attempts (run_start sample_client) = (sample_trace, Retries n)"
    using sample_client_run by blast
  have "LinkUp \<in> set sample_trace" by (simp add: sample_trace_def)
  then show ?thesis using link_is_up_only_in_a_session [OF sample_connects run] run by simp
qed

end
