(* ===== verification/UpgradeErrors.thy ===== *)
theory UpgradeErrors
  imports Prelude
begin

section \<open>Errors of the self-upgrade (anyhow chains, UpgradeError, error_codes in src/upgrade/mod.rs)\<close>

text \<open>
  An \<open>anyhow::Error\<close> is its chain of messages, the outermost context first; \<open>to_string()\<close> prints only
  that first one. A message is one constructor per message of the source, with the values it
  interpolates; text made by a third-party crate or the operating system is \<open>Source\<close>.
\<close>

datatype manifest_msg =
    VersionMismatch string string
  | ChannelMismatch string string
  | DeviceTypeMismatch string string
  | NoArtefacts
  | MalformedSha256 string string
  | ArchLength
  | VariantLength
  | UrlUnreadable string string
  | UrlNotHttps string
  | UrlHostless string
  | UrlHostNotListed string string
  | UrlTooLarge string
  | NotSemver string string
  | MinNotSemver string string
  | BelowMinVersion
  | SameVersion
  | MajorBoundary
  | BeyondRollbackGrace nat

datatype download_msg =
    ClientBuildFailed
  | HttpStatus nat string
  | BodyUnreadable string
  | ManifestTooLarge string nat
  | BodyNotUtf8 string
  | NetworkError string string
  | FetchTextExhausted
  | BadExpectedSha256 string
  | ContentLengthOverCap string nat
  | ChunkUnreadable string
  | BodyOverCap string
  | ChecksumMismatch string string string nat
  | FetchShaExhausted

datatype verify_msg =
    AllowlistEmpty
  | BundleUnreadable
  | BundleNoCert
  | BundleNoSignature
  | FulcioRekorFailed
  | IdentityUnreadable
  | IdentityNotAllowed "string option" "string option" "string option" "string option"
  | BlobSignatureFailed

datatype chain_msg =
    TrustRootFailed
  | FulcioUnavailable string
  | RekorKeyUnavailable string
  | RekorBundleMissing
  | ChainFailed
  | ValidityFailed
  | RekorBodyFailed
  | RekorSetFailed
  | UnsupportedOid string
  | LeafUnreadable string
  | TbsReencode string
  | SignatureNotOctets
  | NotChained
  | OutsideValidity int int int
  | RekorBodyBase64
  | RekorBodyJson
  | RekorBodyNoHash
  | RekorHashMismatch string string
  | RekorBodyNoKey
  | RekorKeyBase64
  | RekorKeyNotUtf8
  | RekorKeyPem
  | RekorCertMismatch
  | SetBase64
  | SetUnverified
  | SignatureBase64
  | CertNotPem
  | SpkiEncode string
  | KeyUnloadable
  | SignatureUnverified
  | CertFieldUnreadable
  | CertFieldNotUtf8
  | CertFieldNotBlock
  | PemBodyBase64

datatype install_msg =
    IoContext string "string list"
  | StageVersionMismatch string string
  | TarEntryAbsolute
  | TarEntryParent
  | TarEntryEscapes
  | BinaryMissing string
  | NoManualStaged
  | StagedDirMissing "string list"
  | NoPreviousVersion
  | PreviousDirMissing "string list"

datatype up_msg =
    Source string
  | Manifest manifest_msg
  | Download download_msg
  | Verify verify_msg
  | Chain chain_msg
  | Install install_msg

type_synonym anyhow = "up_msg list"

definition with_context :: "up_msg \<Rightarrow> anyhow + 'a \<Rightarrow> anyhow + 'a" where
  "with_context c r = map_err (\<lambda>e. c # e) r"

definition with_source :: "up_msg \<Rightarrow> string + 'a \<Rightarrow> anyhow + 'a" where
  "with_source c r = map_err (\<lambda>e. [c, Source e]) r"

text \<open>\<open>UpgradeError\<close> keeps what \<open>to_string()\<close> printed: a text of its own or the first message of the
  error it wraps.\<close>

datatype upgrade_msg =
    AlreadyStaging
  | UpgradesDisabled
  | ChannelNotAllowed string "string list"
  | VersionNotSemver string string
  | CurrentNotSemver string string
  | FirstOf anyhow
  | ManifestFetchFailed anyhow
  | BundleFetchFailed anyhow
  | ManifestJson string
  | SequenceTooOld u64 u64
  | NoArtefactFor string string
  | ManualDeferred
  | StateWriteFailed anyhow

record upgrade_error =
  ue_code :: string
  ue_message :: upgrade_msg

definition upgrade_error_new :: "string \<Rightarrow> upgrade_msg \<Rightarrow> upgrade_error" where
  "upgrade_error_new code msg = \<lparr>ue_code = code, ue_message = msg\<rparr>"

text \<open>\<open>UpgradeEvent\<close>, its message one constructor per message of the source.\<close>

datatype upgrade_event_msg =
    StagingTo string string string string
  | DownloadedBytes nat
  | StagedTo string
  | RolledBackFromTo string string
  | FailedAndReverted string "string option"
  | StableAfter string nat

record upgrade_event =
  ue_severity :: string
  ue_error_code :: string
  ue_from_version :: "string option"
  ue_to_version :: "string option"
  ue_channel :: "string option"
  ue_event_message :: upgrade_event_msg
  ue_size_bytes :: "nat option"

end
