(* ===== verification/Manifest.thy ===== *)
theory Manifest
  imports UpgradeErrors Externals
begin

section \<open>Manifest, URL whitelist and version window (src/upgrade/manifest.rs), upgrade policy (src/upgrade/mod.rs)\<close>

text \<open>
  \<open>Manifest\<close> with \<open>validate_request\<close> and \<open>pick_artefact\<close>, the URL and redirect host checks, and the
  version window. \<open>url::Url::parse\<close> and \<open>semver\<close> are not in the repository: they are arguments. A
  \<open>semver::Version\<close> is a record with 64-bit numbers, its order an argument.
\<close>

record upgrade_config =
  uc_enabled :: bool
  uc_allowed_channels :: "string list"
  uc_min_version :: "string option"
  uc_rollback_grace :: u32
  uc_install_root :: "string list"
  uc_boot_health_window_secs :: u32
  uc_max_boot_attempts :: u32
  uc_manual_only :: bool

definition upgrade_config_default :: upgrade_config where
  "upgrade_config_default =
     \<lparr>uc_enabled = False, uc_allowed_channels = [''stable''], uc_min_version = None,
      uc_rollback_grace = 1, uc_install_root = [''opt'', ''bilbycast'', ''gateway''],
      uc_boot_health_window_secs = 120, uc_max_boot_attempts = 3, uc_manual_only = False\<rparr>"

record artefact =
  ma_arch :: string
  ma_variant :: string
  ma_url :: string
  ma_sha256 :: string

record manifest =
  mf_version :: string
  mf_device_type :: string
  mf_channel :: string
  mf_released_at :: string
  mf_sequence :: u64
  mf_artefacts :: "artefact list"

definition allowed_url_hosts :: "string list" where
  "allowed_url_hosts =
     [''github.com'', ''release-assets.githubusercontent.com'', ''objects.githubusercontent.com'']"

definition validate_url_host :: "url_parser \<Rightarrow> string \<Rightarrow> anyhow + unit" where
  "validate_url_host parse u =
     bindR (map_err (\<lambda>e. [Manifest (UrlUnreadable u e)]) (parse u)) (\<lambda>parsed.
     bindR (bail_if (url_scheme parsed \<noteq> ''https'') [Manifest (UrlNotHttps u)]) (\<lambda>_.
     bindR (ok_or [Manifest (UrlHostless u)] (url_host_str parsed)) (\<lambda>host.
     bindR (bail_if (host \<notin> set allowed_url_hosts) [Manifest (UrlHostNotListed u host)]) (\<lambda>_.
     bail_if (length u > 2048) [Manifest (UrlTooLarge u)]))))"

text \<open>The loop body of \<open>validate_request\<close>. The digest is counted in bytes and its characters are
  all ASCII hexadecimal digits.\<close>

definition validate_artefact :: "url_parser \<Rightarrow> artefact \<Rightarrow> anyhow + unit" where
  "validate_artefact parse a =
     bindR (validate_url_host parse (ma_url a)) (\<lambda>_.
     bindR (bail_if (length (ma_sha256 a) \<noteq> 64 \<or> \<not> list_all is_hexdigit (ma_sha256 a))
              [Manifest (MalformedSha256 (ma_arch a) (ma_sha256 a))]) (\<lambda>_.
     bindR (bail_if (ma_arch a = [] \<or> length (ma_arch a) > 64) [Manifest ArchLength]) (\<lambda>_.
     bail_if (ma_variant a = [] \<or> length (ma_variant a) > 32) [Manifest VariantLength])))"

definition validate_request ::
  "url_parser \<Rightarrow> manifest \<Rightarrow> string \<Rightarrow> string \<Rightarrow> string \<Rightarrow> anyhow + unit" where
  "validate_request parse m version channel device_type =
     bindR (bail_if (mf_version m \<noteq> version) [Manifest (VersionMismatch version (mf_version m))]) (\<lambda>_.
     bindR (bail_if (mf_channel m \<noteq> channel) [Manifest (ChannelMismatch channel (mf_channel m))]) (\<lambda>_.
     bindR (bail_if (mf_device_type m \<noteq> device_type)
              [Manifest (DeviceTypeMismatch device_type (mf_device_type m))]) (\<lambda>_.
     bindR (bail_if (mf_artefacts m = []) [Manifest NoArtefacts]) (\<lambda>_.
     all_ok (validate_artefact parse) (mf_artefacts m)))))"

definition pick_artefact :: "manifest \<Rightarrow> string \<Rightarrow> string \<Rightarrow> artefact option" where
  "pick_artefact m arch variant =
     List.find (\<lambda>a. ma_arch a = arch \<and> ma_variant a = variant) (mf_artefacts m)"

definition redirect_host_allowed :: "string \<Rightarrow> bool" where
  "redirect_host_allowed host =
     (host = ''github.com'' \<or> host = ''githubusercontent.com''
      \<or> ends_with ''.githubusercontent.com'' host)"

subsection \<open>Versions\<close>

record semver =
  sv_major :: u64
  sv_minor :: u64
  sv_patch :: u64
  sv_pre :: string
  sv_build :: string

record semver_lib =
  sl_parse :: "string \<Rightarrow> string + semver"
  sl_show :: "semver \<Rightarrow> string"
  sl_less :: "semver \<Rightarrow> semver \<Rightarrow> bool"

definition derive_release_base_url ::
  "url_parser \<Rightarrow> semver_lib \<Rightarrow> string \<Rightarrow> string \<Rightarrow> anyhow + string" where
  "derive_release_base_url parse sv repo version =
     bindR (map_err (\<lambda>e. [Manifest (NotSemver version e)]) (sl_parse sv version)) (\<lambda>v.
     let u = ''https://github.com/'' @ repo @ ''/releases/download/v'' @ sl_show sv v in
     bindR (validate_url_host parse u) (\<lambda>_. Inr u))"

text \<open>The sum of the minor version and the grace is a sum of 64-bit words: it wraps, as it does in a release
  build (a debug build panics there instead).\<close>

definition check_version_window ::
  "semver_lib \<Rightarrow> semver \<Rightarrow> semver \<Rightarrow> upgrade_config \<Rightarrow> anyhow + unit" where
  "check_version_window sv target_v current_v cfg =
     bindR (case uc_min_version cfg of
              None \<Rightarrow> Inr ()
            | Some min_str \<Rightarrow>
                bindR (map_err (\<lambda>e. [Manifest (MinNotSemver min_str e)]) (sl_parse sv min_str)) (\<lambda>min.
                bail_if (sl_less sv target_v min) [Manifest BelowMinVersion])) (\<lambda>_.
     bindR (bail_if (target_v = current_v) [Manifest SameVersion]) (\<lambda>_.
     bindR (bail_if (sv_major target_v \<noteq> sv_major current_v) [Manifest MajorBoundary]) (\<lambda>_.
     bail_if (sv_minor target_v + ucast (uc_rollback_grace cfg) < sv_minor current_v)
       [Manifest (BeyondRollbackGrace (unat (uc_rollback_grace cfg)))])))"

subsection \<open>What is accepted\<close>

definition url_host_ok :: "url_parser \<Rightarrow> string \<Rightarrow> bool" where
  "url_host_ok parse u =
     (case parse u of
        Inl _ \<Rightarrow> False
      | Inr p \<Rightarrow> url_scheme p = ''https''
          \<and> (case url_host_str p of None \<Rightarrow> False | Some h \<Rightarrow> h \<in> set allowed_url_hosts)
          \<and> length u \<le> 2048)"

definition artefact_ok :: "url_parser \<Rightarrow> artefact \<Rightarrow> bool" where
  "artefact_ok parse a =
     (url_host_ok parse (ma_url a) \<and> length (ma_sha256 a) = 64 \<and> list_all is_hexdigit (ma_sha256 a)
      \<and> ma_arch a \<noteq> [] \<and> length (ma_arch a) \<le> 64 \<and> ma_variant a \<noteq> [] \<and> length (ma_variant a) \<le> 32)"

lemma validate_url_host_iff: "validate_url_host parse u = Inr () \<longleftrightarrow> url_host_ok parse u"
  by (auto simp: validate_url_host_def url_host_ok_def result_simps split: sum.splits option.splits)

lemma validate_artefact_iff: "validate_artefact parse a = Inr () \<longleftrightarrow> artefact_ok parse a"
  by (auto simp: validate_artefact_def artefact_ok_def result_simps validate_url_host_iff)

lemma validate_request_iff:
  "validate_request parse m version channel device_type = Inr () \<longleftrightarrow>
     mf_version m = version \<and> mf_channel m = channel \<and> mf_device_type m = device_type
     \<and> mf_artefacts m \<noteq> [] \<and> list_all (artefact_ok parse) (mf_artefacts m)"
  by (auto simp: validate_request_def result_simps validate_artefact_iff list_all_iff)

lemma pick_artefact_Some:
  "pick_artefact m arch variant = Some a \<Longrightarrow>
     a \<in> set (mf_artefacts m) \<and> ma_arch a = arch \<and> ma_variant a = variant"
  by (auto simp: pick_artefact_def find_Some_iff)

lemma url_host_ok_scheme:
  "url_host_ok parse u \<Longrightarrow>
     \<exists>p h. parse u = Inr p \<and> url_scheme p = ''https'' \<and> url_host_str p = Some h
       \<and> h \<in> set allowed_url_hosts \<and> length u \<le> 2048"
  by (auto simp: url_host_ok_def split: sum.splits option.splits)

lemma derive_release_base_url_ok:
  "derive_release_base_url parse sv repo version = Inr u \<Longrightarrow> url_host_ok parse u"
  by (auto simp: derive_release_base_url_def result_simps Let_def validate_url_host_iff)

text \<open>Every host a declared URL may name is a host a redirect may name.\<close>

lemma allowed_hosts_redirect: "h \<in> set allowed_url_hosts \<Longrightarrow> redirect_host_allowed h"
proof -
  assume "h \<in> set allowed_url_hosts"
  then consider "h = ''github.com''" | "h = ''release-assets'' @ ''.githubusercontent.com''"
    | "h = ''objects'' @ ''.githubusercontent.com''"
    unfolding allowed_url_hosts_def by fastforce
  then show ?thesis unfolding redirect_host_allowed_def ends_with_iff by cases blast+
qed

subsection \<open>Host labels\<close>

text \<open>The labels of a host name, as DNS reads it.\<close>

fun labels :: "string \<Rightarrow> string list" where
  "labels [] = [[]]"
| "labels (c # cs) = (if c = CHR ''.'' then [] # labels cs
      else (case labels cs of l # ls \<Rightarrow> (c # l) # ls | [] \<Rightarrow> [[c]]))"

lemma labels_nonempty: "labels h \<noteq> []"
  by (cases h) (auto split: list.splits)

lemma labels_append_dot: "labels (a @ CHR ''.'' # b) = labels a @ labels b"
proof (induction a)
  case (Cons c a)
  then show ?case using labels_nonempty [of a] by (cases "labels a") auto
qed simp

lemma labels_join: "labels h = l # ls \<Longrightarrow> h = l @ concat (map (\<lambda>x. CHR ''.'' # x) ls)"
proof (induction h arbitrary: l ls)
  case (Cons c h)
  obtain m ms where m: "labels h = m # ms" using labels_nonempty by (cases "labels h") auto
  have h: "h = m @ concat (map (\<lambda>x. CHR ''.'' # x) ms)" by (rule Cons.IH [OF m])
  show ?case
  proof (cases "c = CHR ''.''")
    case True
    then have "l = []" "ls = m # ms" using Cons.prems m by simp_all
    then show ?thesis using True h by (simp only: list.map concat.simps append.simps)
  next
    case False
    then have "l = c # m" "ls = ms" using Cons.prems m by simp_all
    then show ?thesis using h by (simp only: append.simps)
  qed
qed simp

lemma host_of_last_two:
  assumes "labels h = ls @ [a, b]" and "ls \<noteq> []"
  shows "\<exists>sub. h = sub @ CHR ''.'' # a @ CHR ''.'' # b"
proof -
  obtain l ms where ls: "ls = l # ms" using assms(2) by (cases ls) auto
  then have "h = l @ concat (map (\<lambda>x. CHR ''.'' # x) (ms @ [a, b]))"
    using labels_join [of h l "ms @ [a, b]"] assms(1) by simp
  then show ?thesis by (intro exI [of _ "l @ concat (map (\<lambda>x. CHR ''.'' # x) ms)"]) simp
qed

lemma redirect_label_forms:
  "redirect_host_allowed h \<longleftrightarrow>
     h = ''github.com'' \<or> (\<exists>ls. labels h = ls @ [''githubusercontent'', ''com''])"
proof
  assume "redirect_host_allowed h"
  then consider "h = ''github.com''" | "h = ''githubusercontent.com''"
    | sub where "h = sub @ ''.githubusercontent.com''"
    by (auto simp: redirect_host_allowed_def str_simps)
  then show "h = ''github.com'' \<or> (\<exists>ls. labels h = ls @ [''githubusercontent'', ''com''])"
  proof cases
    case 2
    then show ?thesis by (intro disjI2 exI [of _ "[]"]) simp
  next
    case 3
    then show ?thesis using labels_append_dot [of sub "''githubusercontent.com''"] by simp
  qed simp
next
  assume "h = ''github.com'' \<or> (\<exists>ls. labels h = ls @ [''githubusercontent'', ''com''])"
  then consider "h = ''github.com''" | ls where "labels h = ls @ [''githubusercontent'', ''com'']"
    by auto
  then show "redirect_host_allowed h"
  proof cases
    case 2
    show ?thesis
    proof (cases "ls = []")
      case True
      then show ?thesis using labels_join [of h] 2 by (simp add: redirect_host_allowed_def)
    next
      case False
      then show ?thesis
        using host_of_last_two [OF 2] by (auto simp: redirect_host_allowed_def str_simps)
    qed
  qed (simp add: redirect_host_allowed_def)
qed

subsection \<open>Properties\<close>

text \<open>C40: the version window, for every minor version and every grace. A target passes exactly when it is
  not below a configured minimum (which must parse), differs from the installed version, has its major
  version, and its minor version plus the grace, a sum of 64-bit words and so reduced modulo \<open>2 ^ 64\<close>,
  reaches the installed minor version. Below \<open>2 ^ 64\<close> that is the documented window of at most
  \<open>rollback_grace\<close> minor versions back; a sum that wraps can refuse even a target newer than the
  installed version. This is the arithmetic of a release build: a debug build panics on that sum.\<close>

theorem version_window_iff:
  "check_version_window sv target current cfg = Inr () \<longleftrightarrow>
     (case uc_min_version cfg of
        None \<Rightarrow> True
      | Some s \<Rightarrow> (\<exists>min. sl_parse sv s = Inr min \<and> \<not> sl_less sv target min))
     \<and> target \<noteq> current \<and> sv_major target = sv_major current
     \<and> unat (sv_minor current) \<le> (unat (sv_minor target) + unat (uc_rollback_grace cfg)) mod 2 ^ 64"
proof -
  have "unat (ucast (uc_rollback_grace cfg) :: u64) = unat (uc_rollback_grace cfg)"
    using unsigned_less [of "uc_rollback_grace cfg", where 'a = nat]
    by (simp add: unsigned_ucast_eq take_bit_nat_eq_self)
  then have "unat (sv_minor target + ucast (uc_rollback_grace cfg))
      = (unat (sv_minor target) + unat (uc_rollback_grace cfg)) mod 2 ^ 64"
    by (simp add: unat_word_ariths(1))
  then show ?thesis
    by (auto simp: check_version_window_def result_simps word_less_nat_alt split: option.splits)
qed

end
