(* ===== verification/Utf8.thy ===== *)
theory Utf8
  imports Prelude
begin

section \<open>UTF-8 (std::str::from_utf8, str::as_bytes)\<close>

text \<open>
  The validation and decoding of UTF-8 the standard library does: the shortest form only, no
  surrogates, nothing above U+10FFFF; and the encoding of a text.
\<close>

definition is_cont :: "nat \<Rightarrow> bool" where
  "is_cont b = (128 \<le> b \<and> b < 192)"

text \<open>One scalar value off the front of the bytes.\<close>

definition utf8_next :: "nat list \<Rightarrow> (nat \<times> nat list) option" where
  "utf8_next bs =
     (case bs of
        [] \<Rightarrow> None
      | b0 # r0 \<Rightarrow>
          if b0 < 128 then Some (b0, r0)
          else (case r0 of
            [] \<Rightarrow> None
          | b1 # r1 \<Rightarrow>
              if 194 \<le> b0 \<and> b0 < 224 \<and> is_cont b1 then Some ((b0 - 192) * 64 + (b1 - 128), r1)
              else (case r1 of
                [] \<Rightarrow> None
              | b2 # r2 \<Rightarrow>
                  if 224 \<le> b0 \<and> b0 < 240 \<and> is_cont b1 \<and> is_cont b2
                     \<and> (b0 = 224 \<longrightarrow> 160 \<le> b1) \<and> (b0 = 237 \<longrightarrow> b1 < 160)
                  then Some ((b0 - 224) * 4096 + (b1 - 128) * 64 + (b2 - 128), r2)
                  else (case r2 of
                    [] \<Rightarrow> None
                  | b3 # r3 \<Rightarrow>
                      if 240 \<le> b0 \<and> b0 < 245 \<and> is_cont b1 \<and> is_cont b2 \<and> is_cont b3
                         \<and> (b0 = 240 \<longrightarrow> 144 \<le> b1) \<and> (b0 = 244 \<longrightarrow> b1 < 144)
                      then Some ((b0 - 240) * 262144 + (b1 - 128) * 4096 + (b2 - 128) * 64 + (b3 - 128), r3)
                      else None))))"

lemma utf8_next_shorter: "utf8_next bs = Some (c, r) \<Longrightarrow> length r < length bs"
  by (auto simp: utf8_next_def split: list.splits if_splits)

function utf8_decode :: "nat list \<Rightarrow> ustring option" where
  "utf8_decode bs =
     (if bs = [] then Some []
      else (case utf8_next bs of
          None \<Rightarrow> None
        | Some (c, r) \<Rightarrow> map_option (Cons c) (utf8_decode r)))"
  by pat_completeness auto
termination by (relation "measure length") (auto dest: utf8_next_shorter)

declare utf8_decode.simps [simp del]

definition from_utf8 :: "bytes \<Rightarrow> ustring option" where
  "from_utf8 bs = utf8_decode (map unat bs)"

definition utf8_char :: "nat \<Rightarrow> nat list" where
  "utf8_char c =
     (if c < 128 then [c]
      else if c < 2048 then [192 + c div 64, 128 + c mod 64]
      else if c < 65536 then [224 + c div 4096, 128 + c div 64 mod 64, 128 + c mod 64]
      else [240 + c div 262144, 128 + c div 4096 mod 64, 128 + c div 64 mod 64, 128 + c mod 64])"

definition utf8_encode :: "ustring \<Rightarrow> bytes" where
  "utf8_encode s = map of_nat (concat (map utf8_char s))"

text \<open>The values a \<open>char\<close> can take.\<close>

definition is_scalar :: "nat \<Rightarrow> bool" where
  "is_scalar c = (c < 0xD800 \<or> 0xE000 \<le> c \<and> c < 0x110000)"

lemma utf8_decode_Nil [simp]: "utf8_decode [] = Some []"
  by (simp add: utf8_decode.simps)

lemma split64: "(c :: nat) = c div 64 * 64 + c mod 64" by presburger

lemma div_4096: "(c :: nat) div 4096 = c div 64 div 64"
  using div_mult2_eq [of c 64 64] by simp

lemma div_262144: "(c :: nat) div 262144 = c div 64 div 64 div 64"
  using div_mult2_eq [of c 64 4096] by (simp add: div_4096)

lemma recombine:
  "c = q * 64 + n \<Longrightarrow> q = p * 64 + m \<Longrightarrow> (c :: nat) = p * 4096 + m * 64 + n"
  by simp

lemma split4096: "(c :: nat) = c div 4096 * 4096 + c div 64 mod 64 * 64 + c mod 64"
  unfolding div_4096 by (rule recombine [of c "c div 64"]) simp_all

lemma split262144:
  "(c :: nat) = c div 262144 * 262144 + c div 4096 mod 64 * 4096 + c div 64 mod 64 * 64 + c mod 64"
proof -
  have "c div 4096 = c div 262144 * 64 + c div 4096 mod 64"
    unfolding div_262144 div_4096 by simp
  then have "c div 4096 * 4096 = c div 262144 * 262144 + c div 4096 mod 64 * 4096" by simp
  then show ?thesis using split4096 [of c] by (simp only: add.assoc)
qed

lemma div_bounds: "a * k \<le> c \<Longrightarrow> 0 < k \<Longrightarrow> a \<le> c div k" "c < b * k \<Longrightarrow> (c :: nat) div k < b"
  by (simp_all add: less_eq_div_iff_mult_less_eq less_mult_imp_div_less)

lemma utf8_next_two:
  "2 \<le> q \<Longrightarrow> q < 32 \<Longrightarrow> m < 64 \<Longrightarrow>
     utf8_next ((192 + q) # (128 + m) # r) = Some (q * 64 + m, r)"
  by (simp add: utf8_next_def is_cont_def)

lemma utf8_next_three:
  "q < 16 \<Longrightarrow> m < 64 \<Longrightarrow> n < 64 \<Longrightarrow> (q = 0 \<longrightarrow> 32 \<le> m) \<Longrightarrow> (q = 13 \<longrightarrow> m < 32) \<Longrightarrow>
     utf8_next ((224 + q) # (128 + m) # (128 + n) # r) = Some (q * 4096 + m * 64 + n, r)"
  by (simp add: utf8_next_def is_cont_def)

lemma utf8_next_four:
  "q < 5 \<Longrightarrow> k < 64 \<Longrightarrow> m < 64 \<Longrightarrow> n < 64 \<Longrightarrow> (q = 0 \<longrightarrow> 16 \<le> k) \<Longrightarrow> (q = 4 \<longrightarrow> k < 16) \<Longrightarrow>
     utf8_next ((240 + q) # (128 + k) # (128 + m) # (128 + n) # r) =
       Some (q * 262144 + k * 4096 + m * 64 + n, r)"
  by (simp add: utf8_next_def is_cont_def)

lemma two_byte_parts:
  "128 \<le> c \<Longrightarrow> c < 2048 \<Longrightarrow> 2 \<le> c div 64 \<and> c div 64 < 32 \<and> (c :: nat) mod 64 < 64"
  using div_bounds(1) [of 2 64 c] div_bounds(2) [of c 32 64] by simp

lemma three_byte_parts:
  assumes "2048 \<le> c" and "c < 65536" and "is_scalar c"
  shows "c div 4096 < 16 \<and> c div 64 mod 64 < 64 \<and> c mod 64 < 64
    \<and> (c div 4096 = 0 \<longrightarrow> 32 \<le> c div 64 mod 64) \<and> (c div 4096 = 13 \<longrightarrow> c div 64 mod 64 < 32)"
proof -
  define d where "d = c div 64"
  have d: "32 \<le> d" "d < 1024"
    unfolding d_def by (rule div_bounds, use assms in simp_all)+
  have "d < 864 \<or> 896 \<le> d"
  proof -
    consider "c < 864 * 64" | "896 * 64 \<le> c" using assms(3) by (auto simp: is_scalar_def)
    then show ?thesis unfolding d_def by cases (simp_all only: div_bounds zero_less_numeral simp_thms)
  qed
  moreover have "d div 64 * 64 + d mod 64 = d" "d mod 64 < 64" by simp_all
  ultimately have "d div 64 < 16 \<and> d mod 64 < 64 \<and> (d div 64 = 0 \<longrightarrow> 32 \<le> d mod 64)
      \<and> (d div 64 = 13 \<longrightarrow> d mod 64 < 32)"
    using d by (intro conjI impI) linarith+
  moreover have "c mod 64 < 64" by simp
  ultimately show ?thesis unfolding div_4096 d_def by blast
qed

lemma four_byte_parts:
  assumes "65536 \<le> c" and "is_scalar c"
  shows "c div 262144 < 5 \<and> c div 4096 mod 64 < 64 \<and> c div 64 mod 64 < 64 \<and> c mod 64 < 64
    \<and> (c div 262144 = 0 \<longrightarrow> 16 \<le> c div 4096 mod 64) \<and> (c div 262144 = 4 \<longrightarrow> c div 4096 mod 64 < 16)"
proof -
  define d where "d = c div 64 div 64"
  have c: "c < 1114112" using assms by (auto simp: is_scalar_def)
  have d: "16 \<le> d" "d < 272"
    unfolding d_def div_4096 [symmetric] by (rule div_bounds, use assms(1) c in simp_all)+
  moreover have "d div 64 * 64 + d mod 64 = d" "d mod 64 < 64" by simp_all
  ultimately have "d div 64 < 5 \<and> d mod 64 < 64 \<and> (d div 64 = 0 \<longrightarrow> 16 \<le> d mod 64)
      \<and> (d div 64 = 4 \<longrightarrow> d mod 64 < 16)"
    using d by (intro conjI impI) linarith+
  moreover have "c mod 64 < 64" "c div 64 mod 64 < 64" by simp_all
  ultimately show ?thesis unfolding div_262144 div_4096 d_def by blast
qed

lemma utf8_next_char:
  assumes "is_scalar c"
  shows "utf8_next (utf8_char c @ r) = Some (c, r)"
proof -
  consider "c < 128" | "128 \<le> c" "c < 2048" | "2048 \<le> c" "c < 65536" | "65536 \<le> c" by linarith
  then show ?thesis
  proof cases
    case 1
    then show ?thesis by (simp add: utf8_char_def utf8_next_def)
  next
    case 2
    have ch: "utf8_char c = [192 + c div 64, 128 + c mod 64]" using 2 by (simp add: utf8_char_def)
    have p: "2 \<le> c div 64" "c div 64 < 32" "c mod 64 < 64" using two_byte_parts [OF 2] by blast+
    show ?thesis
      using utf8_next_two [OF p, of r] by (simp only: ch append.simps split64 [of c, symmetric])
  next
    case 3
    have ch: "utf8_char c = [224 + c div 4096, 128 + c div 64 mod 64, 128 + c mod 64]"
      using 3 by (simp add: utf8_char_def)
    have p: "c div 4096 < 16" "c div 64 mod 64 < 64" "c mod 64 < 64"
      "c div 4096 = 0 \<longrightarrow> 32 \<le> c div 64 mod 64" "c div 4096 = 13 \<longrightarrow> c div 64 mod 64 < 32"
      using three_byte_parts [OF 3 assms] by blast+
    show ?thesis
      using utf8_next_three [OF p, of r] by (simp only: ch append.simps split4096 [of c, symmetric])
  next
    case 4
    have ch: "utf8_char c =
        [240 + c div 262144, 128 + c div 4096 mod 64, 128 + c div 64 mod 64, 128 + c mod 64]"
      using 4 by (simp add: utf8_char_def)
    have p: "c div 262144 < 5" "c div 4096 mod 64 < 64" "c div 64 mod 64 < 64" "c mod 64 < 64"
      "c div 262144 = 0 \<longrightarrow> 16 \<le> c div 4096 mod 64" "c div 262144 = 4 \<longrightarrow> c div 4096 mod 64 < 16"
      using four_byte_parts [OF 4 assms] by blast+
    show ?thesis
      using utf8_next_four [OF p, of r] by (simp only: ch append.simps split262144 [of c, symmetric])
  qed
qed

lemma utf8_char_bytes: "is_scalar c \<Longrightarrow> \<forall>b\<in>set (utf8_char c). b < 256"
proof -
  assume "is_scalar c"
  then have "c < 0x110000" by (auto simp: is_scalar_def)
  then have "c div 262144 < 5" "c < 65536 \<Longrightarrow> c div 4096 < 16" "c < 2048 \<Longrightarrow> c div 64 < 32" by auto
  moreover have "x mod 64 < 64" for x :: nat by simp
  note this [of c] this [of "c div 64"] this [of "c div 4096"]
  ultimately show ?thesis unfolding utf8_char_def by auto
qed

lemma utf8_decode_chars: "\<forall>c\<in>set s. is_scalar c \<Longrightarrow> utf8_decode (concat (map utf8_char s)) = Some s"
proof (induction s)
  case (Cons c s)
  then have "utf8_next (utf8_char c @ concat (map utf8_char s)) = Some (c, concat (map utf8_char s))"
    by (simp add: utf8_next_char)
  moreover have "utf8_char c \<noteq> []" by (simp add: utf8_char_def)
  ultimately show ?case using Cons by (subst utf8_decode.simps) simp
qed simp

text \<open>Every text is read back from its bytes.\<close>

lemma from_utf8_encode: "\<forall>c\<in>set s. is_scalar c \<Longrightarrow> from_utf8 (utf8_encode s) = Some s"
proof -
  assume s: "\<forall>c\<in>set s. is_scalar c"
  have "\<forall>b\<in>set (concat (map utf8_char s)). b < 256" using s utf8_char_bytes by fastforce
  then have "map (unat \<circ> (of_nat :: nat \<Rightarrow> u8)) (concat (map utf8_char s)) = concat (map utf8_char s)"
    by (intro map_idI) (fastforce simp: unat_of_nat intro: mod_less)
  then show ?thesis using utf8_decode_chars [OF s] by (simp add: from_utf8_def utf8_encode_def)
qed

end
