(* ===== verification/Verify.thy ===== *)
theory Verify
  imports Manifest Utf8
begin

section \<open>Signature verification (src/upgrade/verify.rs, src/upgrade/trust.rs)\<close>

text \<open>
  \<open>verify_manifest_bundle\<close> and everything it decides itself: which certificate field is a PEM block,
  what the chain, the validity window, the Rekor body and the Rekor timestamp must satisfy, which claims
  are read from the certificate, and which identities the allowlist accepts. X.509 parsing, base64, JSON,
  SHA-256, signature checks and the trust root are third-party: the record \<open>sigstore\<close>, an argument.
\<close>

subsection \<open>The allowlist (trust.rs)\<close>

record allowed_signer =
  as_issuer :: string
  as_repo :: string
  as_ref_pattern :: string
  as_workflow :: string

definition ref_matches :: "string \<Rightarrow> string \<Rightarrow> bool" where
  "ref_matches pattern actual =
     (case strip_suffix ''*'' pattern of
        Some prefix \<Rightarrow> starts_with prefix actual
      | None \<Rightarrow> pattern = actual)"

record cert_identity =
  ci_issuer :: "string option"
  ci_repo :: "string option"
  ci_workflow_uri :: "string option"
  ci_ref_claim :: "string option"

definition signer_matches :: "cert_identity \<Rightarrow> allowed_signer \<Rightarrow> bool" where
  "signer_matches claims s =
     (case (ci_issuer claims, ci_repo claims, ci_workflow_uri claims, ci_ref_claim claims) of
        (Some iss, Some repo, Some uri, Some rf) \<Rightarrow>
          iss = as_issuer s \<and> repo = as_repo s
          \<and> (case strip_prefix (as_workflow s) uri of Some rest \<Rightarrow> starts_with ''@'' rest | None \<Rightarrow> False)
          \<and> ref_matches (as_ref_pattern s) rf
      | _ \<Rightarrow> False)"

definition identity_matches_allowlist :: "cert_identity \<Rightarrow> allowed_signer list \<Rightarrow> bool" where
  "identity_matches_allowlist claims allowed = list_ex (signer_matches claims) allowed"

subsection \<open>The bundle and the third-party operations\<close>

record rekor_payload =
  rp_body :: string
  rp_integrated_time :: int
  rp_log_index :: u64
  rp_log_id :: string

record rekor_bundle =
  rb_signed_entry_timestamp :: string
  rb_payload :: rekor_payload

text \<open>The certificate field is a text whose white space matters, so it is its scalar values.\<close>

record cosign_bundle =
  cb_base64_signature :: "string option"
  cb_cert :: "ustring option"
  cb_rekor_bundle :: "rekor_bundle option"

text \<open>What the code reads of a parsed X.509 certificate.\<close>

record x509 =
  x_tbs_der :: "string + bytes"
  x_signature :: "bytes option"
  x_signature_oid :: string
  x_spki_der :: "string + bytes"
  x_not_before :: u64
  x_not_after :: u64
  x_extensions :: "(string \<times> bytes) list option"

datatype signing_scheme = EcdsaP256Sha256 | EcdsaP384Sha384

record trust_root =
  tr_fulcio_certs :: "string + bytes list"
  tr_rekor_keys :: "string + bytes list"

record 'k sigstore =
  sg_parse_bundle :: "bytes \<Rightarrow> string + cosign_bundle"
  sg_trust_root :: "string + trust_root"
  sg_base64 :: "bytes \<Rightarrow> string + bytes"
  sg_json :: "bytes \<Rightarrow> string + json"
  sg_sha256 :: "bytes \<Rightarrow> bytes"
  sg_x509 :: "bytes \<Rightarrow> string + x509"
  sg_key :: "bytes \<Rightarrow> signing_scheme \<Rightarrow> string + 'k"
  sg_verify :: "'k \<Rightarrow> bytes \<Rightarrow> bytes \<Rightarrow> string + unit"
  sg_utf8_string :: "bytes \<Rightarrow> string option"

definition str_bytes :: "string \<Rightarrow> bytes" where
  "str_bytes s = map of_char s"

definition bytes_str :: "bytes \<Rightarrow> string" where
  "bytes_str bs = map (\<lambda>b. char_of (unat b)) bs"

subsection \<open>PEM\<close>

definition pem_begin :: ustring where "pem_begin = ustr ''-----BEGIN CERTIFICATE-----''"
definition pem_end :: ustring where "pem_end = ustr ''-----END CERTIFICATE-----''"

definition try_pem_block :: "'k sigstore \<Rightarrow> ustring \<Rightarrow> (anyhow + bytes) option" where
  "try_pem_block sg s =
     (case strip_prefix pem_begin s of
        None \<Rightarrow> None
      | Some rest \<Rightarrow>
          (case strip_suffix pem_end rest of
             None \<Rightarrow> None
           | Some body \<Rightarrow>
               let cleaned = filter (\<lambda>c. \<not> is_ws c) body in
               Some (with_source (Chain PemBodyBase64) (sg_base64 sg (utf8_encode cleaned)))))"

definition pem_to_der :: "'k sigstore \<Rightarrow> ustring \<Rightarrow> anyhow + bytes" where
  "pem_to_der sg cert_field =
     (let trimmed = utrim cert_field in
      case try_pem_block sg trimmed of
        Some der \<Rightarrow> der
      | None \<Rightarrow>
          bindR (with_source (Chain CertFieldUnreadable) (sg_base64 sg (utf8_encode trimmed))) (\<lambda>raw.
          bindR (ok_or [Chain CertFieldNotUtf8] (from_utf8 raw)) (\<lambda>inner.
          case try_pem_block sg (utrim inner) of
            Some der \<Rightarrow> der
          | None \<Rightarrow> Inl [Chain CertFieldNotBlock])))"

definition parse_leaf :: "'k sigstore \<Rightarrow> bytes \<Rightarrow> anyhow + x509" where
  "parse_leaf sg der = map_err (\<lambda>e. [Chain (LeafUnreadable e)]) (sg_x509 sg der)"

subsection \<open>Chain, validity window, Rekor body and timestamp\<close>

definition scheme_for_oid :: "string \<Rightarrow> anyhow + signing_scheme" where
  "scheme_for_oid oid =
     (if oid = ''1.2.840.10045.4.3.2'' then Inr EcdsaP256Sha256
      else if oid = ''1.2.840.10045.4.3.3'' then Inr EcdsaP384Sha384
      else Inl [Chain (UnsupportedOid oid)])"

text \<open>One certificate authority's turn: a CA that does not parse, or whose key does not load, is skipped.\<close>

definition ca_signed :: "'k sigstore \<Rightarrow> signing_scheme \<Rightarrow> bytes \<Rightarrow> bytes \<Rightarrow> bytes \<Rightarrow> bool" where
  "ca_signed sg scheme sig tbs ca_der =
     (case sg_x509 sg ca_der of
        Inl _ \<Rightarrow> False
      | Inr ca \<Rightarrow>
          (case x_spki_der ca of
             Inl _ \<Rightarrow> False
           | Inr spki \<Rightarrow>
               (case sg_key sg spki scheme of
                  Inl _ \<Rightarrow> False
                | Inr key \<Rightarrow> is_ok (sg_verify sg key sig tbs))))"

definition verify_cert_chain :: "'k sigstore \<Rightarrow> bytes \<Rightarrow> bytes list \<Rightarrow> anyhow + unit" where
  "verify_cert_chain sg leaf_der fulcio_certs =
     bindR (parse_leaf sg leaf_der) (\<lambda>leaf.
     bindR (map_err (\<lambda>e. [Chain (TbsReencode e)]) (x_tbs_der leaf)) (\<lambda>tbs.
     bindR (ok_or [Chain SignatureNotOctets] (x_signature leaf)) (\<lambda>sig.
     bindR (scheme_for_oid (x_signature_oid leaf)) (\<lambda>scheme.
     if list_ex (ca_signed sg scheme sig tbs) fulcio_certs then Inr ()
     else Inl [Chain NotChained]))))"

text \<open>The bounds are 64-bit counts of seconds read as signed (\<open>as i64\<close>).\<close>

definition verify_validity_window :: "'k sigstore \<Rightarrow> bytes \<Rightarrow> int \<Rightarrow> anyhow + unit" where
  "verify_validity_window sg leaf_der integrated_time =
     bindR (parse_leaf sg leaf_der) (\<lambda>leaf.
     let nb = sint (x_not_before leaf); na = sint (x_not_after leaf) in
     bail_if (integrated_time < nb \<or> integrated_time > na)
       [Chain (OutsideValidity integrated_time nb na)])"

definition sha256_hex :: "'k sigstore \<Rightarrow> bytes \<Rightarrow> string" where
  "sha256_hex sg data = hex_of (sg_sha256 sg data)"

definition pointer_str :: "json \<Rightarrow> string list \<Rightarrow> string option" where
  "pointer_str v ks = Option.bind (jpointer v ks) as_str"

definition verify_rekor_body_binding ::
  "'k sigstore \<Rightarrow> string \<Rightarrow> bytes \<Rightarrow> bytes \<Rightarrow> anyhow + unit" where
  "verify_rekor_body_binding sg body_b64 manifest_bytes leaf_der =
     bindR (with_source (Chain RekorBodyBase64) (sg_base64 sg (str_bytes body_b64))) (\<lambda>body_bytes.
     bindR (with_source (Chain RekorBodyJson) (sg_json sg body_bytes)) (\<lambda>body.
     bindR (ok_or [Chain RekorBodyNoHash]
              (pointer_str body [''spec'', ''data'', ''hash'', ''value''])) (\<lambda>entry_hash.
     let want_hash = sha256_hex sg manifest_bytes in
     bindR (bail_if (\<not> eq_ignore_case entry_hash want_hash)
              [Chain (RekorHashMismatch entry_hash want_hash)]) (\<lambda>_.
     bindR (ok_or [Chain RekorBodyNoKey]
              (pointer_str body [''spec'', ''signature'', ''publicKey'', ''content''])) (\<lambda>pk_b64.
     bindR (with_source (Chain RekorKeyBase64) (sg_base64 sg (str_bytes pk_b64))) (\<lambda>pk_raw.
     bindR (ok_or [Chain RekorKeyNotUtf8] (from_utf8 pk_raw)) (\<lambda>pk_pem.
     bindR (with_context (Chain RekorKeyPem) (pem_to_der sg pk_pem)) (\<lambda>entry_cert_der.
     bail_if (entry_cert_der \<noteq> leaf_der) [Chain RekorCertMismatch]))))))))"

text \<open>The canonical JSON Rekor signs.\<close>

definition canonical_entry :: "rekor_payload \<Rightarrow> string" where
  "canonical_entry p =
     ''{\"body\":\"'' @ rp_body p @ ''\",\"integratedTime\":'' @ show_int (rp_integrated_time p)
     @ '',\"logID\":\"'' @ rp_log_id p @ ''\",\"logIndex\":'' @ show_nat (unat (rp_log_index p)) @ ''}''"

definition rekor_key_signed :: "'k sigstore \<Rightarrow> bytes \<Rightarrow> bytes \<Rightarrow> bytes \<Rightarrow> bool" where
  "rekor_key_signed sg sig entry spki =
     (case sg_key sg spki EcdsaP256Sha256 of
        Inl _ \<Rightarrow> False
      | Inr key \<Rightarrow> is_ok (sg_verify sg key sig entry))"

definition verify_rekor_set :: "'k sigstore \<Rightarrow> rekor_bundle \<Rightarrow> bytes list \<Rightarrow> anyhow + unit" where
  "verify_rekor_set sg rekor rekor_keys =
     bindR (with_source (Chain SetBase64)
              (sg_base64 sg (str_bytes (rb_signed_entry_timestamp rekor)))) (\<lambda>set_sig.
     if list_ex (rekor_key_signed sg set_sig (str_bytes (canonical_entry (rb_payload rekor)))) rekor_keys
     then Inr () else Inl [Chain SetUnverified])"

definition verify_cert_and_rekor ::
  "'k sigstore \<Rightarrow> ustring \<Rightarrow> bytes \<Rightarrow> rekor_bundle option \<Rightarrow> anyhow + unit" where
  "verify_cert_and_rekor sg cert_pem manifest_bytes rekor_bundle =
     bindR (with_source (Chain TrustRootFailed) (sg_trust_root sg)) (\<lambda>trust_root.
     bindR (map_err (\<lambda>e. [Chain (FulcioUnavailable e)]) (tr_fulcio_certs trust_root)) (\<lambda>fulcio_certs.
     bindR (map_err (\<lambda>e. [Chain (RekorKeyUnavailable e)]) (tr_rekor_keys trust_root)) (\<lambda>rekor_keys.
     bindR (ok_or [Chain RekorBundleMissing] rekor_bundle) (\<lambda>rekor.
     bindR (pem_to_der sg cert_pem) (\<lambda>leaf_der.
     bindR (with_context (Chain ChainFailed) (verify_cert_chain sg leaf_der fulcio_certs)) (\<lambda>_.
     bindR (with_context (Chain ValidityFailed)
              (verify_validity_window sg leaf_der (rp_integrated_time (rb_payload rekor)))) (\<lambda>_.
     bindR (with_context (Chain RekorBodyFailed)
              (verify_rekor_body_binding sg (rp_body (rb_payload rekor)) manifest_bytes leaf_der)) (\<lambda>_.
     with_context (Chain RekorSetFailed) (verify_rekor_set sg rekor rekor_keys)))))))))"

definition verify_blob_signature ::
  "'k sigstore \<Rightarrow> ustring \<Rightarrow> string \<Rightarrow> bytes \<Rightarrow> anyhow + unit" where
  "verify_blob_signature sg cert_pem signature_b64 blob =
     bindR (with_source (Chain SignatureBase64) (sg_base64 sg (str_bytes signature_b64))) (\<lambda>signature.
     bindR (with_context (Chain CertNotPem) (pem_to_der sg cert_pem)) (\<lambda>cert_der.
     bindR (parse_leaf sg cert_der) (\<lambda>cert.
     bindR (map_err (\<lambda>e. [Chain (SpkiEncode e)]) (x_spki_der cert)) (\<lambda>spki.
     bindR (with_source (Chain KeyUnloadable) (sg_key sg spki EcdsaP256Sha256)) (\<lambda>key.
     with_source (Chain SignatureUnverified) (sg_verify sg key signature blob))))))"

subsection \<open>Identity claims\<close>

definition der_utf8 :: "'k sigstore \<Rightarrow> bytes \<Rightarrow> string option" where
  "der_utf8 sg bs = (case sg_utf8_string sg bs of Some s \<Rightarrow> if s = [] then None else Some s | None \<Rightarrow> None)"

definition raw_utf8 :: "bytes \<Rightarrow> string option" where
  "raw_utf8 bs = (if from_utf8 bs = None \<or> bs = [] then None else Some (bytes_str bs))"

text \<open>
  The scan of \<open>first_san_uri\<close>. \<open>from_utf8_lossy\<close> only rewrites bytes from 128 up, which are never part
  of \<open>https://\<close> and end the URI either way, so the scan reads the bytes themselves.
\<close>

fun find_from :: "'a list \<Rightarrow> 'a list \<Rightarrow> 'a list option" where
  "find_from p [] = (if p = [] then Some [] else None)"
| "find_from p (c # cs) = (if starts_with p (c # cs) then Some (c # cs) else find_from p cs)"

definition uri_byte :: "u8 \<Rightarrow> bool" where
  "uri_byte b = (33 \<le> b \<and> b \<le> 126 \<and> b \<noteq> 34 \<and> b \<noteq> 32)"

definition first_san_uri :: "bytes \<Rightarrow> string option" where
  "first_san_uri bs = map_option (\<lambda>rest. bytes_str (takeWhile uri_byte rest))
                        (find_from (str_bytes ''https://'') bs)"

definition oid_issuer :: string where "oid_issuer = ''1.3.6.1.4.1.57264.1.8''"
definition oid_issuer_v1 :: string where "oid_issuer_v1 = ''1.3.6.1.4.1.57264.1.1''"
definition oid_repo_uri :: string where "oid_repo_uri = ''1.3.6.1.4.1.57264.1.12''"
definition oid_repo_v1 :: string where "oid_repo_v1 = ''1.3.6.1.4.1.57264.1.5''"
definition oid_ref :: string where "oid_ref = ''1.3.6.1.4.1.57264.1.14''"
definition oid_ref_v1 :: string where "oid_ref_v1 = ''1.3.6.1.4.1.57264.1.6''"
definition oid_san :: string where "oid_san = ''2.5.29.17''"

text \<open>The identifiers are pairwise different.\<close>

lemma oids_distinct:
  "distinct [oid_issuer, oid_issuer_v1, oid_repo_uri, oid_repo_v1, oid_ref, oid_ref_v1, oid_san]"
  unfolding oid_issuer_def oid_issuer_v1_def oid_repo_uri_def oid_repo_v1_def oid_ref_def oid_ref_v1_def
    oid_san_def by code_simp

text \<open>The loop's variables: the identity under construction and the deprecated claims.\<close>

record claim_scan =
  cs_id :: cert_identity
  cs_issuer_v1 :: "string option"
  cs_repo_v1 :: "string option"
  cs_ref_v1 :: "string option"

definition scan_extension :: "'k sigstore \<Rightarrow> (string \<times> bytes) \<Rightarrow> claim_scan \<Rightarrow> claim_scan" where
  "scan_extension sg e c =
     (let (oid, bytes) = e;
          c' = (if oid = oid_issuer then c\<lparr>cs_id := (cs_id c)\<lparr>ci_issuer := der_utf8 sg bytes\<rparr>\<rparr>
                else if oid = oid_issuer_v1 then c\<lparr>cs_issuer_v1 := raw_utf8 bytes\<rparr>
                else if oid = oid_repo_uri then c\<lparr>cs_id := (cs_id c)\<lparr>ci_repo := der_utf8 sg bytes\<rparr>\<rparr>
                else if oid = oid_repo_v1 then c\<lparr>cs_repo_v1 := raw_utf8 bytes\<rparr>
                else if oid = oid_ref then c\<lparr>cs_id := (cs_id c)\<lparr>ci_ref_claim := der_utf8 sg bytes\<rparr>\<rparr>
                else if oid = oid_ref_v1 then c\<lparr>cs_ref_v1 := raw_utf8 bytes\<rparr>
                else c)
      in if oid = oid_san then
           (case first_san_uri bytes of
              Some s \<Rightarrow> c'\<lparr>cs_id := (cs_id c')\<lparr>ci_workflow_uri := Some s\<rparr>\<rparr>
            | None \<Rightarrow> c')
         else c')"

definition opt_or :: "'a option \<Rightarrow> 'a option \<Rightarrow> 'a option" where
  "opt_or a b = (case a of Some x \<Rightarrow> Some x | None \<Rightarrow> b)"

definition no_claims :: cert_identity where
  "no_claims = \<lparr>ci_issuer = None, ci_repo = None, ci_workflow_uri = None, ci_ref_claim = None\<rparr>"

definition identity_of_extensions :: "'k sigstore \<Rightarrow> (string \<times> bytes) list option \<Rightarrow> cert_identity" where
  "identity_of_extensions sg exts =
     (let c = fold (scan_extension sg) (case exts of Some es \<Rightarrow> es | None \<Rightarrow> [])
                \<lparr>cs_id = no_claims, cs_issuer_v1 = None, cs_repo_v1 = None, cs_ref_v1 = None\<rparr>;
          i = cs_id c
      in i\<lparr>ci_issuer := opt_or (ci_issuer i) (cs_issuer_v1 c),
           ci_repo := opt_or (ci_repo i) (map_option (\<lambda>r. ''https://github.com/'' @ r) (cs_repo_v1 c)),
           ci_ref_claim := opt_or (ci_ref_claim i) (cs_ref_v1 c)\<rparr>)"

definition extract_identity_claims :: "'k sigstore \<Rightarrow> ustring \<Rightarrow> anyhow + cert_identity" where
  "extract_identity_claims sg cert_pem =
     bindR (pem_to_der sg cert_pem) (\<lambda>der.
     bindR (parse_leaf sg der) (\<lambda>cert.
     Inr (identity_of_extensions sg (x_extensions cert))))"

subsection \<open>The entry point\<close>

definition verify_manifest_bundle ::
  "'k sigstore \<Rightarrow> bytes \<Rightarrow> bytes \<Rightarrow> allowed_signer list \<Rightarrow> anyhow + unit" where
  "verify_manifest_bundle sg manifest_bytes bundle_bytes allowed_signers =
     bindR (bail_if (allowed_signers = []) [Verify AllowlistEmpty]) (\<lambda>_.
     bindR (with_source (Verify BundleUnreadable) (sg_parse_bundle sg bundle_bytes)) (\<lambda>bundle.
     bindR (ok_or [Verify BundleNoCert] (cb_cert bundle)) (\<lambda>cert_pem.
     bindR (ok_or [Verify BundleNoSignature] (cb_base64_signature bundle)) (\<lambda>signature_b64.
     bindR (with_context (Verify FulcioRekorFailed)
              (verify_cert_and_rekor sg cert_pem manifest_bytes (cb_rekor_bundle bundle))) (\<lambda>_.
     bindR (with_context (Verify IdentityUnreadable) (extract_identity_claims sg cert_pem)) (\<lambda>i.
     bindR (bail_if (\<not> identity_matches_allowlist i allowed_signers)
              [Verify (IdentityNotAllowed (ci_issuer i) (ci_repo i) (ci_workflow_uri i) (ci_ref_claim i))]) (\<lambda>_.
     with_context (Verify BlobSignatureFailed)
       (verify_blob_signature sg cert_pem signature_b64 manifest_bytes))))))))"

subsection \<open>What acceptance means\<close>

text \<open>
  The evidence a bundle has to carry, without the order of the checks: each conjunct is one of the
  trust decisions of the module.
\<close>

definition leaf_chains :: "'k sigstore \<Rightarrow> bytes list \<Rightarrow> x509 \<Rightarrow> bool" where
  "leaf_chains sg cas leaf =
     (\<exists>tbs sig scheme. x_tbs_der leaf = Inr tbs \<and> x_signature leaf = Some sig
        \<and> scheme_for_oid (x_signature_oid leaf) = Inr scheme \<and> list_ex (ca_signed sg scheme sig tbs) cas)"

definition entry_binds :: "'k sigstore \<Rightarrow> string \<Rightarrow> bytes \<Rightarrow> bytes \<Rightarrow> bool" where
  "entry_binds sg body_b64 manifest_bytes leaf_der =
     (\<exists>raw body h pk pk_raw pem. sg_base64 sg (str_bytes body_b64) = Inr raw \<and> sg_json sg raw = Inr body
        \<and> pointer_str body [''spec'', ''data'', ''hash'', ''value''] = Some h
        \<and> eq_ignore_case h (hex_of (sg_sha256 sg manifest_bytes))
        \<and> pointer_str body [''spec'', ''signature'', ''publicKey'', ''content''] = Some pk
        \<and> sg_base64 sg (str_bytes pk) = Inr pk_raw \<and> from_utf8 pk_raw = Some pem
        \<and> pem_to_der sg pem = Inr leaf_der)"

definition entry_timestamped :: "'k sigstore \<Rightarrow> rekor_bundle \<Rightarrow> bytes list \<Rightarrow> bool" where
  "entry_timestamped sg rekor keys =
     (\<exists>sig. sg_base64 sg (str_bytes (rb_signed_entry_timestamp rekor)) = Inr sig
        \<and> list_ex (rekor_key_signed sg sig (str_bytes (canonical_entry (rb_payload rekor)))) keys)"

definition leaf_signed :: "'k sigstore \<Rightarrow> x509 \<Rightarrow> string \<Rightarrow> bytes \<Rightarrow> bool" where
  "leaf_signed sg leaf signature_b64 blob =
     (\<exists>spki key sig. x_spki_der leaf = Inr spki \<and> sg_key sg spki EcdsaP256Sha256 = Inr key
        \<and> sg_base64 sg (str_bytes signature_b64) = Inr sig \<and> sg_verify sg key sig blob = Inr ())"

definition bundle_authentic ::
  "'k sigstore \<Rightarrow> bytes \<Rightarrow> bytes \<Rightarrow> allowed_signer list \<Rightarrow> bool" where
  "bundle_authentic sg manifest_bytes bundle_bytes signers =
     (\<exists>b cert sig64 rekor root cas keys der leaf.
        sg_parse_bundle sg bundle_bytes = Inr b \<and> cb_cert b = Some cert
        \<and> cb_base64_signature b = Some sig64 \<and> cb_rekor_bundle b = Some rekor
        \<and> sg_trust_root sg = Inr root \<and> tr_fulcio_certs root = Inr cas \<and> tr_rekor_keys root = Inr keys
        \<and> pem_to_der sg cert = Inr der \<and> sg_x509 sg der = Inr leaf
        \<and> leaf_chains sg cas leaf
        \<and> sint (x_not_before leaf) \<le> rp_integrated_time (rb_payload rekor)
        \<and> rp_integrated_time (rb_payload rekor) \<le> sint (x_not_after leaf)
        \<and> entry_binds sg (rp_body (rb_payload rekor)) manifest_bytes der
        \<and> entry_timestamped sg rekor keys
        \<and> list_ex (signer_matches (identity_of_extensions sg (x_extensions leaf))) signers
        \<and> leaf_signed sg leaf sig64 manifest_bytes)"

lemma with_source_Inr [result_simps]: "with_source c r = Inr x \<longleftrightarrow> r = Inr x"
  by (simp add: with_source_def result_simps)

lemma with_context_Inr [result_simps]: "with_context c r = Inr x \<longleftrightarrow> r = Inr x"
  by (simp add: with_context_def result_simps)

lemma parse_leaf_Inr [result_simps]: "parse_leaf sg der = Inr x \<longleftrightarrow> sg_x509 sg der = Inr x"
  by (simp add: parse_leaf_def result_simps)

lemma if_Inr [result_simps]: "(if b then Inr () else Inl e) = Inr u \<longleftrightarrow> b"
  by simp

lemma verify_cert_chain_iff:
  "verify_cert_chain sg der cas = Inr () \<longleftrightarrow> (\<exists>leaf. sg_x509 sg der = Inr leaf \<and> leaf_chains sg cas leaf)"
  unfolding verify_cert_chain_def leaf_chains_def by (auto simp: result_simps)

lemma verify_validity_window_iff:
  "verify_validity_window sg der t = Inr () \<longleftrightarrow>
     (\<exists>leaf. sg_x509 sg der = Inr leaf \<and> sint (x_not_before leaf) \<le> t \<and> t \<le> sint (x_not_after leaf))"
  unfolding verify_validity_window_def by (auto simp: result_simps Let_def)

lemma verify_rekor_body_binding_iff:
  "verify_rekor_body_binding sg body m der = Inr () \<longleftrightarrow> entry_binds sg body m der"
  unfolding verify_rekor_body_binding_def entry_binds_def sha256_hex_def Let_def
  by (auto simp: result_simps)

lemma verify_rekor_set_iff:
  "verify_rekor_set sg rekor keys = Inr () \<longleftrightarrow> entry_timestamped sg rekor keys"
  unfolding verify_rekor_set_def entry_timestamped_def by (simp add: result_simps)

lemma verify_blob_signature_iff:
  "verify_blob_signature sg cert sig64 blob = Inr () \<longleftrightarrow>
     (\<exists>der leaf. pem_to_der sg cert = Inr der \<and> sg_x509 sg der = Inr leaf \<and> leaf_signed sg leaf sig64 blob)"
  unfolding verify_blob_signature_def leaf_signed_def by (auto simp: result_simps)

lemmas verify_iffs = verify_cert_chain_iff verify_validity_window_iff verify_rekor_body_binding_iff
  verify_rekor_set_iff verify_blob_signature_iff

lemma verify_cert_and_rekor_iff:
  "verify_cert_and_rekor sg cert m rb = Inr () \<longleftrightarrow>
     (\<exists>rekor root cas keys der leaf. rb = Some rekor \<and> sg_trust_root sg = Inr root
        \<and> tr_fulcio_certs root = Inr cas \<and> tr_rekor_keys root = Inr keys
        \<and> pem_to_der sg cert = Inr der \<and> sg_x509 sg der = Inr leaf \<and> leaf_chains sg cas leaf
        \<and> sint (x_not_before leaf) \<le> rp_integrated_time (rb_payload rekor)
        \<and> rp_integrated_time (rb_payload rekor) \<le> sint (x_not_after leaf)
        \<and> entry_binds sg (rp_body (rb_payload rekor)) m der \<and> entry_timestamped sg rekor keys)"
  (is "?l \<longleftrightarrow> ?r")
proof
  assume ?l
  then obtain root cas keys rekor der where
    "sg_trust_root sg = Inr root" "tr_fulcio_certs root = Inr cas" "tr_rekor_keys root = Inr keys"
    "rb = Some rekor" "pem_to_der sg cert = Inr der"
    and c: "verify_cert_chain sg der cas = Inr ()"
    and w: "verify_validity_window sg der (rp_integrated_time (rb_payload rekor)) = Inr ()"
    and "verify_rekor_body_binding sg (rp_body (rb_payload rekor)) m der = Inr ()"
    and "verify_rekor_set sg rekor keys = Inr ()"
    unfolding verify_cert_and_rekor_def by (auto simp: result_simps)
  moreover from c obtain leaf where "sg_x509 sg der = Inr leaf" "leaf_chains sg cas leaf"
    by (auto simp: verify_iffs)
  moreover from this w have "sint (x_not_before leaf) \<le> rp_integrated_time (rb_payload rekor)"
    "rp_integrated_time (rb_payload rekor) \<le> sint (x_not_after leaf)" by (auto simp: verify_iffs)
  ultimately show ?r
    unfolding verify_rekor_body_binding_iff verify_rekor_set_iff by metis
next
  assume ?r
  then show ?l
    by (elim exE conjE) (simp add: verify_cert_and_rekor_def result_simps verify_iffs)
qed

lemma verify_bundle_iff:
  "verify_manifest_bundle sg m bb signers = Inr () \<longleftrightarrow> bundle_authentic sg m bb signers"
proof
  assume l: "verify_manifest_bundle sg m bb signers = Inr ()"
  then obtain b cert sig64 i where
    b: "sg_parse_bundle sg bb = Inr b" "cb_cert b = Some cert" "cb_base64_signature b = Some sig64"
    and r: "verify_cert_and_rekor sg cert m (cb_rekor_bundle b) = Inr ()"
    and i: "extract_identity_claims sg cert = Inr i" "identity_matches_allowlist i signers"
    and s: "verify_blob_signature sg cert sig64 m = Inr ()"
    unfolding verify_manifest_bundle_def by (auto simp: result_simps)
  from r obtain rekor root cas keys der leaf where
    *: "cb_rekor_bundle b = Some rekor" "sg_trust_root sg = Inr root"
      "tr_fulcio_certs root = Inr cas" "tr_rekor_keys root = Inr keys"
      "pem_to_der sg cert = Inr der" "sg_x509 sg der = Inr leaf" "leaf_chains sg cas leaf"
      "sint (x_not_before leaf) \<le> rp_integrated_time (rb_payload rekor)"
      "rp_integrated_time (rb_payload rekor) \<le> sint (x_not_after leaf)"
      "entry_binds sg (rp_body (rb_payload rekor)) m der" "entry_timestamped sg rekor keys"
    unfolding verify_cert_and_rekor_iff by blast
  have "list_ex (signer_matches (identity_of_extensions sg (x_extensions leaf))) signers"
    using i * by (simp add: extract_identity_claims_def result_simps identity_matches_allowlist_def)
  moreover have "leaf_signed sg leaf sig64 m" using s * by (simp add: verify_iffs)
  ultimately show "bundle_authentic sg m bb signers"
    unfolding bundle_authentic_def using b * by metis
next
  assume "bundle_authentic sg m bb signers"
  then obtain b cert sig64 rekor root cas keys der leaf where
    *: "sg_parse_bundle sg bb = Inr b" "cb_cert b = Some cert" "cb_base64_signature b = Some sig64"
      "cb_rekor_bundle b = Some rekor" "sg_trust_root sg = Inr root"
      "tr_fulcio_certs root = Inr cas" "tr_rekor_keys root = Inr keys"
      "pem_to_der sg cert = Inr der" "sg_x509 sg der = Inr leaf" "leaf_chains sg cas leaf"
      "sint (x_not_before leaf) \<le> rp_integrated_time (rb_payload rekor)"
      "rp_integrated_time (rb_payload rekor) \<le> sint (x_not_after leaf)"
      "entry_binds sg (rp_body (rb_payload rekor)) m der" "entry_timestamped sg rekor keys"
      "list_ex (signer_matches (identity_of_extensions sg (x_extensions leaf))) signers"
      "leaf_signed sg leaf sig64 m"
    unfolding bundle_authentic_def by (elim exE conjE) (rule that)
  have "verify_cert_and_rekor sg cert m (cb_rekor_bundle b) = Inr ()"
    unfolding verify_cert_and_rekor_iff using * by metis
  moreover have "signers \<noteq> []" using *(15) by auto
  ultimately show "verify_manifest_bundle sg m bb signers = Inr ()"
    using * by (simp add: verify_manifest_bundle_def extract_identity_claims_def result_simps
        identity_matches_allowlist_def verify_blob_signature_iff)
qed

lemma ref_matches_iff:
  "ref_matches pattern actual \<longleftrightarrow>
     (if ends_with ''*'' pattern then \<exists>rest. actual = butlast pattern @ rest else actual = pattern)"
proof (cases "strip_suffix ''*'' pattern")
  case None
  then show ?thesis by (auto simp: ref_matches_def ends_with_def)
next
  case (Some p)
  then have "pattern = p @ ''*''" by (simp add: str_simps)
  then have "butlast pattern = p" by simp
  moreover have "ends_with ''*'' pattern" using Some by (simp add: ends_with_def)
  moreover have "ref_matches pattern actual \<longleftrightarrow> (\<exists>rest. actual = p @ rest)"
    unfolding ref_matches_def by (simp only: Some option.case starts_with_iff)
  ultimately show ?thesis by simp
qed

lemma signer_matches_iff:
  "signer_matches c s \<longleftrightarrow>
     ci_issuer c = Some (as_issuer s) \<and> ci_repo c = Some (as_repo s)
     \<and> (\<exists>rest. ci_workflow_uri c = Some (as_workflow s @ ''@'' @ rest))
     \<and> (\<exists>rf. ci_ref_claim c = Some rf \<and> ref_matches (as_ref_pattern s) rf)"
  by (auto simp: signer_matches_def str_simps split: option.splits)

subsection \<open>Which extension a claim comes from\<close>

definition last_ext :: "string \<Rightarrow> (string \<times> bytes) list \<Rightarrow> bytes option" where
  "last_ext oid es = map_of (rev es) oid"

lemma last_ext_snoc: "last_ext oid (es @ [(o', b)]) = (if o' = oid then Some b else last_ext oid es)"
  by (simp add: last_ext_def)

lemma scan_projections:
  "ci_issuer (cs_id (scan_extension sg (oid, b) c)) =
     (if oid = oid_issuer then der_utf8 sg b else ci_issuer (cs_id c))"
  "cs_issuer_v1 (scan_extension sg (oid, b) c) =
     (if oid = oid_issuer_v1 then raw_utf8 b else cs_issuer_v1 c)"
  "ci_repo (cs_id (scan_extension sg (oid, b) c)) =
     (if oid = oid_repo_uri then der_utf8 sg b else ci_repo (cs_id c))"
  "cs_repo_v1 (scan_extension sg (oid, b) c) = (if oid = oid_repo_v1 then raw_utf8 b else cs_repo_v1 c)"
  "ci_ref_claim (cs_id (scan_extension sg (oid, b) c)) =
     (if oid = oid_ref then der_utf8 sg b else ci_ref_claim (cs_id c))"
  "cs_ref_v1 (scan_extension sg (oid, b) c) = (if oid = oid_ref_v1 then raw_utf8 b else cs_ref_v1 c)"
  using oids_distinct by (auto simp: scan_extension_def Let_def split: option.split)

lemma scan_claims:
  fixes sg :: "'k sigstore"
  defines "c es \<equiv> fold (scan_extension sg) es
     \<lparr>cs_id = no_claims, cs_issuer_v1 = None, cs_repo_v1 = None, cs_ref_v1 = None\<rparr>"
  shows "ci_issuer (cs_id (c es)) = Option.bind (last_ext oid_issuer es) (der_utf8 sg)
    \<and> cs_issuer_v1 (c es) = Option.bind (last_ext oid_issuer_v1 es) raw_utf8
    \<and> ci_repo (cs_id (c es)) = Option.bind (last_ext oid_repo_uri es) (der_utf8 sg)
    \<and> cs_repo_v1 (c es) = Option.bind (last_ext oid_repo_v1 es) raw_utf8
    \<and> ci_ref_claim (cs_id (c es)) = Option.bind (last_ext oid_ref es) (der_utf8 sg)
    \<and> cs_ref_v1 (c es) = Option.bind (last_ext oid_ref_v1 es) raw_utf8"
proof (induction es rule: rev_induct)
  case Nil
  then show ?case by (simp add: c_def no_claims_def last_ext_def)
next
  case (snoc e es)
  obtain o' b where e: "e = (o', b)" by (cases e)
  have "c (es @ [e]) = scan_extension sg (o', b) (c es)" by (simp add: c_def e)
  then show ?case using snoc by (simp only: e last_ext_snoc scan_projections) auto
qed

subsection \<open>Properties\<close>

text \<open>C2: verification fails closed. \<open>verify_manifest_bundle\<close> accepts exactly when every piece of
  evidence is there: a parsable bundle with certificate, signature and Rekor entry, a leaf certificate
  signed by a trusted CA, the Rekor time within its validity, an entry that binds the hash of these
  manifest bytes and this certificate, a Rekor signature over the canonical entry, an allowed identity,
  and the leaf's signature over the manifest bytes.\<close>

theorem verification_is_exactly_the_evidence:
  "verify_manifest_bundle sg manifest_bytes bundle_bytes signers = Inr () \<longleftrightarrow>
     bundle_authentic sg manifest_bytes bundle_bytes signers"
  by (rule verify_bundle_iff)

text \<open>An identity is accepted exactly when one allowlist row has its issuer and repository, its
  workflow URI is the row's workflow followed by \<open>@\<close>, and its ref matches the row's pattern, where a
  final \<open>*\<close> stands for any rest and nothing else is a wildcard.\<close>

lemma identity_accepted_iff:
  "identity_matches_allowlist claims signers \<longleftrightarrow>
     (\<exists>s\<in>set signers. ci_issuer claims = Some (as_issuer s) \<and> ci_repo claims = Some (as_repo s)
        \<and> (\<exists>rest. ci_workflow_uri claims = Some (as_workflow s @ ''@'' @ rest))
        \<and> (\<exists>rf. ci_ref_claim claims = Some rf
             \<and> (if ends_with ''*'' (as_ref_pattern s) then \<exists>rest. rf = butlast (as_ref_pattern s) @ rest
                else rf = as_ref_pattern s)))"
  unfolding identity_matches_allowlist_def list_ex_iff signer_matches_iff ref_matches_iff ..

text \<open>Where the claims come from. Each claim is the last current Fulcio extension of its kind, decoded,
  and the deprecated extension when that one is absent, malformed or empty; a deprecated repository
  gets the GitHub prefix. The documentation promises the fallback only for an absent extension.\<close>

lemma claims_fall_back_on_deprecated_extensions:
  "ci_issuer (identity_of_extensions sg (Some es)) =
     opt_or (Option.bind (last_ext oid_issuer es) (der_utf8 sg))
            (Option.bind (last_ext oid_issuer_v1 es) raw_utf8)
   \<and> ci_repo (identity_of_extensions sg (Some es)) =
     opt_or (Option.bind (last_ext oid_repo_uri es) (der_utf8 sg))
            (map_option (\<lambda>r. ''https://github.com/'' @ r)
               (Option.bind (last_ext oid_repo_v1 es) raw_utf8))
   \<and> ci_ref_claim (identity_of_extensions sg (Some es)) =
     opt_or (Option.bind (last_ext oid_ref es) (der_utf8 sg))
            (Option.bind (last_ext oid_ref_v1 es) raw_utf8)"
  using scan_claims [of sg es] by (simp add: identity_of_extensions_def Let_def)

end
