(* ===== verification/Download.thy ===== *)
theory Download
  imports Manifest Utf8
begin

section \<open>Downloads (src/upgrade/download.rs)\<close>

text \<open>
  \<open>fetch_text\<close> and \<open>fetch_with_sha256\<close> with their retries, caps and digest check, and the redirect
  policy. The HTTP client is an argument: what a request to a URL comes back with on each attempt,
  redirects followed. Each fetch also yields the pauses it made between attempts.
\<close>

definition max_manifest_bytes :: nat where "max_manifest_bytes = 1024 * 1024"
definition max_tarball_bytes :: nat where "max_tarball_bytes = 512 * 1024 * 1024"
definition max_attempts :: nat where "max_attempts = 3"

record response =
  rs_status :: nat
  rs_content_length :: "u64 option"
  rs_chunks :: "(string + bytes) list"

type_synonym http = "string \<Rightarrow> nat \<Rightarrow> string + response"

definition is_success :: "nat \<Rightarrow> bool" where
  "is_success s = (200 \<le> s \<and> s < 300)"

definition is_retryable_status :: "nat \<Rightarrow> bool" where
  "is_retryable_status s = (500 \<le> s \<and> s < 600 \<or> s = 429 \<or> s = 408)"

text \<open>\<open>250u64.checked_shl(attempt).unwrap_or(2000)\<close>, at most 2000; \<open>checked_shl\<close> fails from 64 on.\<close>

definition backoff_pause :: "nat \<Rightarrow> duration" where
  "backoff_pause attempt =
     (let ms = (if attempt < 64 then unat (push_bit attempt (250 :: u64)) else 2000)
      in millis (min ms 2000))"

text \<open>\<open>Response::bytes\<close>: the whole body, or the first error.\<close>

fun body_of :: "(string + bytes) list \<Rightarrow> string + bytes" where
  "body_of [] = Inr []"
| "body_of (Inl e # cs) = Inl e"
| "body_of (Inr b # cs) = bindR (body_of cs) (\<lambda>bs. Inr (b @ bs))"

subsection \<open>fetch_text\<close>

fun fetch_text_loop ::
  "http \<Rightarrow> string \<Rightarrow> nat \<Rightarrow> nat \<Rightarrow> anyhow option \<Rightarrow> (anyhow + bytes) \<times> duration list" where
  "fetch_text_loop http u 0 attempt last_err =
     (Inl (case last_err of Some e \<Rightarrow> e | None \<Rightarrow> [Download FetchTextExhausted]), [])"
| "fetch_text_loop http u (Suc left) attempt last_err =
     (case http u attempt of
        Inr resp \<Rightarrow>
          if \<not> is_success (rs_status resp) then
            let err = [Download (HttpStatus (rs_status resp) u)] in
            if \<not> is_retryable_status (rs_status resp) then (Inl err, [])
            else let (r, ps) = fetch_text_loop http u left (Suc attempt) (Some err)
                 in (r, backoff_pause attempt # ps)
          else
            (bindR (with_source (Download (BodyUnreadable u)) (body_of (rs_chunks resp))) (\<lambda>bytes.
             bindR (bail_if (length bytes > max_manifest_bytes)
                      [Download (ManifestTooLarge u (length bytes))]) (\<lambda>_.
             if from_utf8 bytes \<noteq> None then Inr bytes else Inl [Download (BodyNotUtf8 u)])), [])
      | Inl e \<Rightarrow>
          let (r, ps) = fetch_text_loop http u left (Suc attempt) (Some [Download (NetworkError u e)])
          in (r, backoff_pause attempt # ps))"

definition fetch_text ::
  "url_parser \<Rightarrow> string + unit \<Rightarrow> http \<Rightarrow> string \<Rightarrow> (anyhow + bytes) \<times> duration list" where
  "fetch_text parse client http u =
     (case bindR (validate_url_host parse u) (\<lambda>_. with_source (Download ClientBuildFailed) client) of
        Inl e \<Rightarrow> (Inl e, [])
      | Inr _ \<Rightarrow> fetch_text_loop http u max_attempts 0 None)"

subsection \<open>fetch_with_sha256\<close>

fun stream_body :: "string \<Rightarrow> bytes \<Rightarrow> (string + bytes) list \<Rightarrow> anyhow + bytes" where
  "stream_body u buf [] = Inr buf"
| "stream_body u buf (Inl e # cs) = Inl [Download (ChunkUnreadable u), Source e]"
| "stream_body u buf (Inr chunk # cs) =
     (if length buf + length chunk > max_tarball_bytes then Inl [Download (BodyOverCap u)]
      else stream_body u (buf @ chunk) cs)"

definition checked_body ::
  "(bytes \<Rightarrow> bytes) \<Rightarrow> string \<Rightarrow> string \<Rightarrow> response \<Rightarrow> anyhow + bytes" where
  "checked_body sha256 u expected resp =
     bindR (case rs_content_length resp of
              None \<Rightarrow> Inr ()
            | Some len \<Rightarrow> bail_if (unat len > max_tarball_bytes)
                [Download (ContentLengthOverCap u (unat len))]) (\<lambda>_.
     bindR (stream_body u [] (rs_chunks resp)) (\<lambda>buf.
     let got = hex_of (sha256 buf) in
     bindR (bail_if (\<not> eq_ignore_case got expected)
              [Download (ChecksumMismatch u expected got (length buf))]) (\<lambda>_.
     Inr buf)))"

fun fetch_sha_loop ::
  "(bytes \<Rightarrow> bytes) \<Rightarrow> http \<Rightarrow> string \<Rightarrow> string \<Rightarrow> nat \<Rightarrow> nat \<Rightarrow> anyhow option
     \<Rightarrow> (anyhow + bytes) \<times> duration list" where
  "fetch_sha_loop sha256 http u expected 0 attempt last_err =
     (Inl (case last_err of Some e \<Rightarrow> e | None \<Rightarrow> [Download FetchShaExhausted]), [])"
| "fetch_sha_loop sha256 http u expected (Suc left) attempt last_err =
     (case http u attempt of
        Inr resp \<Rightarrow>
          if \<not> is_success (rs_status resp) then
            let err = [Download (HttpStatus (rs_status resp) u)] in
            if \<not> is_retryable_status (rs_status resp) then (Inl err, [])
            else let (r, ps) = fetch_sha_loop sha256 http u expected left (Suc attempt) (Some err)
                 in (r, backoff_pause attempt # ps)
          else (checked_body sha256 u expected resp, [])
      | Inl e \<Rightarrow>
          let (r, ps) = fetch_sha_loop sha256 http u expected left (Suc attempt)
                (Some [Download (NetworkError u e)])
          in (r, backoff_pause attempt # ps))"

definition fetch_with_sha256 ::
  "url_parser \<Rightarrow> string + unit \<Rightarrow> (bytes \<Rightarrow> bytes) \<Rightarrow> http \<Rightarrow> string \<Rightarrow> string
     \<Rightarrow> (anyhow + bytes) \<times> duration list" where
  "fetch_with_sha256 parse client sha256 http u expected =
     (case bindR (validate_url_host parse u) (\<lambda>_.
           bindR (bail_if (length expected \<noteq> 64 \<or> \<not> list_all is_hexdigit expected)
                    [Download (BadExpectedSha256 expected)]) (\<lambda>_.
           with_source (Download ClientBuildFailed) client)) of
        Inl e \<Rightarrow> (Inl e, [])
      | Inr _ \<Rightarrow> fetch_sha_loop sha256 http u expected max_attempts 0 None)"

subsection \<open>Redirects\<close>

datatype redirect_action = Follow | RedirectError string

text \<open>The custom policy: \<open>previous\<close> is how many URLs the request has already visited, its own included.\<close>

definition redirect_policy :: "nat \<Rightarrow> url \<Rightarrow> redirect_action" where
  "redirect_policy previous u =
     (if previous \<ge> 5 then RedirectError ''too many redirects''
      else if url_scheme u \<noteq> ''https'' then RedirectError ''redirect must stay on https''
      else if (case url_host_str u of Some h \<Rightarrow> redirect_host_allowed h | None \<Rightarrow> False) then Follow
      else RedirectError ''redirect to disallowed host'')"

text \<open>A chain of redirects the policy lets a request follow.\<close>

fun redirects_followed :: "nat \<Rightarrow> url list \<Rightarrow> bool" where
  "redirects_followed previous [] = True"
| "redirects_followed previous (u # us) =
     (redirect_policy previous u = Follow \<and> redirects_followed (Suc previous) us)"

subsection \<open>Lemmas\<close>

lemma body_of_concat: "body_of cs = Inr b \<Longrightarrow> \<exists>bs. cs = map Inr bs \<and> b = concat bs"
proof (induction cs arbitrary: b rule: body_of.induct)
  case (3 c cs)
  then obtain d where "body_of cs = Inr d" "b = c @ d" by (auto simp: result_simps)
  moreover from this 3 obtain bs where "cs = map Inr bs" "d = concat bs" by blast
  ultimately show ?case by (intro exI [of _ "c # bs"]) simp
qed auto

lemma stream_body_concat:
  "stream_body u buf cs = Inr b \<Longrightarrow> length buf \<le> max_tarball_bytes \<Longrightarrow>
     (\<exists>bs. cs = map Inr bs \<and> b = buf @ concat bs) \<and> length b \<le> max_tarball_bytes"
proof (induction u buf cs rule: stream_body.induct)
  case (3 u buf chunk cs)
  then have le: "length (buf @ chunk) \<le> max_tarball_bytes" and st: "stream_body u (buf @ chunk) cs = Inr b"
    by (auto split: if_splits)
  with 3 obtain bs where "cs = map Inr bs" "b = (buf @ chunk) @ concat bs" "length b \<le> max_tarball_bytes"
    by (auto split: if_splits)
  then show ?case by (intro conjI exI [of _ "chunk # bs"]) simp_all
qed auto

definition served :: "http \<Rightarrow> string \<Rightarrow> nat \<Rightarrow> bytes \<Rightarrow> bool" where
  "served http u attempt b =
     (\<exists>resp bs. http u attempt = Inr resp \<and> is_success (rs_status resp)
        \<and> rs_chunks resp = map Inr bs \<and> b = concat bs)"

lemma checked_body_ok:
  "checked_body sha256 u expected resp = Inr b \<Longrightarrow>
     eq_ignore_case (hex_of (sha256 b)) expected \<and> length b \<le> max_tarball_bytes
     \<and> (\<exists>bs. rs_chunks resp = map Inr bs \<and> b = concat bs)"
  using stream_body_concat [of u "[]" "rs_chunks resp" b]
  by (auto simp: checked_body_def result_simps Let_def split: option.splits)

lemma fetch_sha_loop_ok:
  "fst (fetch_sha_loop sha256 http u expected n a le) = Inr b \<Longrightarrow>
     eq_ignore_case (hex_of (sha256 b)) expected \<and> length b \<le> max_tarball_bytes
     \<and> (\<exists>k. a \<le> k \<and> k < a + n \<and> served http u k b)"
proof (induction n arbitrary: a le)
  case (Suc n)
  consider resp where "http u a = Inr resp" "is_success (rs_status resp)"
      "checked_body sha256 u expected resp = Inr b"
    | le' where "fst (fetch_sha_loop sha256 http u expected n (Suc a) le') = Inr b"
    using Suc.prems by (fastforce simp: Let_def split_beta split: sum.splits if_splits)
  then show ?case
  proof cases
    case 1
    then show ?thesis using checked_body_ok [OF 1(3)] by (auto simp: served_def)
  next
    case 2
    from Suc.IH [OF this] show ?thesis by (metis Suc_leD add_Suc_right add_Suc)
  qed
qed simp

lemma fetch_text_loop_ok:
  "fst (fetch_text_loop http u n a le) = Inr b \<Longrightarrow>
     length b \<le> max_manifest_bytes \<and> from_utf8 b \<noteq> None
     \<and> (\<exists>k. a \<le> k \<and> k < a + n \<and> served http u k b)"
proof (induction n arbitrary: a le)
  case (Suc n)
  consider resp where "http u a = Inr resp" "is_success (rs_status resp)"
      "body_of (rs_chunks resp) = Inr b" "length b \<le> max_manifest_bytes" "from_utf8 b \<noteq> None"
    | le' where "fst (fetch_text_loop http u n (Suc a) le') = Inr b"
    using Suc.prems
    by (fastforce simp: Let_def split_beta with_source_def result_simps split: sum.splits if_splits)
  then show ?case
  proof cases
    case 1
    then show ?thesis using body_of_concat [OF 1(3)] by (auto simp: served_def)
  next
    case 2
    from Suc.IH [OF this] show ?thesis by (metis Suc_leD add_Suc_right add_Suc)
  qed
qed simp

lemma pauses_of_loops:
  "\<exists>k\<le>n. snd (fetch_sha_loop sha256 http u expected n a le) = map backoff_pause [a..<a + k]"
  "\<exists>k\<le>n. snd (fetch_text_loop http u n a le) = map backoff_pause [a..<a + k]"
proof -
  have cons: "\<exists>k'\<le>Suc n. backoff_pause a # ps = map backoff_pause [a..<a + k']"
    if "\<exists>k\<le>n. ps = map backoff_pause [Suc a..<Suc a + k]" for a n ps
  proof -
    from that obtain k where "k \<le> n" "ps = map backoff_pause [Suc a..<Suc a + k]" by blast
    moreover have "[a..<a + Suc k] = a # [Suc a..<Suc a + k]" by (simp add: upt_conv_Cons del: upt_Suc)
    ultimately show ?thesis by (intro exI [of _ "Suc k"]) simp
  qed
  have nil: "\<exists>k\<le>n. [] = map backoff_pause [a..<a + k]" for n a by (intro exI [of _ 0]) simp
  show "\<exists>k\<le>n. snd (fetch_sha_loop sha256 http u expected n a le) = map backoff_pause [a..<a + k]"
  proof (induction n arbitrary: a le)
    case (Suc n)
    then show ?case
      using nil cons [OF Suc.IH] by (auto simp: Let_def split_beta split: sum.splits)
  qed simp
  show "\<exists>k\<le>n. snd (fetch_text_loop http u n a le) = map backoff_pause [a..<a + k]"
  proof (induction n arbitrary: a le)
    case (Suc n)
    then show ?case
      using nil cons [OF Suc.IH] by (auto simp: Let_def split_beta split: sum.splits)
  qed simp
qed

lemma pause_values: "backoff_pause 0 = millis 250" "backoff_pause (Suc 0) = millis 500"
  "backoff_pause 2 = millis 1000"
  by (simp_all add: backoff_pause_def push_bit_eq_mult)

lemma three_pauses: "k \<le> 3 \<Longrightarrow> sum_list (map backoff_pause [0..<k]) \<le> millis 1750"
proof -
  assume "k \<le> 3"
  then consider "k = 0" | "k = 1" | "k = 2" | "k = 3" by linarith
  then show ?thesis
    by cases (simp_all add: upt_rec pause_values millis_def numeral_2_eq_2 [symmetric])
qed

subsection \<open>Properties\<close>

text \<open>C14: bytes that \<open>fetch_with_sha256\<close> returns came from an https URL of an allowed host, are the body
  a successful response served within three attempts, are at most 512 MiB, and hash to the expected
  digest; the pauses between attempts add up to at most 1.75 s, whatever the server does.\<close>

theorem download_is_what_was_asked_for:
  assumes "fetch_with_sha256 parse client sha256 http u expected = (Inr b, pauses)"
  shows "url_host_ok parse u \<and> length b \<le> 512 * 1024 * 1024
    \<and> hex_of (sha256 b) = map ascii_lower expected
    \<and> (\<exists>attempt < 3. served http u attempt b) \<and> sum_list pauses \<le> millis 1750"
proof -
  have run: "fetch_sha_loop sha256 http u expected 3 0 None = (Inr b, pauses)" and url: "url_host_ok parse u"
    using assms by (auto simp: fetch_with_sha256_def result_simps validate_url_host_iff max_attempts_def
        split: sum.splits)
  have "eq_ignore_case (hex_of (sha256 b)) expected \<and> length b \<le> max_tarball_bytes
      \<and> (\<exists>k. 0 \<le> k \<and> k < 0 + 3 \<and> served http u k b)"
    by (rule fetch_sha_loop_ok [of sha256 http u expected 3 0 None]) (simp only: run fst_conv)
  moreover obtain k where "k \<le> 3" "pauses = map backoff_pause [0..<0 + k]"
    using pauses_of_loops(1) [of 3 sha256 http u expected 0 None] unfolding run by auto
  ultimately show ?thesis
    using url three_pauses [of k] by (auto simp: eq_ignore_case_def max_tarball_bytes_def)
qed

theorem download_is_what_was_asked_for_witness:
  "served (\<lambda>_ n. if n = 0 then Inl ''reset'' else Inr \<lparr>rs_status = 200, rs_content_length = None,
      rs_chunks = [Inr [1], Inr [2]]\<rparr>) ''https://github.com/x'' 1 [1, 2]
   \<and> length [1 :: u8, 2] \<le> 512 * 1024 * 1024"
proof -
  let ?http = "\<lambda>_ n. if n = 0 then Inl ''reset'' else Inr \<lparr>rs_status = 200, rs_content_length = None,
      rs_chunks = [Inr [1], Inr [2]]\<rparr> :: string + response"
  let ?parse = "\<lambda>u. Inr \<lparr>url_scheme = ''https'', url_host_of = Some (Domain ''github.com''),
             url_host_str = Some ''github.com'', url_port_or_known_default = Some 443\<rparr> :: string + url"
  let ?sha = "\<lambda>_. replicate 32 0 :: bytes"
  have hex: "hex_of (replicate n 0) = replicate (2 * n) (CHR ''0'')" for n
    by (induction n) (simp_all add: hex_byte_def digit_char_def)
  have run: "fetch_with_sha256 ?parse (Inr ()) ?sha ?http ''https://github.com/x''
      (replicate 64 (CHR ''0'')) = (Inr [1, 2], [backoff_pause 0])"
    using hex [of 32]
    by (simp add: fetch_with_sha256_def validate_url_host_def allowed_url_hosts_def list_all_iff
        is_hexdigit_def with_source_def max_attempts_def numeral_3_eq_3 is_success_def
        checked_body_def max_tarball_bytes_def eq_ignore_case_def)
  have "served ?http ''https://github.com/x'' 1 [1, 2]"
    by (auto simp: served_def is_success_def intro!: exI [of _ "[[1], [2]]"])
  then show ?thesis using download_is_what_was_asked_for [OF run] by blast
qed

text \<open>Whatever redirects a server answers with, the ones the client follows are at most four, all on
  https, all to \<open>github.com\<close> or a host of the \<open>githubusercontent.com\<close> domain.\<close>

lemma followed_redirects_are_confined:
  assumes "redirects_followed 1 us"
  shows "length us \<le> 4 \<and>
    list_all (\<lambda>u. url_scheme u = ''https'' \<and>
      (\<exists>h. url_host_str u = Some h \<and>
         (h = ''github.com'' \<or> (\<exists>ls. labels h = ls @ [''githubusercontent'', ''com''])))) us"
proof -
  have hop: "redirect_policy n u = Follow \<longleftrightarrow>
      n < 5 \<and> url_scheme u = ''https'' \<and> (\<exists>h. url_host_str u = Some h \<and> redirect_host_allowed h)" for n u
    by (auto simp: redirect_policy_def split: option.splits)
  have "redirects_followed n us \<Longrightarrow> n \<le> 5 \<Longrightarrow> n + length us \<le> 5" for n
    by (induction us arbitrary: n) (fastforce simp: hop)+
  moreover have "redirects_followed n us \<Longrightarrow>
      list_all (\<lambda>u. url_scheme u = ''https'' \<and> (\<exists>h. url_host_str u = Some h \<and> redirect_host_allowed h)) us"
    for n by (induction us arbitrary: n) (auto simp: hop)
  ultimately show ?thesis using assms redirect_label_forms by (fastforce simp: list_all_iff)
qed

end
