(* ===== verification/Fs.thy ===== *)
theory Fs
  imports UpgradeErrors Channel
begin

section \<open>The file system the upgrade works on\<close>

text \<open>
  The part of POSIX and \<open>std::fs\<close> the upgrade uses: a tree of files, directories and symbolic links
  with modification times, and one operation per system call. A program is a state transformer that can
  fail (\<open>io\<close>). Every call may fail for reasons of its own (a full disk, a missing permission): the world
  says which. The world also keeps the trail of trees that were on the disk after each call, which is
  what a crash can leave behind.

  Paths are absolute lists of components; the components before the last are directories, not links (the
  install root is given in resolved form). The contents of files are of any type: the code reads and
  writes \<open>state.json\<close> through a codec and never looks inside the rest.
\<close>

type_synonym path = "string list"
type_synonym utc = int

datatype 'c node = FileNode nat 'c | DirNode | LinkNode path

type_synonym 'c fs = "(path \<times> utc \<times> 'c node) list"

definition node_at :: "'c fs \<Rightarrow> path \<Rightarrow> 'c node option" where
  "node_at fs p = (if p = [] then Some DirNode else map_option snd (map_of fs p))"

definition mtime_at :: "'c fs \<Rightarrow> path \<Rightarrow> utc option" where
  "mtime_at fs p = map_option fst (map_of fs p)"

definition put_node :: "utc \<Rightarrow> path \<Rightarrow> 'c node \<Rightarrow> 'c fs \<Rightarrow> 'c fs" where
  "put_node t p n fs = (p, t, n) # filter (\<lambda>(q, _). q \<noteq> p) fs"

definition del_node :: "path \<Rightarrow> 'c fs \<Rightarrow> 'c fs" where
  "del_node p fs = filter (\<lambda>(q, _). q \<noteq> p) fs"

text \<open>A change of the entries of a directory sets its modification time.\<close>

definition touch :: "utc \<Rightarrow> path \<Rightarrow> 'c fs \<Rightarrow> 'c fs" where
  "touch t p fs = map (\<lambda>(q, u, n). (q, if q = p then t else u, n)) fs"

definition del_tree :: "path \<Rightarrow> 'c fs \<Rightarrow> 'c fs" where
  "del_tree p fs = filter (\<lambda>(q, _). take (length p) q \<noteq> p) fs"

definition move_tree :: "path \<Rightarrow> path \<Rightarrow> 'c fs \<Rightarrow> 'c fs" where
  "move_tree a b fs =
     map (\<lambda>(q, e). (if take (length a) q = a then b @ drop (length a) q else q, e)) (del_tree b fs)"

definition children :: "'c fs \<Rightarrow> path \<Rightarrow> string list" where
  "children fs p = map last (filter (\<lambda>q. q \<noteq> [] \<and> butlast q = p) (map fst fs))"

text \<open>Following links at the end of a path, at most 40 of them as Linux does.\<close>

fun resolve_n :: "nat \<Rightarrow> 'c fs \<Rightarrow> path \<Rightarrow> path option" where
  "resolve_n 0 fs p = None"
| "resolve_n (Suc n) fs p =
     (case node_at fs p of Some (LinkNode q) \<Rightarrow> resolve_n n fs q | _ \<Rightarrow> Some p)"

definition resolve :: "'c fs \<Rightarrow> path \<Rightarrow> path option" where
  "resolve fs p = resolve_n 41 fs p"

definition followed :: "'c fs \<Rightarrow> path \<Rightarrow> 'c node option" where
  "followed fs p = Option.bind (resolve fs p) (node_at fs)"

definition parent_is_dir :: "'c fs \<Rightarrow> path \<Rightarrow> bool" where
  "parent_is_dir fs p = (p \<noteq> [] \<and> node_at fs (butlast p) = Some DirNode)"

subsection \<open>Nodes after an update\<close>

text \<open>The laws of a store of nodes, and what moving an entry does under them.\<close>

locale node_store =
  fixes node :: "'s \<Rightarrow> 'k \<Rightarrow> 'v option"
    and put :: "'k \<Rightarrow> 'v \<Rightarrow> 's \<Rightarrow> 's"
    and del :: "'k \<Rightarrow> 's \<Rightarrow> 's"
    and movable :: "'k \<Rightarrow> bool"
  assumes node_put: "movable k \<Longrightarrow> node (put k v s) j = (if j = k then Some v else node s j)"
    and node_del: "movable k \<Longrightarrow> node (del k s) j = (if j = k then None else node s j)"
begin

lemma node_move:
  "movable a \<Longrightarrow> movable b \<Longrightarrow>
     node (put b v (del a s)) j = (if j = b then Some v else if j = a then None else node s j)"
  by (simp add: node_put node_del)

lemma put_put: "movable k \<Longrightarrow> node (put k v (put k u s)) j = node (put k v s) j"
  by (simp add: node_put)

lemma put_other: "movable k \<Longrightarrow> j \<noteq> k \<Longrightarrow> node (put k v s) j = node s j"
  by (simp add: node_put)

end

lemma map_of_filter_key: "map_of (filter (\<lambda>(q, _). q \<noteq> p) fs) j = (if j = p then None else map_of fs j)"
  by (induction fs) auto

interpretation nodes: node_store node_at "put_node t" del_node "\<lambda>p. p \<noteq> []" for t
  by unfold_locales (auto simp: node_at_def put_node_def del_node_def map_of_filter_key)

lemma node_touch [simp]: "node_at (touch t p fs) q = node_at fs q"
proof -
  have "map_of (touch t p fs) q = map_option (\<lambda>(u, n). (if q = p then t else u, n)) (map_of fs q)"
    by (induction fs) (auto simp: touch_def)
  then show ?thesis by (cases "map_of fs q") (auto simp: node_at_def)
qed

lemma node_del_tree:
  "p \<noteq> [] \<Longrightarrow> node_at (del_tree p fs) q = (if take (length p) q = p then None else node_at fs q)"
proof -
  assume "p \<noteq> []"
  moreover have "map_of (del_tree p fs) q = (if take (length p) q = p then None else map_of fs q)"
    by (induction fs) (auto simp: del_tree_def)
  ultimately show ?thesis by (auto simp: node_at_def)
qed

subsection \<open>Worlds and programs\<close>

record 'c world =
  w_fs :: "'c fs"
  w_trail :: "'c fs list"
  w_calls :: nat
  w_fault :: "nat \<Rightarrow> bool"
  w_time :: "nat \<Rightarrow> utc"
  w_events :: "upgrade_event chan"

type_synonym ('a, 'c) io = "'c world \<Rightarrow> (anyhow + 'a) \<times> 'c world"

definition ret :: "'a \<Rightarrow> ('a, 'c) io" where
  "ret x w = (Inr x, w)"

definition lift :: "anyhow + 'a \<Rightarrow> ('a, 'c) io" where
  "lift r w = (r, w)"

definition bindIO :: "('a, 'c) io \<Rightarrow> ('a \<Rightarrow> ('b, 'c) io) \<Rightarrow> ('b, 'c) io" where
  "bindIO m f w = (case m w of (Inl e, w') \<Rightarrow> (Inl e, w') | (Inr x, w') \<Rightarrow> f x w')"

definition ctx :: "up_msg \<Rightarrow> ('a, 'c) io \<Rightarrow> ('a, 'c) io" where
  "ctx c m w = (case m w of (r, w') \<Rightarrow> (with_context c r, w'))"

text \<open>\<open>.ok()\<close>, and \<open>let _ = ...\<close>.\<close>

definition attempt :: "('a, 'c) io \<Rightarrow> ('a option, 'c) io" where
  "attempt m w = (case m w of (Inl e, w') \<Rightarrow> (Inr None, w') | (Inr x, w') \<Rightarrow> (Inr (Some x), w'))"

definition ignore :: "('a, 'c) io \<Rightarrow> (unit, 'c) io" where
  "ignore m w = (Inr (), snd (m w))"

text \<open>\<open>Utc::now()\<close>.\<close>

definition now_io :: "(utc, 'c) io" where
  "now_io w = (Inr (w_time w (w_calls w)), w\<lparr>w_calls := Suc (w_calls w)\<rparr>)"

text \<open>A system call: it fails as the world says, fails as the operation says, or changes the tree.\<close>

definition syscall :: "('c fs \<Rightarrow> utc \<Rightarrow> string + 'a \<times> 'c fs) \<Rightarrow> ('a, 'c) io" where
  "syscall f w =
     (let w' = w\<lparr>w_calls := Suc (w_calls w)\<rparr> in
      if w_fault w (w_calls w) then (Inl [Source ''I/O error''], w')
      else (case f (w_fs w) (w_time w (w_calls w)) of
          Inl e \<Rightarrow> (Inl [Source e], w')
        | Inr (x, fs') \<Rightarrow> (Inr x, w'\<lparr>w_fs := fs', w_trail := w_trail w @ [fs']\<rparr>)))"

definition try_event :: "upgrade_event \<Rightarrow> (unit, 'c) io" where
  "try_event e w =
     (Inr (), (case try_send e (w_events w) of Sent c \<Rightarrow> w\<lparr>w_events := c\<rparr> | _ \<Rightarrow> w))"

text \<open>\<open>events.send(e).await\<close>: waits for room, so the event is queued unless the receiver is gone.\<close>

definition send_event :: "upgrade_event \<Rightarrow> (unit, 'c) io" where
  "send_event e w =
     (Inr (), (if ch_rx_open (w_events w)
               then w\<lparr>w_events := (w_events w)\<lparr>ch_items := ch_items (w_events w) @ [e]\<rparr>\<rparr> else w))"

text \<open>Programs with errors of their own, around these.\<close>

type_synonym ('e, 'a, 'c) prog = "'c world \<Rightarrow> ('e + 'a) \<times> 'c world"

definition pureS :: "'e + 'a \<Rightarrow> ('e, 'a, 'c) prog" where
  "pureS r w = (r, w)"

definition bindS :: "('e, 'a, 'c) prog \<Rightarrow> ('a \<Rightarrow> ('e, 'b, 'c) prog) \<Rightarrow> ('e, 'b, 'c) prog" where
  "bindS m f w = (case m w of (Inl e, w') \<Rightarrow> (Inl e, w') | (Inr x, w') \<Rightarrow> f x w')"

definition ioS :: "(anyhow \<Rightarrow> 'e) \<Rightarrow> ('a, 'c) io \<Rightarrow> ('e, 'a, 'c) prog" where
  "ioS h m w = (case m w of (r, w') \<Rightarrow> (map_err h r, w'))"

subsection \<open>System calls\<close>

definition sys_nop :: "(unit, 'c) io" where
  "sys_nop = syscall (\<lambda>fs t. Inr ((), fs))"

text \<open>\<open>Path::exists\<close>, \<open>is_dir\<close>, \<open>is_file\<close>: false when the call fails.\<close>

definition query :: "('c fs \<Rightarrow> bool) \<Rightarrow> (bool, 'c) io" where
  "query f w =
     (Inr (\<not> w_fault w (w_calls w) \<and> f (w_fs w)), w\<lparr>w_calls := Suc (w_calls w)\<rparr>)"

definition path_exists :: "path \<Rightarrow> (bool, 'c) io" where
  "path_exists p = query (\<lambda>fs. followed fs p \<noteq> None)"

definition path_is_dir :: "path \<Rightarrow> (bool, 'c) io" where
  "path_is_dir p = query (\<lambda>fs. followed fs p = Some DirNode)"

definition is_file_node :: "'c node option \<Rightarrow> bool" where
  "is_file_node n = (case n of Some (FileNode _ _) \<Rightarrow> True | _ \<Rightarrow> False)"

definition path_is_file :: "path \<Rightarrow> (bool, 'c) io" where
  "path_is_file p = query (\<lambda>fs. is_file_node (followed fs p))"

definition sys_open :: "path \<Rightarrow> (unit, 'c) io" where
  "sys_open p = syscall (\<lambda>fs t.
     if is_file_node (followed fs p) then Inr ((), fs) else Inl ''No such file or directory'')"

definition sys_read :: "path \<Rightarrow> ('c, 'c) io" where
  "sys_read p = syscall (\<lambda>fs t.
     case followed fs p of Some (FileNode m c) \<Rightarrow> Inr (c, fs) | _ \<Rightarrow> Inl ''No such file or directory'')"

text \<open>\<open>OpenOptions\<close> with \<open>create_new(true)\<close>. Here as below, a new file has the mode 0644 (420), as the usual umask
  of 022 leaves it.\<close>

definition sys_create_new :: "path \<Rightarrow> 'c \<Rightarrow> (unit, 'c) io" where
  "sys_create_new p c = syscall (\<lambda>fs t.
     if node_at fs p \<noteq> None then Inl ''File exists''
     else if \<not> parent_is_dir fs p then Inl ''No such file or directory''
     else Inr ((), touch t (butlast p) (put_node t p (FileNode 420 c) fs)))"

text \<open>\<open>OpenOptions\<close> with \<open>create(true)\<close> and \<open>truncate(false)\<close>: an existing file is opened as it is.\<close>

definition sys_open_create :: "path \<Rightarrow> 'c \<Rightarrow> (unit, 'c) io" where
  "sys_open_create p c = syscall (\<lambda>fs t.
     case resolve fs p of
       None \<Rightarrow> Inl ''Too many levels of symbolic links''
     | Some q \<Rightarrow>
         (case node_at fs q of
            Some (FileNode _ _) \<Rightarrow> Inr ((), fs)
          | None \<Rightarrow> if parent_is_dir fs q
                     then Inr ((), touch t (butlast q) (put_node t q (FileNode 420 c) fs))
                     else Inl ''No such file or directory''
          | Some _ \<Rightarrow> Inl ''Is a directory''))"

text \<open>Writing to an open file.\<close>

definition sys_write :: "path \<Rightarrow> 'c \<Rightarrow> (unit, 'c) io" where
  "sys_write p c = syscall (\<lambda>fs t.
     case resolve fs p of
       None \<Rightarrow> Inl ''Too many levels of symbolic links''
     | Some q \<Rightarrow>
         (case node_at fs q of
            Some (FileNode m _) \<Rightarrow> Inr ((), put_node t q (FileNode m c) fs)
          | _ \<Rightarrow> Inl ''Bad file descriptor''))"

definition sys_create_dir :: "path \<Rightarrow> (unit, 'c) io" where
  "sys_create_dir p = syscall (\<lambda>fs t.
     if node_at fs p \<noteq> None then Inl ''File exists''
     else if \<not> parent_is_dir fs p then Inl ''No such file or directory''
     else Inr ((), touch t (butlast p) (put_node t p DirNode fs)))"

text \<open>\<open>create_dir_all\<close>, in one step: the prefixes of the path that are missing become directories.\<close>

fun make_dirs :: "utc \<Rightarrow> path list \<Rightarrow> 'c fs \<Rightarrow> (string + 'c fs)" where
  "make_dirs t [] fs = Inr fs"
| "make_dirs t (p # ps) fs =
     (case followed fs p of
        Some DirNode \<Rightarrow> make_dirs t ps fs
      | None \<Rightarrow> (if node_at fs p = None then make_dirs t ps (touch t (butlast p) (put_node t p DirNode fs))
                 else Inl ''No such file or directory'')
      | Some _ \<Rightarrow> Inl ''Not a directory'')"

definition sys_create_dir_all :: "path \<Rightarrow> (unit, 'c) io" where
  "sys_create_dir_all p = syscall (\<lambda>fs t.
     bindR (make_dirs t (map (\<lambda>n. take n p) [1..<Suc (length p)]) fs) (\<lambda>fs'. Inr ((), fs')))"

text \<open>\<open>remove_dir_all\<close>: a link is removed, not followed.\<close>

definition sys_remove_dir_all :: "path \<Rightarrow> (unit, 'c) io" where
  "sys_remove_dir_all p = syscall (\<lambda>fs t.
     case node_at fs p of
       Some DirNode \<Rightarrow> if p = [] then Inl ''Device or resource busy''
                       else Inr ((), touch t (butlast p) (del_tree p fs))
     | Some (LinkNode _) \<Rightarrow> Inr ((), touch t (butlast p) (del_node p fs))
     | Some (FileNode _ _) \<Rightarrow> Inl ''Not a directory''
     | None \<Rightarrow> Inl ''No such file or directory'')"

definition sys_remove_file :: "path \<Rightarrow> (unit, 'c) io" where
  "sys_remove_file p = syscall (\<lambda>fs t.
     case node_at fs p of
       Some DirNode \<Rightarrow> Inl ''Is a directory''
     | None \<Rightarrow> Inl ''No such file or directory''
     | Some _ \<Rightarrow> Inr ((), touch t (butlast p) (del_node p fs)))"

definition sys_symlink :: "path \<Rightarrow> path \<Rightarrow> (unit, 'c) io" where
  "sys_symlink target p = syscall (\<lambda>fs t.
     if node_at fs p \<noteq> None then Inl ''File exists''
     else if \<not> parent_is_dir fs p then Inl ''No such file or directory''
     else Inr ((), touch t (butlast p) (put_node t p (LinkNode target) fs)))"

definition sys_read_link :: "path \<Rightarrow> (path, 'c) io" where
  "sys_read_link p = syscall (\<lambda>fs t.
     case node_at fs p of Some (LinkNode q) \<Rightarrow> Inr (q, fs) | _ \<Rightarrow> Inl ''Invalid argument'')"

text \<open>\<open>rename\<close>: a file or a link replaces a file or a link; a directory moves to a free name, or over an
  empty directory, and never into itself.\<close>

definition sys_rename :: "path \<Rightarrow> path \<Rightarrow> (unit, 'c) io" where
  "sys_rename a b = syscall (\<lambda>fs t.
     if a = [] \<or> \<not> parent_is_dir fs b then Inl ''No such file or directory''
     else (case node_at fs a of
         None \<Rightarrow> Inl ''No such file or directory''
       | Some DirNode \<Rightarrow>
           if take (length a) b = a \<and> a \<noteq> b then Inl ''Invalid argument''
           else (case node_at fs b of
               Some DirNode \<Rightarrow> if a \<noteq> b \<and> children fs b \<noteq> [] then Inl ''Directory not empty''
                 else if a = b then Inr ((), fs)
                 else Inr ((), touch t (butlast a) (touch t (butlast b) (move_tree a b fs)))
             | None \<Rightarrow> Inr ((), touch t (butlast a) (touch t (butlast b) (move_tree a b fs)))
             | Some _ \<Rightarrow> Inl ''Not a directory'')
       | Some n \<Rightarrow>
           (case node_at fs b of
              Some DirNode \<Rightarrow> Inl ''Is a directory''
            | _ \<Rightarrow> if a = b then Inr ((), fs)
                   else Inr ((), touch t (butlast a) (touch t (butlast b)
                     (put_node (case mtime_at fs a of Some u \<Rightarrow> u | None \<Rightarrow> t) b n (del_node a fs)))))))"

definition sys_chmod :: "path \<Rightarrow> nat \<Rightarrow> (unit, 'c) io" where
  "sys_chmod p mode = syscall (\<lambda>fs t.
     case resolve fs p of
       None \<Rightarrow> Inl ''Too many levels of symbolic links''
     | Some q \<Rightarrow>
         (case node_at fs q of
            Some (FileNode m c) \<Rightarrow>
              Inr ((), put_node (case mtime_at fs q of Some u \<Rightarrow> u | None \<Rightarrow> t) q (FileNode mode c) fs)
          | Some _ \<Rightarrow> Inr ((), fs)
          | None \<Rightarrow> Inl ''No such file or directory''))"

text \<open>\<open>metadata\<close>, of which only success matters, and \<open>read_dir\<close> with the entries' modification times.\<close>

definition sys_metadata :: "path \<Rightarrow> (unit, 'c) io" where
  "sys_metadata p = syscall (\<lambda>fs t.
     if followed fs p \<noteq> None then Inr ((), fs) else Inl ''No such file or directory'')"

definition sys_read_dir :: "path \<Rightarrow> (string list, 'c) io" where
  "sys_read_dir p = syscall (\<lambda>fs t.
     if followed fs p = Some DirNode then Inr (children fs p, fs) else Inl ''No such file or directory'')"

definition sys_mtime :: "path \<Rightarrow> (utc, 'c) io" where
  "sys_mtime p = syscall (\<lambda>fs t.
     case mtime_at fs p of Some u \<Rightarrow> Inr (u, fs) | None \<Rightarrow> Inl ''No such file or directory'')"

end
