(* ===== verification/FsLogic.thy ===== *)
theory FsLogic
  imports Fs
begin

section \<open>Reasoning about file-system programs\<close>

text \<open>
  \<open>triple I P m Q E\<close>: started in a tree that satisfies \<open>P\<close>, the program \<open>m\<close> ends in one that satisfies
  \<open>Q\<close> of its result or, when it fails, \<open>E\<close>, and every tree its system calls leave on the disk on the
  way satisfies \<open>I\<close>. A crash can only leave the tree before the program or one of those, so \<open>I\<close> is what
  survives a crash at any point, whatever system calls fail.
\<close>

named_theorems triple_rules "rules of the program logic"

definition triple ::
  "('c fs \<Rightarrow> bool) \<Rightarrow> ('c fs \<Rightarrow> bool) \<Rightarrow> ('e, 'a, 'c) prog \<Rightarrow> ('a \<Rightarrow> 'c fs \<Rightarrow> bool) \<Rightarrow> ('c fs \<Rightarrow> bool) \<Rightarrow> bool" where
  "triple I P m Q E =
     (\<forall>w. P (w_fs w) \<longrightarrow>
        (\<exists>ts. w_trail (snd (m w)) = w_trail w @ ts \<and> list_all I ts)
        \<and> (case fst (m w) of Inl _ \<Rightarrow> E (w_fs (snd (m w))) | Inr x \<Rightarrow> Q x (w_fs (snd (m w)))))"

lemma tripleD:
  assumes "triple I P m Q E" and "P (w_fs w)"
  shows "\<exists>ts. w_trail (snd (m w)) = w_trail w @ ts \<and> list_all I ts"
    and "fst (m w) = Inr x \<Longrightarrow> Q x (w_fs (snd (m w)))"
    and "fst (m w) = Inl e \<Longrightarrow> E (w_fs (snd (m w)))"
  using assms unfolding triple_def by (metis sum.case)+

lemma triple_ret [triple_rules]: "(\<And>fs. P fs \<Longrightarrow> Q x fs) \<Longrightarrow> triple I P (ret x) Q E"
  by (simp add: triple_def ret_def)

lemma triple_lift [triple_rules]:
  "(\<And>fs x. P fs \<Longrightarrow> r = Inr x \<Longrightarrow> Q x fs) \<Longrightarrow> (\<And>fs e. P fs \<Longrightarrow> r = Inl e \<Longrightarrow> E fs) \<Longrightarrow>
     triple I P (lift r) Q E"
  by (simp add: triple_def lift_def split: sum.split)

lemma triple_bindS:
  fixes m :: "('e, 'x, 'c) prog"
  assumes "triple I P m R E" and "\<And>x. triple I (R x) (f x) Q E"
  shows "triple I P (bindS m f) Q E"
  unfolding triple_def
proof (intro allI impI)
  fix w :: "'c world" assume P: "P (w_fs w)"
  obtain r w' where m: "m w = (r, w')" by fastforce
  from tripleD(1) [OF assms(1) P] m obtain ts where ts: "w_trail w' = w_trail w @ ts" "list_all I ts" by auto
  show "(\<exists>ts. w_trail (snd (bindS m f w)) = w_trail w @ ts \<and> list_all I ts) \<and>
      (case fst (bindS m f w) of Inl x \<Rightarrow> E (w_fs (snd (bindS m f w))) | Inr x \<Rightarrow> Q x (w_fs (snd (bindS m f w))))"
  proof (cases r)
    case (Inl e)
    then show ?thesis using m ts tripleD(3) [OF assms(1) P, of e] by (simp add: bindS_def)
  next
    case (Inr x)
    then have R: "R x (w_fs w')" using tripleD(2) [OF assms(1) P, of x] m by simp
    from tripleD(1) [OF assms(2) R] obtain us where
      "w_trail (snd (f x w')) = w_trail w' @ us" "list_all I us" by blast
    moreover have "case fst (f x w') of Inl _ \<Rightarrow> E (w_fs (snd (f x w'))) | Inr y \<Rightarrow> Q y (w_fs (snd (f x w')))"
      using assms(2) [of x] R unfolding triple_def by blast
    moreover have run: "bindS m f w = f x w'" using m Inr by (simp add: bindS_def)
    ultimately show ?thesis unfolding run using ts by auto
  qed
qed

lemma triple_bind [triple_rules]:
  fixes m :: "('x, 'c) io"
  assumes "triple I P m R E" and "\<And>x. triple I (R x) (f x) Q E"
  shows "triple I P (bindIO m f) Q E"
proof -
  have "bindIO m f = bindS m f" by (simp add: bindIO_def bindS_def fun_eq_iff)
  then show ?thesis using triple_bindS [OF assms] by simp
qed

lemma bindIO_lift [simp]: "bindIO (lift (Inr x)) f = f x" "bindIO (lift (Inl e)) f = lift (Inl e)"
  by (auto simp: bindIO_def lift_def)

lemma bindIO_ok: "bindIO m f w = (Inr y, w') \<longleftrightarrow> (\<exists>x w1. m w = (Inr x, w1) \<and> f x w1 = (Inr y, w'))"
  by (auto simp: bindIO_def split: prod.splits sum.splits)

lemma syscall_ok:
  "syscall f w = (Inr x, w') \<longleftrightarrow>
     \<not> w_fault w (w_calls w) \<and>
     (\<exists>fs'. f (w_fs w) (w_time w (w_calls w)) = Inr (x, fs')
        \<and> w' = w\<lparr>w_calls := Suc (w_calls w), w_fs := fs', w_trail := w_trail w @ [fs']\<rparr>)"
  by (auto simp: syscall_def Let_def split: sum.splits)

lemma pure_ok:
  "ret x w = (Inr y, w') \<longleftrightarrow> y = x \<and> w' = w"
  "lift r v = (Inr z, v') \<longleftrightarrow> r = Inr z \<and> v' = v"
  "ignore m u = (Inr (), u') \<longleftrightarrow> u' = snd (m u)"
  "ctx c k s = (Inr q, s') \<longleftrightarrow> k s = (Inr q, s')"
  by (auto simp: ret_def lift_def ignore_def ctx_def with_context_def result_simps split: prod.splits)

lemma snd_nop:
  "w_fs (snd (sys_nop w)) = w_fs w" "\<exists>ts. w_trail (snd (sys_nop w)) = w_trail w @ ts"
  by (simp_all add: sys_nop_def syscall_def Let_def)

lemmas io_ok = bindIO_ok pure_ok syscall_ok

lemma triple_ctx [triple_rules]: "triple I P m Q E \<Longrightarrow> triple I P (ctx c m) Q E"
  unfolding triple_def ctx_def
  by (fastforce simp: with_context_def split: sum.splits prod.splits)

lemma triple_attempt [triple_rules]:
  "triple I P m Q1 E1 \<Longrightarrow> (\<And>fs x. Q1 x fs \<Longrightarrow> Q (Some x) fs) \<Longrightarrow> (\<And>fs. E1 fs \<Longrightarrow> Q None fs) \<Longrightarrow>
     triple I P (attempt m) Q E"
  unfolding triple_def attempt_def by (fastforce split: sum.splits prod.splits)

lemma triple_ignore [triple_rules]:
  "triple I P m Q1 E1 \<Longrightarrow> (\<And>fs x. Q1 x fs \<Longrightarrow> Q () fs) \<Longrightarrow> (\<And>fs. E1 fs \<Longrightarrow> Q () fs) \<Longrightarrow>
     triple I P (ignore m) Q E"
  unfolding triple_def ignore_def by (fastforce split: sum.splits prod.splits)

lemma triple_now [triple_rules]: "(\<And>fs t. P fs \<Longrightarrow> Q t fs) \<Longrightarrow> triple I P now_io Q E"
  by (simp add: triple_def now_io_def)

lemma triple_query [triple_rules]:
  "(\<And>fs b. P fs \<Longrightarrow> (b \<Longrightarrow> f fs) \<Longrightarrow> Q b fs) \<Longrightarrow> triple I P (query f) Q E"
  by (simp add: triple_def query_def)

lemma triple_events [triple_rules]:
  "(\<And>fs. P fs \<Longrightarrow> Q () fs) \<Longrightarrow> triple I P (try_event e) Q E"
  "(\<And>fs. P fs \<Longrightarrow> Q () fs) \<Longrightarrow> triple I P (send_event e) Q E"
  by (auto simp: triple_def try_event_def send_event_def split: sent.split)

lemma triple_syscall:
  assumes "\<And>fs t x fs'. P fs \<Longrightarrow> f fs t = Inr (x, fs') \<Longrightarrow> I fs' \<and> Q x fs'"
    and "\<And>fs. P fs \<Longrightarrow> E fs"
  shows "triple I P (syscall f) Q E"
  unfolding triple_def syscall_def Let_def using assms by (auto split: sum.split)

lemma triple_if [triple_rules]:
  "(b \<Longrightarrow> triple I P m Q E) \<Longrightarrow> (\<not> b \<Longrightarrow> triple I P n Q E) \<Longrightarrow> triple I P (if b then m else n) Q E"
  by simp

lemma triple_weaken:
  assumes "triple I P m Q E" and "\<And>fs. P' fs \<Longrightarrow> P fs" and "\<And>x fs. Q x fs \<Longrightarrow> Q' x fs"
    and "\<And>fs. E fs \<Longrightarrow> E' fs"
  shows "triple I P' m Q' E'"
  using assms unfolding triple_def by (fastforce split: sum.splits)

lemma triple_inv:
  assumes "triple J P m Q E" and "\<And>fs. J fs \<Longrightarrow> I fs"
  shows "triple I P m Q E"
  using assms unfolding triple_def by (fastforce simp: list_all_iff)

lemma triple_pre: "(\<And>fs. P' fs \<Longrightarrow> P fs) \<Longrightarrow> triple I P m Q E \<Longrightarrow> triple I P' m Q E"
  unfolding triple_def by blast

text \<open>A call that never changes the tree.\<close>

lemma triple_same:
  assumes "\<And>fs t x fs'. f fs t = Inr (x, fs') \<Longrightarrow> fs' = fs" and "\<And>fs. P fs \<Longrightarrow> I fs"
    and "\<And>fs t x. P fs \<Longrightarrow> f fs t = Inr (x, fs) \<Longrightarrow> Q x fs" and "\<And>fs. P fs \<Longrightarrow> E fs"
  shows "triple I P (syscall f) Q E"
  by (rule triple_syscall) (use assms in \<open>blast+\<close>)

lemma same_nop [triple_rules]:
  "(\<And>fs. P fs \<Longrightarrow> I fs) \<Longrightarrow> (\<And>fs. P fs \<Longrightarrow> Q () fs) \<Longrightarrow> (\<And>fs. P fs \<Longrightarrow> E fs) \<Longrightarrow> triple I P sys_nop Q E"
  unfolding sys_nop_def by (rule triple_same) auto

lemma same_open [triple_rules]:
  "(\<And>fs. P fs \<Longrightarrow> I fs) \<Longrightarrow> (\<And>fs. P fs \<Longrightarrow> Q () fs) \<Longrightarrow> (\<And>fs. P fs \<Longrightarrow> E fs) \<Longrightarrow> triple I P (sys_open p) Q E"
  unfolding sys_open_def by (rule triple_same) (auto split: if_splits)

lemma same_read [triple_rules]:
  "(\<And>fs. P fs \<Longrightarrow> I fs) \<Longrightarrow>
   (\<And>fs m c. P fs \<Longrightarrow> followed fs p = Some (FileNode m c) \<Longrightarrow> Q c fs) \<Longrightarrow>
   (\<And>fs. P fs \<Longrightarrow> E fs) \<Longrightarrow> triple I P (sys_read p) Q E"
  unfolding sys_read_def by (rule triple_same) (auto split: option.splits node.splits)

lemma same_read_link [triple_rules]:
  "(\<And>fs. P fs \<Longrightarrow> I fs) \<Longrightarrow> (\<And>fs q. P fs \<Longrightarrow> node_at fs p = Some (LinkNode q) \<Longrightarrow> Q q fs) \<Longrightarrow>
   (\<And>fs. P fs \<Longrightarrow> E fs) \<Longrightarrow> triple I P (sys_read_link p) Q E"
  unfolding sys_read_link_def by (rule triple_same) (auto split: option.splits node.splits)

lemma same_metadata [triple_rules]:
  "(\<And>fs. P fs \<Longrightarrow> I fs) \<Longrightarrow> (\<And>fs. P fs \<Longrightarrow> Q () fs) \<Longrightarrow> (\<And>fs. P fs \<Longrightarrow> E fs) \<Longrightarrow>
     triple I P (sys_metadata p) Q E"
  unfolding sys_metadata_def by (rule triple_same) (auto split: if_splits)

lemma same_read_dir [triple_rules]:
  "(\<And>fs. P fs \<Longrightarrow> I fs) \<Longrightarrow> (\<And>fs xs. P fs \<Longrightarrow> Q xs fs) \<Longrightarrow> (\<And>fs. P fs \<Longrightarrow> E fs) \<Longrightarrow>
     triple I P (sys_read_dir p) Q E"
  unfolding sys_read_dir_def by (rule triple_same) (auto split: if_splits)

lemma same_mtime [triple_rules]:
  "(\<And>fs. P fs \<Longrightarrow> I fs) \<Longrightarrow> (\<And>fs u. P fs \<Longrightarrow> Q u fs) \<Longrightarrow> (\<And>fs. P fs \<Longrightarrow> E fs) \<Longrightarrow> triple I P (sys_mtime p) Q E"
  unfolding sys_mtime_def by (rule triple_same) (auto split: option.splits)

subsection \<open>Steps that keep what is known\<close>

named_theorems keep_rules "rules for steps after which the same assertion holds"

lemma bind_keep:
  "triple I P m (\<lambda>_. P) E \<Longrightarrow> (\<And>x. triple I P (f x) Q E) \<Longrightarrow> triple I P (bindIO m f) Q E"
  by (rule triple_bind)

lemma keep_ctx [keep_rules]: "triple I P m (\<lambda>_. P) E \<Longrightarrow> triple I P (ctx c m) (\<lambda>_. P) E"
  by (rule triple_ctx)

lemma keep_ignore [keep_rules]: "triple I P m (\<lambda>_. P) P \<Longrightarrow> triple I P (ignore m) (\<lambda>_. P) E"
  by (rule triple_ignore)

lemma keep_attempt [keep_rules]: "triple I P m (\<lambda>_. P) P \<Longrightarrow> triple I P (attempt m) (\<lambda>_. P) E"
  by (rule triple_attempt)

lemma keep_pure [keep_rules]:
  "triple I P (ret x) (\<lambda>_. P) E"
  "(\<And>fs. P fs \<Longrightarrow> E fs) \<Longrightarrow> triple I P (lift r) (\<lambda>_. P) E"
  "triple I P now_io (\<lambda>_. P) E"
  "triple I P (query f) (\<lambda>_. P) E"
  "triple I P (try_event e) (\<lambda>_. P) E"
  "triple I P (send_event e) (\<lambda>_. P) E"
  by (auto intro: triple_rules)

lemma keep_calls [keep_rules]:
  assumes "\<And>fs. P fs \<Longrightarrow> I fs" and "\<And>fs. P fs \<Longrightarrow> E fs"
  shows "triple I P sys_nop (\<lambda>_. P) E" and "triple I P (sys_open p) (\<lambda>_. P) E"
    and "triple I P (sys_read p) (\<lambda>_. P) E" and "triple I P (sys_read_link p) (\<lambda>_. P) E"
    and "triple I P (sys_metadata p) (\<lambda>_. P) E" and "triple I P (sys_read_dir p) (\<lambda>_. P) E"
    and "triple I P (sys_mtime p) (\<lambda>_. P) E"
  by (rule triple_rules; use assms in blast)+

subsection \<open>Effects of the calls that change the tree\<close>

text \<open>\<open>nodes_as\<close>: the tree has the nodes of another except as said.\<close>

lemma rename_file_node:
  assumes "node_at fs a = Some n" and "n \<noteq> DirNode" and "a \<noteq> b" and "a \<noteq> []" and "b \<noteq> []"
  shows "node_at (touch t pa (touch t pb (put_node u b n (del_node a fs)))) q =
     (if q = b then Some n else if q = a then None else node_at fs q)"
  unfolding node_touch by (rule nodes.node_move) (use assms in simp_all)

lemma triple_rename_file:
  assumes "\<And>fs. P fs \<Longrightarrow> \<exists>n. node_at fs a = Some n \<and> n \<noteq> DirNode"
    and "a \<noteq> b" and "a \<noteq> []" and "b \<noteq> []" and "\<And>fs. P fs \<Longrightarrow> E fs"
    and "\<And>fs fs' n. P fs \<Longrightarrow> node_at fs a = Some n \<Longrightarrow> n \<noteq> DirNode \<Longrightarrow>
       (\<And>q. node_at fs' q = (if q = b then Some n else if q = a then None else node_at fs q)) \<Longrightarrow>
       I fs' \<and> Q () fs'"
  shows "triple I P (sys_rename a b) Q E"
  unfolding sys_rename_def
proof (rule triple_syscall)
  fix fs :: "'a fs" and t :: utc and x :: unit and fs' :: "'a fs"
  assume P: "P fs"
  then obtain n where n: "node_at fs a = Some n" "n \<noteq> DirNode" using assms(1) by blast
  assume "(if a = [] \<or> \<not> parent_is_dir fs b then Inl ''No such file or directory''
     else (case node_at fs a of
         None \<Rightarrow> Inl ''No such file or directory''
       | Some DirNode \<Rightarrow>
           if take (length a) b = a \<and> a \<noteq> b then Inl ''Invalid argument''
           else (case node_at fs b of
               Some DirNode \<Rightarrow> if a \<noteq> b \<and> children fs b \<noteq> [] then Inl ''Directory not empty''
                 else if a = b then Inr ((), fs)
                 else Inr ((), touch t (butlast a) (touch t (butlast b) (move_tree a b fs)))
             | None \<Rightarrow> Inr ((), touch t (butlast a) (touch t (butlast b) (move_tree a b fs)))
             | Some _ \<Rightarrow> Inl ''Not a directory'')
       | Some n \<Rightarrow>
           (case node_at fs b of
              Some DirNode \<Rightarrow> Inl ''Is a directory''
            | _ \<Rightarrow> if a = b then Inr ((), fs)
                   else Inr ((), touch t (butlast a) (touch t (butlast b)
                     (put_node (case mtime_at fs a of Some u \<Rightarrow> u | None \<Rightarrow> t) b n (del_node a fs))))))) = Inr (x, fs')"
  then have "\<exists>u pa pb. fs' = touch t pa (touch t pb (put_node u b n (del_node a fs)))"
    using n assms(2) by (fastforce split: if_splits option.splits node.splits)
  then have "node_at fs' q = (if q = b then Some n else if q = a then None else node_at fs q)" for q
    using rename_file_node [OF n assms(2-4)] by auto
  then show "I fs' \<and> Q x fs'" using assms(6) [OF P n, of fs'] by simp
qed (rule assms(5))

lemma triple_put:
  assumes "\<And>fs t x fs'. P fs \<Longrightarrow> f fs t = Inr (x, fs') \<Longrightarrow>
      \<exists>n. (\<forall>q. node_at fs' q = (if q = p then Some n else node_at fs q)) \<and> ok n"
    and "\<And>fs fs' n x. P fs \<Longrightarrow> ok n \<Longrightarrow> (\<And>q. node_at fs' q = (if q = p then Some n else node_at fs q)) \<Longrightarrow>
      I fs' \<and> Q x fs'"
    and "\<And>fs. P fs \<Longrightarrow> E fs"
  shows "triple I P (syscall f) Q E"
proof (rule triple_syscall)
  fix fs :: "'a fs" and t :: utc and x :: 'b and fs' :: "'a fs"
  assume P: "P fs" and f: "f fs t = Inr (x, fs')"
  obtain n where "\<forall>q. node_at fs' q = (if q = p then Some n else node_at fs q)" "ok n"
    using assms(1) [OF P f] by blast
  then show "I fs' \<and> Q x fs'" using assms(2) [OF P] by blast
qed (rule assms(3))

lemma triple_create_new:
  assumes "p \<noteq> []" and "\<And>fs. P fs \<Longrightarrow> E fs"
    and "\<And>fs fs'. P fs \<Longrightarrow> node_at fs p = None \<Longrightarrow>
      (\<And>q. node_at fs' q = (if q = p then Some (FileNode 420 c) else node_at fs q)) \<Longrightarrow> I fs' \<and> Q () fs'"
  shows "triple I P (sys_create_new p c) Q E"
  unfolding sys_create_new_def
  by (rule triple_syscall)
    (use assms in \<open>auto simp: nodes.node_put split: if_splits\<close>)

lemma triple_symlink:
  assumes "p \<noteq> []" and "\<And>fs. P fs \<Longrightarrow> E fs"
    and "\<And>fs fs'. P fs \<Longrightarrow> node_at fs p = None \<Longrightarrow>
      (\<And>q. node_at fs' q = (if q = p then Some (LinkNode target) else node_at fs q)) \<Longrightarrow> I fs' \<and> Q () fs'"
  shows "triple I P (sys_symlink target p) Q E"
  unfolding sys_symlink_def
  by (rule triple_syscall)
    (use assms in \<open>auto simp: nodes.node_put split: if_splits\<close>)

lemma triple_remove_file:
  assumes "p \<noteq> []" and "\<And>fs. P fs \<Longrightarrow> E fs"
    and "\<And>fs fs'. P fs \<Longrightarrow> (\<And>q. node_at fs' q = (if q = p then None else node_at fs q)) \<Longrightarrow> I fs' \<and> Q () fs'"
  shows "triple I P (sys_remove_file p) Q E"
  unfolding sys_remove_file_def
  by (rule triple_syscall)
    (use assms in \<open>auto simp: nodes.node_del split: option.splits node.splits\<close>)

lemma resolve_file: "node_at fs p = Some (FileNode m c) \<Longrightarrow> resolve fs p = Some p"
  by (simp add: resolve_def numeral_eq_Suc)

lemma followed_file: "node_at fs p = Some (FileNode m c) \<Longrightarrow> followed fs p = Some (FileNode m c)"
  by (simp add: followed_def resolve_file)

lemma resolve_none: "node_at fs p = None \<Longrightarrow> resolve fs p = Some p"
  by (simp add: resolve_def numeral_eq_Suc)

lemma resolve_dir: "node_at fs p = Some DirNode \<Longrightarrow> resolve fs p = Some p"
  by (simp add: resolve_def numeral_eq_Suc)

lemma followed_dir: "node_at fs p = Some DirNode \<Longrightarrow> followed fs p = Some DirNode"
  by (simp add: followed_def resolve_dir)

lemma triple_write_file:
  assumes "\<And>fs. P fs \<Longrightarrow> \<exists>m d. node_at fs p = Some (FileNode m d)" and "p \<noteq> []"
    and "\<And>fs. P fs \<Longrightarrow> E fs"
    and "\<And>fs fs' m. P fs \<Longrightarrow> (\<And>q. node_at fs' q = (if q = p then Some (FileNode m c) else node_at fs q)) \<Longrightarrow>
      I fs' \<and> Q () fs'"
  shows "triple I P (sys_write p c) Q E"
  unfolding sys_write_def
proof (rule triple_syscall)
  fix fs :: "'a fs" and t :: utc and x :: unit and fs' :: "'a fs"
  assume P: "P fs"
  then obtain m d where n: "node_at fs p = Some (FileNode m d)" using assms(1) by blast
  assume "(case resolve fs p of
       None \<Rightarrow> Inl ''Too many levels of symbolic links''
     | Some q \<Rightarrow>
         (case node_at fs q of
            Some (FileNode m _) \<Rightarrow> Inr ((), put_node t q (FileNode m c) fs)
          | _ \<Rightarrow> Inl ''Bad file descriptor'')) = Inr (x, fs')"
  then have "fs' = put_node t p (FileNode m c) fs" using resolve_file [OF n] n by simp
  then have "node_at fs' q = (if q = p then Some (FileNode m c) else node_at fs q)" for q
    using assms(2) by (simp add: nodes.node_put)
  then show "I fs' \<and> Q x fs'" using assms(4) [OF P] by simp
qed (rule assms(3))

lemma keep_open_create:
  assumes "\<And>fs. P fs \<Longrightarrow> \<exists>m d. node_at fs p = Some (FileNode m d)" and "\<And>fs. P fs \<Longrightarrow> I fs"
    and "\<And>fs. P fs \<Longrightarrow> E fs"
  shows "triple I P (sys_open_create p c) (\<lambda>_. P) E"
  unfolding sys_open_create_def
proof (rule triple_syscall)
  fix fs :: "'a fs" and t :: utc and x :: unit and fs' :: "'a fs"
  assume P: "P fs"
  then obtain m d where n: "node_at fs p = Some (FileNode m d)" using assms(1) by blast
  assume "(case resolve fs p of
       None \<Rightarrow> Inl ''Too many levels of symbolic links''
     | Some q \<Rightarrow>
         (case node_at fs q of
            Some (FileNode _ _) \<Rightarrow> Inr ((), fs)
          | None \<Rightarrow> if parent_is_dir fs q
                     then Inr ((), touch t (butlast q) (put_node t q (FileNode 420 c) fs))
                     else Inl ''No such file or directory''
          | Some _ \<Rightarrow> Inl ''Is a directory'')) = Inr (x, fs')"
  then have "fs' = fs" using resolve_file [OF n] n by simp
  then show "I fs' \<and> P fs'" using P assms(2) by simp
qed (rule assms(3))

lemma make_dirs_nodes:
  "make_dirs t ps fs = Inr fs' \<Longrightarrow> \<forall>p\<in>set ps. p \<noteq> [] \<Longrightarrow>
     (node_at fs q = Some n \<longrightarrow> node_at fs' q = Some n) \<and> (q \<notin> set ps \<longrightarrow> node_at fs' q = node_at fs q)"
proof (induction ps arbitrary: fs)
  case (Cons p ps)
  consider "make_dirs t ps fs = Inr fs'"
    | "node_at fs p = None" "make_dirs t ps (touch t (butlast p) (put_node t p DirNode fs)) = Inr fs'"
    using Cons.prems(1) by (auto split: option.splits node.splits if_splits)
  then show ?case
  proof cases
    case 1
    then show ?thesis using Cons by auto
  next
    case 2
    have "node_at (touch t (butlast p) (put_node t p DirNode fs)) q =
        (if q = p then Some DirNode else node_at fs q)"
      using Cons.prems(2) by (simp add: nodes.node_put)
    then show ?thesis using Cons.IH [OF 2(2)] Cons.prems(2) 2(1) by (auto split: if_splits)
  qed
qed simp

lemma triple_create_dir_all:
  assumes "\<And>fs fs'. P fs \<Longrightarrow>
      (\<And>q n. node_at fs q = Some n \<Longrightarrow> node_at fs' q = Some n) \<Longrightarrow>
      (\<And>q. q \<notin> {q. \<exists>n. q = take n p} \<Longrightarrow> node_at fs' q = node_at fs q) \<Longrightarrow> I fs' \<and> Q () fs'"
    and "\<And>fs. P fs \<Longrightarrow> E fs"
  shows "triple I P (sys_create_dir_all p) Q E"
  unfolding sys_create_dir_all_def
proof (rule triple_syscall)
  fix fs :: "'a fs" and t :: utc and x :: unit and fs' :: "'a fs"
  assume P: "P fs"
  let ?ps = "map (\<lambda>n. take n p) [1..<Suc (length p)]"
  assume "bindR (make_dirs t ?ps fs) (\<lambda>fs'. Inr ((), fs')) = Inr (x, fs')"
  then have m: "make_dirs t ?ps fs = Inr fs'" by (simp add: result_simps)
  have ne: "\<forall>q\<in>set ?ps. q \<noteq> []" by auto
  show "I fs' \<and> Q x fs'"
    using assms(1) [OF P, of fs'] make_dirs_nodes [OF m ne] by auto
qed (rule assms(2))

subsection \<open>Programs with errors of their own\<close>

lemma bindS_ok:
  "bindS m f w = (Inr y, w') \<longleftrightarrow> (\<exists>x v. m w = (Inr x, v) \<and> f x v = (Inr y, w'))"
  by (cases "m w"; cases "fst (m w)") (auto simp: bindS_def)

lemma bindS_error:
  assumes "bindS m f w = (Inl e, w')"
  obtains "m w = (Inl e, w')" | x v where "m w = (Inr x, v)" "f x v = (Inl e, w')"
  using assms by (cases "m w"; cases "fst (m w)") (auto simp: bindS_def)

lemma pureS_iff: "pureS p w = (r, w') \<longleftrightarrow> p = r \<and> w' = w"
  by (auto simp: pureS_def)

lemma bindS_pure: "bindS (pureS (Inr x)) f = f x"
  by (simp add: bindS_def pureS_def fun_eq_iff)

text \<open>The program logic for them.\<close>

lemma triple_pureS:
  "(\<And>fs x. P fs \<Longrightarrow> r = Inr x \<Longrightarrow> Q x fs) \<Longrightarrow> (\<And>fs e. P fs \<Longrightarrow> r = Inl e \<Longrightarrow> E fs) \<Longrightarrow> triple I P (pureS r) Q E"
  by (simp add: triple_def pureS_def split: sum.split)

lemma triple_ioS: "triple I P m Q E \<Longrightarrow> triple I P (ioS h m) Q E"
  unfolding triple_def ioS_def by (fastforce split: sum.splits prod.splits)

lemma ioS_ok: "ioS h m w = (Inr x, w') \<longleftrightarrow> m w = (Inr x, w')"
  by (cases "m w") (auto simp: ioS_def result_simps)

subsection \<open>Runs in which no system call fails for a reason of its own\<close>

text \<open>
  \<open>runs P m Q\<close>: in a world without faults that satisfies \<open>P\<close>, the program \<open>m\<close> succeeds, with a result
  and a world that satisfy \<open>Q\<close>: total correctness, where \<open>triple\<close> is partial.
\<close>

definition calm :: "'c world \<Rightarrow> bool" where
  "calm w = (\<forall>n. \<not> w_fault w n)"

definition runs :: "('c world \<Rightarrow> bool) \<Rightarrow> ('a, 'c) io \<Rightarrow> ('a \<Rightarrow> 'c world \<Rightarrow> bool) \<Rightarrow> bool" where
  "runs P m Q = (\<forall>w. calm w \<longrightarrow> P w \<longrightarrow> (\<exists>x w'. m w = (Inr x, w') \<and> Q x w' \<and> calm w'))"

named_theorems runs_rules "rules for runs without faults"

lemma runsD: "runs P m Q \<Longrightarrow> calm w \<Longrightarrow> P w \<Longrightarrow> \<exists>x w'. m w = (Inr x, w') \<and> Q x w' \<and> calm w'"
  by (simp add: runs_def)

lemma runs_bind:
  assumes "runs P m R" and "\<And>x. runs (R x) (f x) Q"
  shows "runs P (bindIO m f) Q"
  unfolding runs_def
proof (intro allI impI)
  fix w assume "calm w" "P w"
  then obtain x w1 where 1: "m w = (Inr x, w1)" "R x w1" "calm w1" using runsD [OF assms(1)] by blast
  then obtain y w2 where "f x w1 = (Inr y, w2)" "Q y w2" "calm w2" using runsD [OF assms(2)] by blast
  then show "\<exists>x w'. bindIO m f w = (Inr x, w') \<and> Q x w' \<and> calm w'"
    using 1 by (intro exI [of _ y] exI [of _ w2]) (simp add: bindIO_ok)
qed

lemma runs_weaken:
  "runs P m Q \<Longrightarrow> (\<And>w. P' w \<Longrightarrow> P w) \<Longrightarrow> (\<And>x w. Q x w \<Longrightarrow> Q' x w) \<Longrightarrow> runs P' m Q'"
  unfolding runs_def by blast

lemma runs_ctx [runs_rules]: "runs P m Q \<Longrightarrow> runs P (ctx c m) Q"
  unfolding runs_def ctx_def with_context_def by (metis case_prod_conv map_err_simps(2))

lemma runs_ignore [runs_rules]: "runs P m Q1 \<Longrightarrow> (\<And>x w. Q1 x w \<Longrightarrow> Q () w) \<Longrightarrow> runs P (ignore m) Q"
  unfolding runs_def ignore_def by fastforce

lemma runs_attempt [runs_rules]:
  "runs P m Q1 \<Longrightarrow> (\<And>x w. Q1 x w \<Longrightarrow> Q (Some x) w) \<Longrightarrow> runs P (attempt m) Q"
  unfolding runs_def attempt_def by fastforce

lemma runs_pure [runs_rules]:
  "(\<And>w. P w \<Longrightarrow> Q x w) \<Longrightarrow> runs P (ret x) Q"
  "(\<And>w. P w \<Longrightarrow> \<exists>y. r = Inr y \<and> Q y w) \<Longrightarrow> runs P (lift r) Q"
  by (auto simp: runs_def ret_def lift_def)

lemma runs_if [runs_rules]: "(b \<Longrightarrow> runs P m Q) \<Longrightarrow> (\<not> b \<Longrightarrow> runs P n Q) \<Longrightarrow> runs P (if b then m else n) Q"
  by simp

text \<open>Assertions on the tree and the events only.\<close>

definition seen :: "('c fs \<Rightarrow> upgrade_event chan \<Rightarrow> bool) \<Rightarrow> 'c world \<Rightarrow> bool" where
  "seen P w = P (w_fs w) (w_events w)"

lemma runs_syscall:
  assumes "\<And>fs ev t. P fs ev \<Longrightarrow> \<exists>x fs'. f fs t = Inr (x, fs') \<and> Q x fs' ev"
  shows "runs (seen P) (syscall f) (\<lambda>x. seen (Q x))"
  unfolding runs_def
proof (intro allI impI)
  fix w assume w: "calm w" "seen P w"
  then obtain x fs' where 1: "f (w_fs w) (w_time w (w_calls w)) = Inr (x, fs')" "Q x fs' (w_events w)"
    using assms unfolding seen_def by blast
  let ?w = "w\<lparr>w_calls := Suc (w_calls w), w_fs := fs', w_trail := w_trail w @ [fs']\<rparr>"
  have "syscall f w = (Inr x, ?w)" using w(1) 1(1) by (simp add: syscall_ok calm_def)
  moreover have "seen (Q x) ?w" using 1(2) by (simp add: seen_def)
  moreover have "calm ?w" using w(1) by (simp add: calm_def)
  ultimately show "\<exists>x w'. syscall f w = (Inr x, w') \<and> seen (Q x) w' \<and> calm w'" by blast
qed

lemma runs_query:
  "(\<And>fs ev. P fs ev \<Longrightarrow> Q (f fs) fs ev) \<Longrightarrow> runs (seen P) (query f) (\<lambda>x. seen (Q x))"
  by (auto simp: runs_def query_def seen_def calm_def)

lemma runs_nop: "runs (seen P) sys_nop (\<lambda>_. seen P)"
  unfolding sys_nop_def by (rule runs_syscall) simp

lemma runs_keep_ignore_nop: "runs (seen P) (ignore sys_nop) (\<lambda>_. seen P)"
  by (rule runs_ignore [OF runs_nop])

lemma file_followed: "is_file_node (node_at fs p) \<Longrightarrow> is_file_node (followed fs p)"
  unfolding is_file_node_def
  using followed_file [of fs p] by (cases "node_at fs p") (auto split: node.splits)

lemma runs_open_file:
  "(\<And>fs ev. P fs ev \<Longrightarrow> is_file_node (node_at fs p)) \<Longrightarrow> runs (seen P) (sys_open p) (\<lambda>_. seen P)"
  unfolding sys_open_def
  by (rule runs_syscall) (simp add: file_followed)

lemma runs_read_file:
  assumes "\<And>fs ev. P fs ev \<Longrightarrow> \<exists>m c. node_at fs p = Some (FileNode m c) \<and> Q c fs ev"
  shows "runs (seen P) (sys_read p) (\<lambda>c. seen (Q c))"
  unfolding sys_read_def by (rule runs_syscall) (use assms in \<open>force dest!: followed_file\<close>)

lemma runs_write_file:
  assumes "\<And>fs ev. P fs ev \<Longrightarrow> \<exists>m d. node_at fs p = Some (FileNode m d) \<and>
      (\<forall>fs'. (\<forall>q. node_at fs' q = (if q = p then Some (FileNode m c) else node_at fs q)) \<longrightarrow> Q () fs' ev)"
    and "p \<noteq> []"
  shows "runs (seen P) (sys_write p c) (\<lambda>x. seen (Q x))"
  unfolding sys_write_def
proof (rule runs_syscall)
  fix fs :: "'a fs" and ev and t :: utc assume "P fs ev"
  then obtain m d where n: "node_at fs p = Some (FileNode m d)" and
    "\<forall>fs'. (\<forall>q. node_at fs' q = (if q = p then Some (FileNode m c) else node_at fs q)) \<longrightarrow> Q () fs' ev"
    using assms(1) by blast
  then have "Q () (put_node t p (FileNode m c) fs) ev" using assms(2) by (simp add: nodes.node_put)
  then show "\<exists>x fs'. (case resolve fs p of
       None \<Rightarrow> Inl ''Too many levels of symbolic links''
     | Some q \<Rightarrow>
         (case node_at fs q of
            Some (FileNode m _) \<Rightarrow> Inr ((), put_node t q (FileNode m c) fs)
          | _ \<Rightarrow> Inl ''Bad file descriptor'')) = Inr (x, fs') \<and> Q x fs' ev"
    using resolve_file [OF n] n by simp
qed

lemma runs_create_new:
  assumes "\<And>fs ev. P fs ev \<Longrightarrow> node_at fs p = None \<and> parent_is_dir fs p \<and>
      (\<forall>fs'. (\<forall>q. node_at fs' q = (if q = p then Some (FileNode 420 c) else node_at fs q)) \<longrightarrow> Q () fs' ev)"
  shows "runs (seen P) (sys_create_new p c) (\<lambda>x. seen (Q x))"
  unfolding sys_create_new_def
  by (rule runs_syscall) (use assms in \<open>force simp: nodes.node_put parent_is_dir_def\<close>)

lemma runs_symlink:
  assumes "\<And>fs ev. P fs ev \<Longrightarrow> node_at fs p = None \<and> parent_is_dir fs p \<and>
      (\<forall>fs'. (\<forall>q. node_at fs' q = (if q = p then Some (LinkNode t) else node_at fs q)) \<longrightarrow> Q () fs' ev)"
  shows "runs (seen P) (sys_symlink t p) (\<lambda>x. seen (Q x))"
  unfolding sys_symlink_def
  by (rule runs_syscall) (use assms in \<open>force simp: nodes.node_put parent_is_dir_def\<close>)

lemma runs_rename_file:
  assumes "\<And>fs ev. P fs ev \<Longrightarrow> parent_is_dir fs b \<and> node_at fs b \<noteq> Some DirNode \<and>
      (\<exists>n. node_at fs a = Some n \<and> n \<noteq> DirNode \<and>
        (\<forall>fs'. (\<forall>q. node_at fs' q = (if q = b then Some n else if q = a then None else node_at fs q))
           \<longrightarrow> Q () fs' ev))"
    and "a \<noteq> b" and "a \<noteq> []" and "b \<noteq> []"
  shows "runs (seen P) (sys_rename a b) (\<lambda>x. seen (Q x))"
  unfolding sys_rename_def
proof (rule runs_syscall)
  fix fs :: "'a fs" and ev and t :: utc assume "P fs ev"
  then obtain n where n: "parent_is_dir fs b" "node_at fs b \<noteq> Some DirNode" "node_at fs a = Some n" "n \<noteq> DirNode"
    and Q: "\<forall>fs'. (\<forall>q. node_at fs' q = (if q = b then Some n else if q = a then None else node_at fs q))
       \<longrightarrow> Q () fs' ev"
    using assms(1) by blast
  let ?u = "case mtime_at fs a of Some u \<Rightarrow> u | None \<Rightarrow> t"
  let ?fs = "touch t (butlast a) (touch t (butlast b) (put_node ?u b n (del_node a fs)))"
  have "Q () ?fs ev" using Q rename_file_node [OF n(3,4) assms(2-4)] by blast
  then show "\<exists>x fs'. (if a = [] \<or> \<not> parent_is_dir fs b then Inl ''No such file or directory''
     else (case node_at fs a of
         None \<Rightarrow> Inl ''No such file or directory''
       | Some DirNode \<Rightarrow>
           if take (length a) b = a \<and> a \<noteq> b then Inl ''Invalid argument''
           else (case node_at fs b of
               Some DirNode \<Rightarrow> if a \<noteq> b \<and> children fs b \<noteq> [] then Inl ''Directory not empty''
                 else if a = b then Inr ((), fs)
                 else Inr ((), touch t (butlast a) (touch t (butlast b) (move_tree a b fs)))
             | None \<Rightarrow> Inr ((), touch t (butlast a) (touch t (butlast b) (move_tree a b fs)))
             | Some _ \<Rightarrow> Inl ''Not a directory'')
       | Some n \<Rightarrow>
           (case node_at fs b of
              Some DirNode \<Rightarrow> Inl ''Is a directory''
            | _ \<Rightarrow> if a = b then Inr ((), fs)
                   else Inr ((), touch t (butlast a) (touch t (butlast b)
                     (put_node (case mtime_at fs a of Some u \<Rightarrow> u | None \<Rightarrow> t) b n (del_node a fs))))))) = Inr (x, fs')
      \<and> Q x fs' ev"
    using n assms(2,3) by (cases n; cases "node_at fs b" rule: option.exhaust) (auto split: node.split)
qed

subsection \<open>Programs that fail although no call fails by itself\<close>

text \<open>\<open>fails P m Q\<close>: without faults, from a world that satisfies \<open>P\<close>, the program ends in an error of its own
  and in a world that satisfies \<open>Q\<close>.\<close>

definition fails :: "('c world \<Rightarrow> bool) \<Rightarrow> ('a, 'c) io \<Rightarrow> ('c world \<Rightarrow> bool) \<Rightarrow> bool" where
  "fails P m Q = (\<forall>w. calm w \<longrightarrow> P w \<longrightarrow> (\<exists>e w'. m w = (Inl e, w') \<and> Q w' \<and> calm w'))"

lemma fails_weaken: "fails P m Q \<Longrightarrow> (\<And>w. P' w \<Longrightarrow> P w) \<Longrightarrow> (\<And>w. Q w \<Longrightarrow> Q' w) \<Longrightarrow> fails P' m Q'"
  unfolding fails_def by blast

lemma fails_first: "fails P m Q \<Longrightarrow> fails P (bindIO m f) Q"
  unfolding fails_def bindIO_def by fastforce

lemma fails_later:
  assumes "runs P m R" and "\<And>x. fails (R x) (f x) Q"
  shows "fails P (bindIO m f) Q"
  unfolding fails_def
proof (intro allI impI)
  fix w assume "calm w" "P w"
  then obtain x w1 where 1: "m w = (Inr x, w1)" "R x w1" "calm w1" using runsD [OF assms(1)] by blast
  then obtain e w2 where "f x w1 = (Inl e, w2)" "Q w2" "calm w2"
    using assms(2) [of x] unfolding fails_def by blast
  then show "\<exists>e w'. bindIO m f w = (Inl e, w') \<and> Q w' \<and> calm w'"
    using 1 by (simp add: bindIO_def)
qed

lemma fails_lift: "fails P (lift (Inl e)) P"
  by (simp add: fails_def lift_def)

lemma fails_syscall:
  assumes "\<And>fs ev t. P fs ev \<Longrightarrow> \<exists>e. f fs t = Inl e"
  shows "fails (seen P) (syscall f) (seen P)"
  unfolding fails_def
proof (intro allI impI)
  fix w assume w: "calm w" "seen P w"
  then obtain e where "f (w_fs w) (w_time w (w_calls w)) = Inl e" using assms unfolding seen_def by blast
  then show "\<exists>e w'. syscall f w = (Inl e, w') \<and> seen P w' \<and> calm w'"
    using w by (simp add: syscall_def seen_def calm_def)
qed

lemma runs_failed:
  assumes "fails P m Q"
  shows "runs P (attempt m) (\<lambda>x w. x = None \<and> Q w)" and "runs P (ignore m) (\<lambda>_. Q)"
  using assms by (fastforce simp: fails_def runs_def attempt_def ignore_def)+

lemma fails_cases: "fails P m Q \<Longrightarrow> fails P' m Q \<Longrightarrow> fails (\<lambda>w. P w \<or> P' w) m Q"
  unfolding fails_def by blast

end
