(* ===== verification/InstallState.thy ===== *)
theory InstallState
  imports FsLogic
begin

section \<open>Persistent install state (src/upgrade/state.rs)\<close>

text \<open>
  \<open>InstallState\<close> and the operations on \<open>state.json\<close>: \<open>load\<close>, \<open>try_load\<close>, \<open>save\<close>, \<open>update\<close>,
  \<open>lock_file\<close> and \<open>bump_boot_attempts\<close>, one system call per call of the source. How a state is
  written as JSON is an argument (\<open>platform\<close>), with the process id that names the temporary file.
\<close>

datatype upgrade_status = Stable | PendingHealth | RolledBack | StagedManual

record install_state =
  st_current_version :: string
  st_previous_version :: "string option"
  st_channel :: string
  st_variant :: string
  st_arch :: string
  st_status :: upgrade_status
  st_boot_attempts :: u32
  st_staged_at :: utc
  st_last_health_at :: "utc option"
  st_last_sequence :: u64

record 'c platform =
  pf_enc :: "install_state \<Rightarrow> string + 'c"
  pf_dec :: "'c \<Rightarrow> string + install_state"
  pf_empty :: 'c
  pf_pid :: nat

definition state_path :: "path \<Rightarrow> path" where
  "state_path install_root = install_root @ [''state.json'']"

definition load_state :: "'c platform \<Rightarrow> path \<Rightarrow> (install_state, 'c) io" where
  "load_state pf p =
     bindIO (ctx (Install (IoContext ''opening'' p)) (sys_open p)) (\<lambda>_.
     bindIO (ctx (Install (IoContext ''flock(LOCK_SH) on'' p)) sys_nop) (\<lambda>_.
     bindIO (ctx (Install (IoContext ''reading'' p)) (sys_read p)) (\<lambda>buf.
     bindIO (lift (with_source (Install (IoContext ''is not valid InstallState JSON'' p)) (pf_dec pf buf))) (\<lambda>s.
     bindIO (ignore sys_nop) (\<lambda>_.
     ret s)))))"

definition try_load_state :: "'c platform \<Rightarrow> path \<Rightarrow> (install_state option, 'c) io" where
  "try_load_state pf install_root =
     (let p = state_path install_root in
      bindIO (path_exists p) (\<lambda>there.
      if \<not> there then ret None else attempt (load_state pf p)))"

definition tmp_state_path :: "'c platform \<Rightarrow> path \<Rightarrow> path" where
  "tmp_state_path pf p = butlast p @ [''state.json.tmp.'' @ show_nat (pf_pid pf)]"

definition save_state :: "'c platform \<Rightarrow> path \<Rightarrow> install_state \<Rightarrow> (unit, 'c) io" where
  "save_state pf p s =
     (let parent = butlast p; tmp = tmp_state_path pf p in
      bindIO (ctx (Install (IoContext ''creating state parent'' parent)) (sys_create_dir_all parent)) (\<lambda>_.
      bindIO (ctx (Install (IoContext ''creating'' tmp)) (sys_create_new tmp (pf_empty pf))) (\<lambda>_.
      bindIO (attempt (sys_open_create p (pf_empty pf))) (\<lambda>dest_lock.
      bindIO (if dest_lock \<noteq> None
              then ctx (Install (IoContext ''flock(LOCK_EX) on state.json'' p)) sys_nop
              else ret ()) (\<lambda>_.
      bindIO (lift (with_source (Install (IoContext ''serialising InstallState'' p)) (pf_enc pf s))) (\<lambda>json.
      bindIO (ctx (Install (IoContext ''writing'' tmp)) (sys_write tmp json)) (\<lambda>_.
      bindIO (ctx (Install (IoContext ''tempfile flush'' tmp)) sys_nop) (\<lambda>_.
      bindIO (ctx (Install (IoContext ''tempfile sync_all'' tmp)) sys_nop) (\<lambda>_.
      bindIO (ctx (Install (IoContext ''rename'' tmp)) (sys_rename tmp p)) (\<lambda>_.
      bindIO (ignore sys_nop) (\<lambda>_.
      ignore sys_nop)))))))))))"

definition update_state :: "'c platform \<Rightarrow> path \<Rightarrow> (install_state \<Rightarrow> install_state) \<Rightarrow> (unit, 'c) io" where
  "update_state pf p mutate = bindIO (load_state pf p) (\<lambda>s. save_state pf p (mutate s))"

definition lock_file :: "'c platform \<Rightarrow> path \<Rightarrow> (unit, 'c) io" where
  "lock_file pf install_root =
     (let p = install_root @ [''.state.lock''] in
      bindIO (ignore (sys_create_dir_all install_root)) (\<lambda>_.
      bindIO (ctx (Install (IoContext ''opening'' p)) (sys_open_create p (pf_empty pf))) (\<lambda>_.
      ctx (Install (IoContext ''flock(LOCK_EX) on .state.lock'' p)) sys_nop)))"

text \<open>The file is truncated and rewritten in place: \<open>set_len(0)\<close>, then \<open>write_all\<close>.\<close>

definition bump_boot_attempts :: "'c platform \<Rightarrow> path \<Rightarrow> (u32, 'c) io" where
  "bump_boot_attempts pf p =
     bindIO (sys_open p) (\<lambda>_.
     bindIO sys_nop (\<lambda>_.
     bindIO (sys_read p) (\<lambda>buf.
     bindIO (lift (map_err (\<lambda>e. [Source e]) (pf_dec pf buf))) (\<lambda>state0.
     let state = state0\<lparr>st_boot_attempts := saturating_inc (st_boot_attempts state0)\<rparr> in
     bindIO (lift (map_err (\<lambda>e. [Source e]) (pf_enc pf state))) (\<lambda>json.
     bindIO (sys_write p (pf_empty pf)) (\<lambda>_.
     bindIO (sys_write p json) (\<lambda>_.
     bindIO sys_nop (\<lambda>_.
     bindIO sys_nop (\<lambda>_.
     bindIO (ignore sys_nop) (\<lambda>_.
     ret (st_boot_attempts state)))))))))))"

subsection \<open>What a tree holds\<close>

definition holds_state :: "'c platform \<Rightarrow> path \<Rightarrow> 'c fs \<Rightarrow> install_state \<Rightarrow> bool" where
  "holds_state pf p fs s =
     (\<exists>m c. node_at fs p = Some (FileNode m c) \<and> pf_dec pf c = Inr s)"

definition faithful_state :: "'c platform \<Rightarrow> install_state \<Rightarrow> bool" where
  "faithful_state pf s = (\<exists>c. pf_enc pf s = Inr c \<and> pf_dec pf c = Inr s)"

text \<open>The paths \<open>save\<close> may change, and the predicates on trees it therefore leaves alone.\<close>

definition own_paths :: "'c platform \<Rightarrow> path \<Rightarrow> path set" where
  "own_paths pf p = insert p (insert (tmp_state_path pf p) {q. \<exists>n. q = take n (butlast p)})"

definition framed :: "path set \<Rightarrow> ('c fs \<Rightarrow> bool) \<Rightarrow> bool" where
  "framed own F = (\<forall>fs fs'. F fs \<longrightarrow> (\<forall>q. q \<notin> own \<longrightarrow> node_at fs' q = node_at fs q) \<longrightarrow> F fs')"

lemma framedD: "framed own F \<Longrightarrow> F fs \<Longrightarrow> (\<And>q. q \<notin> own \<Longrightarrow> node_at fs' q = node_at fs q) \<Longrightarrow> F fs'"
  unfolding framed_def by blast

subsection \<open>The interface the rest of the upgrade relies on\<close>

locale state_store =
  fixes load :: "('s, 'c) io"
    and save :: "'s \<Rightarrow> (unit, 'c) io"
    and holds :: "'c fs \<Rightarrow> 's \<Rightarrow> bool"
    and faithful :: "'s \<Rightarrow> bool"
    and own :: "path set"
  assumes load_law:
      "framed own F \<Longrightarrow> (\<And>fs. holds fs s \<Longrightarrow> F fs \<Longrightarrow> I fs) \<Longrightarrow>
       triple I (\<lambda>fs. holds fs s \<and> F fs) load (\<lambda>x fs. x = s \<and> holds fs s \<and> F fs) (\<lambda>fs. holds fs s \<and> F fs)"
    and save_law:
      "framed own F \<Longrightarrow> faithful s' \<Longrightarrow> (\<And>fs. holds fs s \<or> holds fs s' \<Longrightarrow> F fs \<Longrightarrow> I fs) \<Longrightarrow>
       triple I (\<lambda>fs. holds fs s \<and> F fs) (save s') (\<lambda>_ fs. holds fs s' \<and> F fs)
         (\<lambda>fs. (holds fs s \<or> holds fs s') \<and> F fs)"
begin

text \<open>Loading, changing and saving: the tree ends with the changed state, and whatever happens on the
  way, a crash included, it holds the old state or the new one.\<close>

lemma load_modify_save:
  assumes "framed own F" and "faithful (f s)"
    and "\<And>fs. holds fs s \<or> holds fs (f s) \<Longrightarrow> F fs \<Longrightarrow> I fs"
  shows "triple I (\<lambda>fs. holds fs s \<and> F fs) (bindIO load (\<lambda>x. save (f x))) (\<lambda>_ fs. holds fs (f s) \<and> F fs)
     (\<lambda>fs. (holds fs s \<or> holds fs (f s)) \<and> F fs)"
proof (rule triple_bind)
  show "triple I (\<lambda>fs. holds fs s \<and> F fs) load (\<lambda>x fs. x = s \<and> holds fs s \<and> F fs)
      (\<lambda>fs. (holds fs s \<or> holds fs (f s)) \<and> F fs)"
    by (rule triple_weaken [OF load_law [OF assms(1), of s]]) (use assms(3) in auto)
  show "triple I (\<lambda>fs. x = s \<and> holds fs s \<and> F fs) (save (f x)) (\<lambda>_ fs. holds fs (f s) \<and> F fs)
      (\<lambda>fs. (holds fs s \<or> holds fs (f s)) \<and> F fs)" for x
  proof (cases "x = s")
    case True
    then show ?thesis
      using save_law [OF assms(1,2), of s I] assms(3) by (auto intro: triple_pre)
  next
    case False
    then show ?thesis by (simp add: triple_def)
  qed
qed

end

subsection \<open>The interface holds of state.json\<close>

lemma load_state_triple:
  assumes "\<And>fs. holds_state pf p fs s \<Longrightarrow> F fs \<Longrightarrow> I fs"
  shows "triple I (\<lambda>fs. holds_state pf p fs s \<and> F fs) (load_state pf p)
     (\<lambda>x fs. x = s \<and> holds_state pf p fs s \<and> F fs) (\<lambda>fs. holds_state pf p fs s \<and> F fs)"
proof -
  let ?P = "\<lambda>fs. holds_state pf p fs s \<and> F fs"
  have I: "\<And>fs. ?P fs \<Longrightarrow> I fs" using assms by blast
  have rest: "triple I ?P (bindIO (ignore sys_nop) (\<lambda>_. ret s)) (\<lambda>x fs. x = s \<and> ?P fs) ?P"
    by (rule bind_keep, (rule keep_rules)+) (auto intro: I triple_rules)
  have parse: "triple I ?P (bindIO (lift (with_source c (pf_dec pf buf))) (\<lambda>s'.
        bindIO (ignore sys_nop) (\<lambda>_. ret s'))) (\<lambda>x fs. x = s \<and> ?P fs) ?P"
    if "pf_dec pf buf = Inr s" for buf c
    using rest that by (simp add: with_source_def)
  show ?thesis
    unfolding load_state_def
    apply (rule bind_keep, (rule keep_rules I | blast)+)
    apply (rule bind_keep, (rule keep_rules I | blast)+)
    apply (rule triple_bind [where R = "\<lambda>c fs. pf_dec pf c = Inr s \<and> ?P fs"])
     apply (rule triple_ctx, rule same_read)
       apply (auto simp: holds_state_def intro: I dest: followed_file)[3]
    subgoal for _ _ buf
      using parse [of buf] by (cases "pf_dec pf buf = Inr s") (simp_all add: triple_def)
    done
qed

lemma tmp_path_ne: "tmp_state_path pf (state_path r) \<noteq> state_path r"
  by (simp add: tmp_state_path_def state_path_def)

lemma state_path_facts:
  "state_path r \<noteq> []" "tmp_state_path pf (state_path r) \<noteq> []" "butlast (state_path r) = r"
  "take n r \<noteq> state_path r" "take n r \<noteq> tmp_state_path pf (state_path r)"
proof -
  have "length (take n r) < Suc (length r)" by simp
  then show "take n r \<noteq> state_path r" "take n r \<noteq> tmp_state_path pf (state_path r)"
    by (metis length_append_singleton less_irrefl state_path_def,
        metis butlast_snoc length_append_singleton less_irrefl state_path_def tmp_state_path_def)
qed (simp_all add: state_path_def tmp_state_path_def)

lemma save_state_triple:
  assumes "framed (own_paths pf (state_path r)) F" and "faithful_state pf s'"
    and I: "\<And>fs. holds_state pf (state_path r) fs s \<or> holds_state pf (state_path r) fs s' \<Longrightarrow> F fs \<Longrightarrow> I fs"
  shows "triple I (\<lambda>fs. holds_state pf (state_path r) fs s \<and> F fs) (save_state pf (state_path r) s')
     (\<lambda>_ fs. holds_state pf (state_path r) fs s' \<and> F fs)
     (\<lambda>fs. (holds_state pf (state_path r) fs s \<or> holds_state pf (state_path r) fs s') \<and> F fs)"
proof -
  let ?p = "state_path r" and ?tmp = "tmp_state_path pf (state_path r)"
  let ?P = "\<lambda>fs. holds_state pf ?p fs s \<and> F fs"
  let ?T = "\<lambda>fs. ?P fs \<and> (\<exists>m d. node_at fs ?tmp = Some (FileNode m d))"
  let ?E = "\<lambda>fs. (holds_state pf ?p fs s \<or> holds_state pf ?p fs s') \<and> F fs"
  obtain json where json: "pf_enc pf s' = Inr json" "pf_dec pf json = Inr s'"
    using assms(2) by (auto simp: faithful_state_def)
  let ?W = "\<lambda>fs. ?P fs \<and> (\<exists>m. node_at fs ?tmp = Some (FileNode m json))"
  let ?D = "\<lambda>fs. holds_state pf ?p fs s' \<and> F fs"
  have fr: "F fs'" if "F fs" "\<And>q. q \<notin> {?p, ?tmp} \<union> {q. \<exists>n. q = take n r} \<Longrightarrow> node_at fs' q = node_at fs q" for fs fs'
    using framedD [OF assms(1) that(1), of fs'] that(2) by (auto simp: own_paths_def state_path_facts)
  have tail: "triple I ?D (bindIO (ignore sys_nop) (\<lambda>_. ignore sys_nop)) (\<lambda>_. ?D) ?E"
    by (rule bind_keep; (rule keep_rules)+) (use I in auto)
  have ren: "triple I ?W (sys_rename ?tmp ?p) (\<lambda>_. ?D) ?E"
    by (rule triple_rename_file)
      (auto simp: tmp_path_ne state_path_facts holds_state_def json intro!: I intro: fr)
  have wr: "triple I ?T (sys_write ?tmp json) (\<lambda>_. ?W) ?E"
    by (rule triple_write_file)
      (auto simp: tmp_path_ne [symmetric] state_path_facts holds_state_def intro!: I intro: fr)
  have cr: "triple I ?P (sys_create_new ?tmp (pf_empty pf)) (\<lambda>_. ?T) ?E"
    by (rule triple_create_new)
      (auto simp: tmp_path_ne [symmetric] state_path_facts holds_state_def intro!: I intro: fr)
  have mk: "triple I ?P (sys_create_dir_all r) (\<lambda>_. ?P) ?E"
  proof (rule triple_create_dir_all)
    fix fs fs' :: "'a fs"
    assume P: "?P fs" and kept: "\<And>q n. node_at fs q = Some n \<Longrightarrow> node_at fs' q = Some n"
      and other: "\<And>q. q \<notin> {q. \<exists>n. q = take n r} \<Longrightarrow> node_at fs' q = node_at fs q"
    have "F fs'" by (rule fr [of fs]) (use P other in auto)
    moreover have "holds_state pf ?p fs' s" using P kept by (auto simp: holds_state_def)
    ultimately show "I fs' \<and> ?P fs'" using I by blast
  qed blast
  have op: "triple I ?T (attempt (sys_open_create ?p (pf_empty pf))) (\<lambda>_. ?T) ?E"
    by (rule keep_attempt, rule keep_open_create) (auto simp: holds_state_def intro!: I)
  have keepT: "triple I ?T (if b then ctx c sys_nop else ret ()) (\<lambda>_. ?T) ?E" for b c
    by (rule triple_if; (rule keep_rules)+) (use I in auto)
  have keepW: "triple I ?W (ctx c sys_nop) (\<lambda>_. ?W) ?E" for c
    by ((rule keep_rules)+) (use I in auto)
  have js: "lift (with_source c (pf_enc pf s')) = lift (Inr json)" for c
    by (simp add: json with_source_def)
  show ?thesis
    unfolding save_state_def Let_def state_path_facts js bindIO_lift
    by (intro bind_keep [OF triple_ctx [OF mk]] triple_bind [OF triple_ctx [OF cr]] bind_keep [OF op]
        bind_keep [OF keepT] triple_bind [OF triple_ctx [OF wr]] bind_keep [OF keepW]
        triple_bind [OF triple_ctx [OF ren]] tail)
qed

interpretation state_json: state_store "load_state pf (state_path r)" "save_state pf (state_path r)"
  "holds_state pf (state_path r)" "faithful_state pf" "own_paths pf (state_path r)" for pf r
  by unfold_locales (auto intro: load_state_triple save_state_triple)

lemma write_file_ok:
  assumes "sys_write p c w = (Inr u, w')" and "node_at (w_fs w) p = Some (FileNode m d)" and "p \<noteq> []"
  shows "w_trail w' = w_trail w @ [w_fs w']" and "node_at (w_fs w') p = Some (FileNode m c)"
  using assms by (auto simp: sys_write_def syscall_ok resolve_file nodes.node_put)

lemma nop_ok: "sys_nop w = (Inr u, w') \<Longrightarrow> w_fs w' = w_fs w \<and> (\<exists>ts. w_trail w' = w_trail w @ ts)"
  by (auto simp: sys_nop_def syscall_ok)

lemma open_ok: "sys_open p w = (Inr u, w') \<Longrightarrow> w_fs w' = w_fs w \<and> (\<exists>ts. w_trail w' = w_trail w @ ts)"
  by (auto simp: sys_open_def syscall_ok split: if_splits)

lemma read_ok:
  "sys_read p w = (Inr c, w') \<Longrightarrow> node_at (w_fs w) p = Some (FileNode m d) \<Longrightarrow>
     c = d \<and> w_fs w' = w_fs w \<and> (\<exists>ts. w_trail w' = w_trail w @ ts)"
  by (auto simp: sys_read_def syscall_ok followed_file)

lemma bump_ok:
  assumes "holds_state pf (state_path r) (w_fs w) s"
    and "bump_boot_attempts pf (state_path r) w = (Inr n, w')"
  shows "n = saturating_inc (st_boot_attempts s)"
    and "\<exists>m c. pf_enc pf (s\<lparr>st_boot_attempts := n\<rparr>) = Inr c
           \<and> node_at (w_fs w') (state_path r) = Some (FileNode m c)"
    and "\<exists>ts1 fs ts2 m. w_trail w' = w_trail w @ ts1 @ fs # ts2
           \<and> node_at fs (state_path r) = Some (FileNode m (pf_empty pf))"
proof -
  let ?p = "state_path r"
  obtain m0 c0 where c0: "node_at (w_fs w) ?p = Some (FileNode m0 c0)" "pf_dec pf c0 = Inr s"
    using assms(1) by (auto simp: holds_state_def)
  obtain w1 w2 w3 w4 w5 w6 w7 buf s0 json u where
    1: "sys_open ?p w = (Inr u, w1)" and 2: "sys_nop w1 = (Inr u, w2)"
    and 3: "sys_read ?p w2 = (Inr buf, w3)" and 4: "pf_dec pf buf = Inr s0"
    and 5: "pf_enc pf (s0\<lparr>st_boot_attempts := saturating_inc (st_boot_attempts s0)\<rparr>) = Inr json"
    and 6: "sys_write ?p (pf_empty pf) w3 = (Inr u, w4)" and 7: "sys_write ?p json w4 = (Inr u, w5)"
    and 8: "sys_nop w5 = (Inr u, w6)" and 9: "sys_nop w6 = (Inr u, w7)"
    and 10: "w' = snd (sys_nop w7)" and n: "n = saturating_inc (st_boot_attempts s0)"
    using assms(2) unfolding bump_boot_attempts_def Let_def
    by (auto simp: bindIO_ok pure_ok result_simps)
  have fs2: "w_fs w2 = w_fs w" using open_ok [OF 1] nop_ok [OF 2] by simp
  have b: "buf = c0" "w_fs w3 = w_fs w" using read_ok [OF 3] c0 fs2 by auto
  then have s0: "s0 = s" using 4 c0 by simp
  note w4 = write_file_ok [OF 6, of m0 c0] write_file_ok(2) [OF 6, of m0 c0]
  have e4: "w_trail w4 = w_trail w3 @ [w_fs w4]" "node_at (w_fs w4) ?p = Some (FileNode m0 (pf_empty pf))"
    using w4 c0 b by (auto simp: state_path_facts)
  have e5: "w_trail w5 = w_trail w4 @ [w_fs w5]" "node_at (w_fs w5) ?p = Some (FileNode m0 json)"
    using write_file_ok [OF 7 e4(2)] by (auto simp: state_path_facts)
  have fs': "w_fs w' = w_fs w5" using nop_ok [OF 8] nop_ok [OF 9] 10 by (simp add: snd_nop)
  show "n = saturating_inc (st_boot_attempts s)" using n s0 by simp
  show "\<exists>m c. pf_enc pf (s\<lparr>st_boot_attempts := n\<rparr>) = Inr c \<and> node_at (w_fs w') ?p = Some (FileNode m c)"
    using 5 n s0 e5 fs' by auto
  obtain t1 t2 t3 where "w_trail w1 = w_trail w @ t1" "w_trail w2 = w_trail w1 @ t2"
    "w_trail w3 = w_trail w2 @ t3"
    using open_ok [OF 1] nop_ok [OF 2] read_ok [OF 3] c0 fs2 by auto
  moreover obtain t6 t7 where "w_trail w6 = w_trail w5 @ t6" "w_trail w7 = w_trail w6 @ t7"
    using nop_ok [OF 8] nop_ok [OF 9] by auto
  moreover obtain t8 where "w_trail w' = w_trail w7 @ t8"
    using 10 snd_nop(2) [of w7] by blast
  ultimately have "w_trail w' = w_trail w @ (t1 @ t2 @ t3) @ w_fs w4 # (w_fs w5 # t6 @ t7 @ t8)"
    using e4 e5 by simp
  then show "\<exists>ts1 fs ts2 m. w_trail w' = w_trail w @ ts1 @ fs # ts2
      \<and> node_at fs ?p = Some (FileNode m (pf_empty pf))"
    using e4(2) by blast
qed

lemma leftover_blocks_triple:
  "triple (\<lambda>_. True) (\<lambda>fs. node_at fs (tmp_state_path pf (state_path r)) \<noteq> None)
     (save_state pf (state_path r) s) (\<lambda>_ _. False)
     (\<lambda>fs. node_at fs (tmp_state_path pf (state_path r)) \<noteq> None)"
proof -
  let ?tmp = "tmp_state_path pf (state_path r)"
  let ?P = "\<lambda>fs. node_at fs ?tmp \<noteq> None"
  have mk: "triple (\<lambda>_. True) ?P (sys_create_dir_all r) (\<lambda>_. ?P) ?P"
    by (rule triple_create_dir_all) auto
  have cr: "triple (\<lambda>_. True) ?P (sys_create_new ?tmp (pf_empty pf)) (\<lambda>_ _. False) ?P"
    by (rule triple_create_new) (auto simp: state_path_facts)
  have any: "triple (\<lambda>_. True) (\<lambda>_. False) m (\<lambda>_ _. False) ?P" for m :: "(unit, 'a) io"
    by (simp add: triple_def)
  show ?thesis
    unfolding save_state_def Let_def state_path_facts
    by (intro bind_keep [OF triple_ctx [OF mk]] triple_bind [OF triple_ctx [OF cr]] any)
qed

text \<open>A codec and a world for the concrete runs: states are stored as they are, no call fails.\<close>

definition plain_platform :: "nat \<Rightarrow> install_state option platform" where
  "plain_platform pid =
     \<lparr>pf_enc = (\<lambda>s. Inr (Some s)),
      pf_dec = (\<lambda>c. case c of Some s \<Rightarrow> Inr s | None \<Rightarrow> Inl ''EOF while parsing a value''),
      pf_empty = None, pf_pid = pid\<rparr>"

definition calm_world :: "'c fs \<Rightarrow> 'c world" where
  "calm_world fs = \<lparr>w_fs = fs, w_trail = [], w_calls = 0, w_fault = (\<lambda>_. False), w_time = int,
                    w_events = chan_new 64\<rparr>"

definition sample_state :: install_state where
  "sample_state =
     \<lparr>st_current_version = ''1.1.0'', st_previous_version = Some ''1.0.0'', st_channel = ''stable'',
      st_variant = ''default'', st_arch = ''x86_64-linux'', st_status = PendingHealth,
      st_boot_attempts = 0, st_staged_at = 0, st_last_health_at = None, st_last_sequence = 7\<rparr>"

lemma plain_faithful [simp]: "faithful_state (plain_platform pid) s"
  by (simp add: faithful_state_def plain_platform_def)

subsection \<open>Properties\<close>

text \<open>C9: replacing the state is atomic. When \<open>state.json\<close> holds a state and \<open>update\<close> changes it, then
  after every system call on the way, whichever calls fail and wherever the process is killed, the file
  holds the old state or the changed one, complete; and on success it holds the changed one.\<close>

theorem update_is_crash_atomic:
  assumes "holds_state pf (state_path r) (w_fs w) s" and "faithful_state pf (f s)"
    and "update_state pf (state_path r) f w = (res, w')"
  shows "(\<exists>ts. w_trail w' = w_trail w @ ts
       \<and> list_all (\<lambda>fs. holds_state pf (state_path r) fs s \<or> holds_state pf (state_path r) fs (f s)) ts)
    \<and> (if is_ok res then holds_state pf (state_path r) (w_fs w') (f s)
       else holds_state pf (state_path r) (w_fs w') s \<or> holds_state pf (state_path r) (w_fs w') (f s))"
proof -
  let ?h = "holds_state pf (state_path r)"
  have T: "triple (\<lambda>fs. ?h fs s \<or> ?h fs (f s)) (\<lambda>fs. ?h fs s \<and> True)
      (bindIO (load_state pf (state_path r)) (\<lambda>x. save_state pf (state_path r) (f x)))
      (\<lambda>_ fs. ?h fs (f s) \<and> True) (\<lambda>fs. (?h fs s \<or> ?h fs (f s)) \<and> True)"
    by (rule state_json.load_modify_save) (use assms(2) in \<open>auto simp: framed_def\<close>)
  show ?thesis
    using tripleD [OF T, of w] assms(1,3) unfolding update_state_def
    by (cases res) auto
qed

theorem update_is_crash_atomic_witness:
  "let pf = plain_platform 1; p = state_path [''r''];
       w = calm_world [([''r''], 0, DirNode), (p, 0, FileNode 420 (Some sample_state))] in
   \<exists>ts. w_trail (snd (update_state pf p (\<lambda>s. s\<lparr>st_status := Stable\<rparr>) w)) = ts
     \<and> list_all (\<lambda>fs. holds_state pf p fs sample_state
                    \<or> holds_state pf p fs (sample_state\<lparr>st_status := Stable\<rparr>)) ts"
proof -
  let ?pf = "plain_platform 1" and ?p = "state_path [''r'']"
  let ?w = "calm_world [([''r''], 0, DirNode), (?p, 0, FileNode 420 (Some sample_state))]"
  obtain res w' where run: "update_state ?pf ?p (\<lambda>s. s\<lparr>st_status := Stable\<rparr>) ?w = (res, w')" by fastforce
  have "holds_state ?pf ?p (w_fs ?w) sample_state"
    by (simp add: holds_state_def calm_world_def plain_platform_def node_at_def state_path_def)
  from update_is_crash_atomic [where f = "\<lambda>s. s\<lparr>st_status := Stable\<rparr>", OF this plain_faithful run]
  show ?thesis unfolding Let_def run by (auto simp: calm_world_def)
qed

text \<open>A temporary file left over from a process with the same id (after a failed write, or a crash)
  makes every later \<open>save\<close> fail, and the file stays: in a container, where the process id is the same
  on every start, no state can be saved again.\<close>

lemma leftover_temporary_blocks_every_save:
  assumes "node_at (w_fs w) (tmp_state_path pf (state_path r)) \<noteq> None"
  shows "\<exists>e. fst (save_state pf (state_path r) s w) = Inl e
    \<and> node_at (w_fs (snd (save_state pf (state_path r) s w))) (tmp_state_path pf (state_path r)) \<noteq> None"
  using tripleD [OF leftover_blocks_triple, of w pf r s] assms
  by (cases "fst (save_state pf (state_path r) s w)") auto

text \<open>The boot counter. A successful \<open>bump_boot_attempts\<close> returns the stored count plus one, stopping
  at the largest 32-bit value, and stores it; but it rewrites the file in place, so a tree in which
  \<open>state.json\<close> is empty was on the disk on the way, and a crash there loses the state.\<close>

lemma bump_counts_but_is_not_atomic:
  assumes "holds_state pf (state_path r) (w_fs w) s"
    and "faithful_state pf (s\<lparr>st_boot_attempts := saturating_inc (st_boot_attempts s)\<rparr>)"
    and "bump_boot_attempts pf (state_path r) w = (Inr n, w')"
  shows "n = saturating_inc (st_boot_attempts s)
    \<and> holds_state pf (state_path r) (w_fs w') (s\<lparr>st_boot_attempts := n\<rparr>)
    \<and> (\<exists>ts1 fs ts2 m. w_trail w' = w_trail w @ ts1 @ fs # ts2
         \<and> node_at fs (state_path r) = Some (FileNode m (pf_empty pf)))"
proof -
  note ok = bump_ok [OF assms(1,3)]
  show ?thesis
    using ok(2,3) assms(2) unfolding ok(1)
    by (auto simp: holds_state_def faithful_state_def)
qed

end
