(* ===== verification/Apply.thy ===== *)
theory Apply
  imports InstallState Manifest
begin

section \<open>Installing a version (src/upgrade/apply.rs)\<close>

text \<open>
  \<open>stage_new_version\<close> with extraction, the search for the binary, the swap of the \<open>current\<close> link and
  the collection of old versions, and \<open>manual_apply_pending\<close>. The tar and gzip crates are the record
  \<open>tar_lib\<close>, an argument: what the entries of an archive are, their paths, and what unpacking one does.
\<close>

datatype path_component = Normal string | ParentDir | CurDir

record entry_path =
  ep_absolute :: bool
  ep_components :: "path_component list"

record ('e, 'c) tar_lib =
  tar_entries :: "bytes \<Rightarrow> string + (string + 'e) list"
  tar_path :: "'e \<Rightarrow> string + entry_path"
  tar_unpack :: "'e \<Rightarrow> path \<Rightarrow> 'c fs \<Rightarrow> utc \<Rightarrow> string + 'c fs"

text \<open>\<open>Path::join\<close> and \<open>starts_with\<close>, by components; an absolute path replaces the base.\<close>

fun component_names :: "path_component list \<Rightarrow> string list" where
  "component_names [] = []"
| "component_names (Normal s # cs) = s # component_names cs"
| "component_names (ParentDir # cs) = ''..'' # component_names cs"
| "component_names (CurDir # cs) = component_names cs"

definition join_entry :: "path \<Rightarrow> entry_path \<Rightarrow> path" where
  "join_entry dest p =
     (if ep_absolute p then component_names (ep_components p) else dest @ component_names (ep_components p))"

definition path_starts_with :: "path \<Rightarrow> path \<Rightarrow> bool" where
  "path_starts_with p base = (take (length base) p = base)"

definition versions_dir :: "path \<Rightarrow> path" where "versions_dir root = root @ [''versions'']"
definition version_dir :: "path \<Rightarrow> string \<Rightarrow> path" where "version_dir root v = root @ [''versions'', v]"
definition current_link :: "path \<Rightarrow> path" where "current_link root = root @ [''current'']"
definition previous_link :: "path \<Rightarrow> path" where "previous_link root = root @ [''previous'']"
definition current_tmp :: "path \<Rightarrow> path" where "current_tmp root = root @ [''current.tmp'']"

subsection \<open>Extraction\<close>

definition extract_entry :: "('e, 'c) tar_lib \<Rightarrow> path \<Rightarrow> string + 'e \<Rightarrow> (unit, 'c) io" where
  "extract_entry tar dest entry =
     bindIO (lift (map_err (\<lambda>e. [Source e]) entry)) (\<lambda>e.
     bindIO (lift (map_err (\<lambda>e. [Source e]) (tar_path tar e))) (\<lambda>p.
     bindIO (lift (bail_if (ep_absolute p) [Install TarEntryAbsolute])) (\<lambda>_.
     bindIO (lift (bail_if (ParentDir \<in> set (ep_components p)) [Install TarEntryParent])) (\<lambda>_.
     let target = join_entry dest p in
     bindIO (lift (bail_if (\<not> path_starts_with target dest) [Install TarEntryEscapes])) (\<lambda>_.
     syscall (\<lambda>fs t. bindR (tar_unpack tar e target fs t) (\<lambda>fs'. Inr ((), fs'))))))))"

fun extract_entries :: "('e, 'c) tar_lib \<Rightarrow> path \<Rightarrow> (string + 'e) list \<Rightarrow> (unit, 'c) io" where
  "extract_entries tar dest [] = ret ()"
| "extract_entries tar dest (e # es) =
     bindIO (extract_entry tar dest e) (\<lambda>_. extract_entries tar dest es)"

definition extract_tarball :: "('e, 'c) tar_lib \<Rightarrow> bytes \<Rightarrow> path \<Rightarrow> (unit, 'c) io" where
  "extract_tarball tar tarball dest =
     bindIO (lift (map_err (\<lambda>e. [Source e]) (tar_entries tar tarball))) (\<lambda>es. extract_entries tar dest es)"

subsection \<open>The binary\<close>

fun find_nested :: "path \<Rightarrow> string \<Rightarrow> string list \<Rightarrow> (path option, 'c) io" where
  "find_nested root name [] = ret None"
| "find_nested root name (d # ds) =
     bindIO (path_is_dir (root @ [d])) (\<lambda>dir.
     if dir then
       bindIO (path_is_file (root @ [d, name])) (\<lambda>file.
       if file then ret (Some (root @ [d, name])) else find_nested root name ds)
     else find_nested root name ds)"

definition locate_binary :: "path \<Rightarrow> string \<Rightarrow> (path option, 'c) io" where
  "locate_binary root name =
     bindIO (path_is_file (root @ [name])) (\<lambda>direct.
     if direct then ret (Some (root @ [name]))
     else bindIO (attempt (sys_read_dir root)) (\<lambda>entries.
       case entries of None \<Rightarrow> ret None | Some ds \<Rightarrow> find_nested root name ds))"

subsection \<open>The link and the old versions\<close>

definition swap_current_symlink :: "path \<Rightarrow> path \<Rightarrow> (unit, 'c) io" where
  "swap_current_symlink install_root new_target =
     (let current = current_link install_root; previous = previous_link install_root;
          tmp = current_tmp install_root in
      bindIO (attempt (sys_read_link current)) (\<lambda>existing.
      bindIO (case existing of
          Some existing_target \<Rightarrow>
            bindIO (ignore (sys_remove_file previous)) (\<lambda>_. sys_symlink existing_target previous)
        | None \<Rightarrow> ret ()) (\<lambda>_.
      bindIO (ignore (sys_remove_file tmp)) (\<lambda>_.
      bindIO (sys_symlink new_target tmp) (\<lambda>_.
      bindIO (sys_rename tmp current) (\<lambda>_.
      ignore sys_nop))))))"

text \<open>The closure of the two \<open>filter_map\<close>s, over the names \<open>read_dir\<close> gives.\<close>

fun gc_entries :: "path \<Rightarrow> string \<Rightarrow> string list \<Rightarrow> ((path \<times> utc) list, 'c) io" where
  "gc_entries dir current_version [] = ret []"
| "gc_entries dir current_version (name # names) =
     (if name = current_version then gc_entries dir current_version names
      else if ends_with ''.partial'' name then
        bindIO (ignore (sys_remove_dir_all (dir @ [name]))) (\<lambda>_. gc_entries dir current_version names)
      else bindIO (attempt (sys_mtime (dir @ [name]))) (\<lambda>m.
        bindIO (gc_entries dir current_version names) (\<lambda>rest.
        ret (case m of Some u \<Rightarrow> (dir @ [name], u) # rest | None \<Rightarrow> rest))))"

fun remove_all :: "path list \<Rightarrow> (unit, 'c) io" where
  "remove_all [] = ret ()"
| "remove_all (p # ps) = bindIO (ignore (sys_remove_dir_all p)) (\<lambda>_. remove_all ps)"

definition gc_versions :: "path \<Rightarrow> string \<Rightarrow> nat \<Rightarrow> (unit, 'c) io" where
  "gc_versions install_root current_version keep =
     (let dir = versions_dir install_root in
      bindIO (sys_read_dir dir) (\<lambda>names.
      bindIO (gc_entries dir current_version names) (\<lambda>entries.
      remove_all (map fst (drop keep (sort_key (\<lambda>(_, mtime). - mtime) entries))))))"

subsection \<open>Staging\<close>

definition stage_new_version ::
  "('e, 'c) tar_lib \<Rightarrow> path \<Rightarrow> string \<Rightarrow> string \<Rightarrow> bytes \<Rightarrow> manifest \<Rightarrow> (path, 'c) io" where
  "stage_new_version tar install_root new_version binary_name tarball m =
     (let final_dir = version_dir install_root new_version;
          partial_dir = version_dir install_root (new_version @ ''.partial'') in
      bindIO (lift (bail_if (new_version \<noteq> mf_version m)
                [Install (StageVersionMismatch new_version (mf_version m))])) (\<lambda>_.
      bindIO (ctx (Install (IoContext ''creating versions'' install_root))
                (sys_create_dir_all (versions_dir install_root))) (\<lambda>_.
      bindIO (path_exists partial_dir) (\<lambda>stale.
      bindIO (if stale then sys_remove_dir_all partial_dir else ret ()) (\<lambda>_.
      bindIO (path_exists final_dir) (\<lambda>there.
      bindIO (if \<not> there then ret False
              else bindIO (attempt (sys_read_link (current_link install_root))) (\<lambda>l.
                if l \<noteq> Some final_dir
                then bindIO (sys_remove_dir_all final_dir) (\<lambda>_. ret False)
                else ret True)) (\<lambda>already_current.
      if already_current then ret final_dir
      else
        bindIO (sys_create_dir partial_dir) (\<lambda>_.
        bindIO (extract_tarball tar tarball partial_dir) (\<lambda>_.
        bindIO (locate_binary partial_dir binary_name) (\<lambda>found.
        bindIO (lift (ok_or [Install (BinaryMissing binary_name)] found)) (\<lambda>binary_src.
        bindIO (sys_metadata binary_src) (\<lambda>_.
        bindIO (sys_chmod binary_src 493) (\<lambda>_.
        bindIO (if butlast binary_src \<noteq> partial_dir \<and> partial_dir @ [binary_name] \<noteq> binary_src
                then sys_rename binary_src (partial_dir @ [binary_name]) else ret ()) (\<lambda>_.
        bindIO (ignore sys_nop) (\<lambda>_.
        bindIO (sys_rename partial_dir final_dir) (\<lambda>_.
        bindIO (swap_current_symlink install_root final_dir) (\<lambda>_.
        bindIO (ignore (gc_versions install_root new_version 3)) (\<lambda>_.
        ret final_dir))))))))))))))))))"

definition manual_apply_pending :: "'c platform \<Rightarrow> path \<Rightarrow> (unit, 'c) io" where
  "manual_apply_pending pf install_root =
     (let p = state_path install_root in
      bindIO (load_state pf p) (\<lambda>state.
      bindIO (lift (bail_if (st_status state \<noteq> StagedManual) [Install NoManualStaged])) (\<lambda>_.
      let target = version_dir install_root (st_current_version state) in
      bindIO (path_is_dir target) (\<lambda>dir.
      bindIO (lift (bail_if (\<not> dir) [Install (StagedDirMissing target)])) (\<lambda>_.
      bindIO (swap_current_symlink install_root target) (\<lambda>_.
      save_state pf p (state\<lparr>st_status := PendingHealth, st_boot_attempts := 0\<rparr>)))))))"

subsection \<open>The link never dangles in between\<close>

lemma link_paths_distinct:
  "current_link r \<noteq> previous_link r" "current_link r \<noteq> current_tmp r" "previous_link r \<noteq> current_tmp r"
  "current_link r \<noteq> []" "previous_link r \<noteq> []" "current_tmp r \<noteq> []"
  by (simp_all add: current_link_def previous_link_def current_tmp_def)

lemma swap_triple:
  fixes old new r :: path
  defines "at (fs :: 'c fs) t \<equiv> node_at fs (current_link r) = Some (LinkNode t)"
  shows "triple (\<lambda>fs. at fs old \<or> at fs new) (\<lambda>fs. at fs old)
     (swap_current_symlink r new :: (unit, 'c) io) (\<lambda>_ fs. at fs new) (\<lambda>fs. at fs old \<or> at fs new)"
proof -
  let ?I = "\<lambda>fs. at fs old \<or> at fs new" and ?P = "\<lambda>fs. at fs old"
  let ?T = "\<lambda>fs. at fs old \<and> node_at fs (current_tmp r) = Some (LinkNode new)"
  note at = at_def link_paths_distinct
  have rl: "triple ?I ?P (attempt (sys_read_link (current_link r))) (\<lambda>_. ?P) ?I"
    by (rule keep_attempt, rule keep_calls) auto
  have rm: "triple ?I ?P (ignore (sys_remove_file p)) (\<lambda>_. ?P) ?I" if "p \<noteq> current_link r" "p \<noteq> []" for p
    by (rule keep_ignore, rule triple_remove_file) (use that in \<open>auto simp: at\<close>)
  have sl: "triple ?I ?P (sys_symlink t (previous_link r)) (\<lambda>_. ?P) ?I" for t
    by (rule triple_symlink) (auto simp: at)
  have opt: "triple ?I ?P (case x of
          Some t \<Rightarrow> bindIO (ignore (sys_remove_file (previous_link r))) (\<lambda>_. sys_symlink t (previous_link r))
        | None \<Rightarrow> ret ()) (\<lambda>_. ?P) ?I" for x
  proof (cases x)
    case (Some t)
    then show ?thesis
      using bind_keep [OF rm sl, of "previous_link r" "\<lambda>_. t"] link_paths_distinct(1,5) [of r] by auto
  qed (simp add: keep_pure)
  have sn: "triple ?I ?P (sys_symlink new (current_tmp r)) (\<lambda>_. ?T) ?I"
    by (rule triple_symlink) (auto simp: at)
  have rn: "triple ?I ?T (sys_rename (current_tmp r) (current_link r)) (\<lambda>_ fs. at fs new) ?I"
    by (rule triple_rename_file) (auto simp: at link_paths_distinct [symmetric])
  have fin: "triple ?I (\<lambda>fs. at fs new) (ignore sys_nop) (\<lambda>_ fs. at fs new) ?I"
    by (rule keep_ignore, rule keep_calls) auto
  show ?thesis
    unfolding swap_current_symlink_def Let_def
    by (intro bind_keep [OF rl] bind_keep [OF opt] bind_keep [OF rm] triple_bind [OF sn]
        triple_bind [OF rn] fin link_paths_distinct link_paths_distinct [symmetric])
qed

subsection \<open>Properties\<close>

text \<open>C23: swapping \<open>current\<close> is atomic. While \<open>current\<close> is a link, then after every system call of
  \<open>swap_current_symlink\<close>, whichever fail and wherever the process is killed, it is a link to the old
  target or to the new one, never missing; on success it is the new one.\<close>

theorem swap_is_crash_atomic:
  assumes "node_at (w_fs w) (current_link r) = Some (LinkNode old)"
    and "swap_current_symlink r new w = (res, w')"
  shows "(\<exists>ts. w_trail w' = w_trail w @ ts
       \<and> list_all (\<lambda>fs. node_at fs (current_link r) \<in> {Some (LinkNode old), Some (LinkNode new)}) ts)
    \<and> node_at (w_fs w') (current_link r)
        \<in> (if is_ok res then {Some (LinkNode new)} else {Some (LinkNode old), Some (LinkNode new)})"
  using tripleD [OF swap_triple [where r = r and old = old and new = new], of w] assms
  by (cases res) (auto simp: list_all_iff)

theorem swap_is_crash_atomic_witness:
  "let w = calm_world [([''r''], 0, DirNode), ([''r'', ''current''], 0, LinkNode [''a''])] :: unit world in
   node_at (w_fs (snd (swap_current_symlink [''r''] [''b''] w))) [''r'', ''current'']
     \<in> {Some (LinkNode [''a'']), Some (LinkNode [''b''])}"
proof -
  let ?w = "calm_world [([''r''], 0, DirNode), ([''r'', ''current''], 0, LinkNode [''a''])] :: unit world"
  have "node_at (w_fs ?w) (current_link [''r'']) = Some (LinkNode [''a''])"
    by (simp add: calm_world_def node_at_def current_link_def)
  from swap_is_crash_atomic [OF this, of "[''b'']", OF surjective_pairing] show ?thesis
    by (auto simp: current_link_def Let_def split: if_splits)
qed

end
