(* ===== verification/Watchdog.thy ===== *)
theory Watchdog
  imports Apply
begin

section \<open>Boot watchdog (src/upgrade/watchdog.rs)\<close>

text \<open>
  \<open>run_boot_watchdog\<close> with the revert of the link, \<open>record_healthy_beat\<close>, \<open>finalize_if_stable\<close> and its
  periodic caller. Leaving the process (\<open>std::process::exit\<close>) is a result of its own.
\<close>

datatype watchdog_outcome =
    WatchdogContinue
  | WatchdogRolledBack (from_version: string) (to_version: string)
  | WatchdogPendingHealth u32

datatype watchdog_end = Returned watchdog_outcome | ExitProcess nat

definition unknown_version :: string where "unknown_version = ''unknown''"

text \<open>The state it changes is given back on success and is as it was on failure.\<close>

definition revert_to_previous :: "path \<Rightarrow> install_state \<Rightarrow> (install_state, 'c) io" where
  "revert_to_previous install_root state =
     bindIO (lift (ok_or [Install NoPreviousVersion] (st_previous_version state))) (\<lambda>prev_v.
     let prev_target = version_dir install_root prev_v;
         current = current_link install_root; tmp = current_tmp install_root in
     bindIO (path_is_dir prev_target) (\<lambda>dir.
     bindIO (lift (bail_if (\<not> dir) [Install (PreviousDirMissing prev_target)])) (\<lambda>_.
     bindIO (ignore (sys_remove_file tmp)) (\<lambda>_.
     bindIO (sys_symlink prev_target tmp) (\<lambda>_.
     bindIO (sys_rename tmp current) (\<lambda>_.
     ret (state\<lparr>st_current_version := prev_v,
                st_previous_version := Some (st_current_version state)\<rparr>)))))))"

definition rolled_back_event :: "string \<Rightarrow> string \<Rightarrow> upgrade_event" where
  "rolled_back_event from to =
     \<lparr>ue_severity = ''critical'', ue_error_code = ''upgrade_rolled_back'', ue_from_version = Some from,
      ue_to_version = Some to, ue_channel = None, ue_event_message = RolledBackFromTo from to,
      ue_size_bytes = None\<rparr>"

definition reverted_event :: "install_state \<Rightarrow> upgrade_event" where
  "reverted_event current =
     \<lparr>ue_severity = ''critical'', ue_error_code = ''upgrade_rolled_back'',
      ue_from_version = Some (st_current_version current), ue_to_version = st_previous_version current,
      ue_channel = None,
      ue_event_message = FailedAndReverted (st_current_version current) (st_previous_version current),
      ue_size_bytes = None\<rparr>"

text \<open>The arms of \<open>match current.status\<close>.\<close>

definition rolled_back_arm :: "'c platform \<Rightarrow> path \<Rightarrow> install_state \<Rightarrow> (watchdog_end, 'c) io" where
  "rolled_back_arm pf p current =
     (let from = (case st_previous_version current of Some v \<Rightarrow> v | None \<Rightarrow> unknown_version);
          to = st_current_version current in
      bindIO (try_event (rolled_back_event from to)) (\<lambda>_.
      bindIO (ignore (save_state pf p (current\<lparr>st_status := Stable, st_boot_attempts := 0\<rparr>))) (\<lambda>_.
      ret (Returned (WatchdogRolledBack from to)))))"

definition pending_arm ::
  "'c platform \<Rightarrow> path \<Rightarrow> u32 \<Rightarrow> install_state \<Rightarrow> (watchdog_end, 'c) io" where
  "pending_arm pf install_root max_boot_attempts current =
     (let p = state_path install_root in
      bindIO (bump_boot_attempts pf p) (\<lambda>attempt_no.
      if attempt_no > max_boot_attempts then
        bindIO (attempt (revert_to_previous install_root current)) (\<lambda>reverted.
        let current' = (case reverted of Some s \<Rightarrow> s | None \<Rightarrow> current)\<lparr>st_status := RolledBack\<rparr> in
        bindIO (ignore (save_state pf p current')) (\<lambda>_.
        bindIO (try_event (reverted_event current')) (\<lambda>_.
        ret (ExitProcess 1))))
      else ret (Returned (WatchdogPendingHealth attempt_no))))"

definition run_boot_watchdog :: "'c platform \<Rightarrow> upgrade_config option \<Rightarrow> (watchdog_end, 'c) io" where
  "run_boot_watchdog pf upgrade_cfg =
     (case upgrade_cfg of
        None \<Rightarrow> ret (Returned WatchdogContinue)
      | Some cfg \<Rightarrow>
          if \<not> uc_enabled cfg then ret (Returned WatchdogContinue)
          else let p = state_path (uc_install_root cfg) in
            bindIO (path_exists p) (\<lambda>there.
            if \<not> there then ret (Returned WatchdogContinue)
            else bindIO (attempt (load_state pf p)) (\<lambda>loaded.
              case loaded of
                None \<Rightarrow> ret (Returned WatchdogContinue)
              | Some current \<Rightarrow>
                  (case st_status current of
                     Stable \<Rightarrow> ret (Returned WatchdogContinue)
                   | StagedManual \<Rightarrow> ret (Returned WatchdogContinue)
                   | RolledBack \<Rightarrow> rolled_back_arm pf p current
                   | PendingHealth \<Rightarrow>
                       pending_arm pf (uc_install_root cfg) (uc_max_boot_attempts cfg) current))))"

definition record_healthy_beat :: "'c platform \<Rightarrow> path \<Rightarrow> (unit, 'c) io" where
  "record_healthy_beat pf install_root =
     (let p = state_path install_root in
      ignore (bindIO (load_state pf p) (\<lambda>s.
        bindIO (if st_status s = PendingHealth
                then bindIO now_io (\<lambda>t. ret (s\<lparr>st_last_health_at := Some t\<rparr>))
                else ret s) (\<lambda>s'.
        save_state pf p s'))))"

text \<open>\<open>TimeDelta::num_seconds\<close>: whole seconds, towards zero; times are nanoseconds.\<close>

definition num_seconds :: "int \<Rightarrow> int" where
  "num_seconds d = (if d < 0 then - ((- d) div 1000000000) else d div 1000000000)"

text \<open>\<open>.max(0) as u32\<close>.\<close>

definition secs_u32 :: "int \<Rightarrow> u32" where
  "secs_u32 s = of_int (max s 0)"

definition completed_event :: "install_state \<Rightarrow> string \<Rightarrow> u32 \<Rightarrow> upgrade_event" where
  "completed_event state from healthy_for =
     \<lparr>ue_severity = ''info'', ue_error_code = ''upgrade_completed'', ue_from_version = Some from,
      ue_to_version = Some (st_current_version state), ue_channel = Some (st_channel state),
      ue_event_message = StableAfter (st_current_version state) (unat healthy_for), ue_size_bytes = None\<rparr>"

definition finalize_if_stable :: "'c platform \<Rightarrow> path \<Rightarrow> upgrade_config \<Rightarrow> (unit, 'c) io" where
  "finalize_if_stable pf install_root cfg =
     (let p = state_path install_root in
      bindIO (attempt (load_state pf p)) (\<lambda>loaded.
      case loaded of
        None \<Rightarrow> ret ()
      | Some state \<Rightarrow>
          if st_status state \<noteq> PendingHealth then ret ()
          else (case st_last_health_at state of
              None \<Rightarrow> ret ()
            | Some last_health \<Rightarrow>
                bindIO now_io (\<lambda>t1.
                let healthy_for = secs_u32 (num_seconds (t1 - st_staged_at state)) in
                if healthy_for < uc_boot_health_window_secs cfg then ret ()
                else bindIO now_io (\<lambda>t2.
                  if num_seconds (t2 - last_health) > 60 then ret ()
                  else
                    let from = (case st_previous_version state of Some v \<Rightarrow> v | None \<Rightarrow> unknown_version) in
                    bindIO (ignore (update_state pf p (\<lambda>s. s\<lparr>st_status := Stable\<rparr>))) (\<lambda>_.
                    try_event (completed_event state from healthy_for)))))))"

text \<open>\<open>run_watchdog_periodic\<close> until it is cancelled after \<open>n\<close> ticks.\<close>

fun run_watchdog_periodic :: "'c platform \<Rightarrow> path \<Rightarrow> upgrade_config \<Rightarrow> nat \<Rightarrow> (unit, 'c) io" where
  "run_watchdog_periodic pf install_root cfg 0 = ret ()"
| "run_watchdog_periodic pf install_root cfg (Suc n) =
     bindIO (finalize_if_stable pf install_root cfg) (\<lambda>_.
     run_watchdog_periodic pf install_root cfg n)"

subsection \<open>Total correctness of the operations on an intact install\<close>

definition dirs_ok :: "path \<Rightarrow> 'c fs \<Rightarrow> bool" where
  "dirs_ok r fs = (\<forall>n. node_at fs (take n r) = Some DirNode)"

lemma dirs_ok_root: "dirs_ok r fs \<Longrightarrow> node_at fs r = Some DirNode"
  unfolding dirs_ok_def by (metis order_refl take_all)

lemma dirs_ok_mono: "dirs_ok r fs \<Longrightarrow> (\<And>n. node_at fs' (take n r) = node_at fs (take n r)) \<Longrightarrow> dirs_ok r fs'"
  by (simp add: dirs_ok_def)

lemma make_dirs_same:
  "\<forall>p\<in>set ps. node_at fs p = Some DirNode \<Longrightarrow> make_dirs t ps fs = Inr fs"
  by (induction ps) (simp_all add: followed_dir)

lemma runs_create_dir_all:
  assumes "\<And>fs ev. P fs ev \<Longrightarrow> dirs_ok r fs"
  shows "runs (seen P) (sys_create_dir_all r) (\<lambda>_. seen P)"
  unfolding sys_create_dir_all_def
proof (rule runs_syscall)
  fix fs :: "'a fs" and ev and t :: utc assume P: "P fs ev"
  have "make_dirs t (map (\<lambda>n. take n r) [1..<Suc (length r)]) fs = Inr fs"
    by (rule make_dirs_same) (use assms [OF P] in \<open>auto simp: dirs_ok_def\<close>)
  then show "\<exists>x fs'. bindR (make_dirs t (map (\<lambda>n. take n r) [1..<Suc (length r)]) fs) (\<lambda>fs'. Inr ((), fs'))
      = Inr (x, fs') \<and> P fs' ev"
    using P by simp
qed

text \<open>What an install looks like between operations: a state, its directories, no left-over files.\<close>

definition intact :: "'c platform \<Rightarrow> path \<Rightarrow> install_state \<Rightarrow> 'c fs \<Rightarrow> bool" where
  "intact pf r s fs =
     (holds_state pf (state_path r) fs s \<and> dirs_ok r fs
      \<and> node_at fs (tmp_state_path pf (state_path r)) = None)"

definition beside :: "'c platform \<Rightarrow> path \<Rightarrow> ('c fs \<Rightarrow> upgrade_event chan \<Rightarrow> bool) \<Rightarrow> bool" where
  "beside pf r G = (\<forall>ev. framed {state_path r, tmp_state_path pf (state_path r)} (\<lambda>fs. G fs ev))"

lemma besideD:
  "beside pf r G \<Longrightarrow> G fs ev \<Longrightarrow>
    (\<And>q. q \<noteq> state_path r \<Longrightarrow> q \<noteq> tmp_state_path pf (state_path r) \<Longrightarrow> node_at fs' q = node_at fs q) \<Longrightarrow>
    G fs' ev"
  unfolding beside_def framed_def by blast

lemma runs_load:
  "runs (seen (\<lambda>fs ev. holds_state pf p fs s \<and> G fs ev)) (load_state pf p)
     (\<lambda>x. seen (\<lambda>fs ev. x = s \<and> holds_state pf p fs s \<and> G fs ev))"
proof -
  let ?P = "\<lambda>fs ev. holds_state pf p fs s \<and> G fs ev"
  have parse: "runs (seen (\<lambda>fs ev. pf_dec pf buf = Inr s \<and> ?P fs ev))
      (bindIO (lift (with_source c (pf_dec pf buf))) (\<lambda>s. bindIO (ignore sys_nop) (\<lambda>_. ret s)))
      (\<lambda>x. seen (\<lambda>fs ev. x = s \<and> ?P fs ev))" for buf c
  proof (cases "pf_dec pf buf = Inr s")
    case True
    then show ?thesis
      by (auto simp: with_source_def intro!: runs_bind [OF runs_keep_ignore_nop] runs_pure(1) simp: seen_def)
  next
    case False
    then show ?thesis by (simp add: runs_def seen_def)
  qed
  have rd: "runs (seen ?P) (sys_read p) (\<lambda>c. seen (\<lambda>fs ev. pf_dec pf c = Inr s \<and> ?P fs ev))"
    by (rule runs_read_file) (auto simp: holds_state_def)
  have op: "runs (seen ?P) (sys_open p) (\<lambda>_. seen ?P)"
    by (rule runs_open_file) (auto simp: holds_state_def is_file_node_def)
  show ?thesis
    unfolding load_state_def
    by (intro runs_bind [OF runs_ctx [OF op]] runs_bind [OF runs_ctx [OF runs_nop]]
        runs_bind [OF runs_ctx [OF rd]] parse)
qed

lemma runs_save:
  assumes "faithful_state pf s'" and "beside pf r G"
  shows "runs (seen (\<lambda>fs ev. intact pf r s fs \<and> G fs ev)) (save_state pf (state_path r) s')
     (\<lambda>_. seen (\<lambda>fs ev. intact pf r s' fs \<and> G fs ev))"
proof -
  let ?p = "state_path r" and ?tmp = "tmp_state_path pf (state_path r)"
  let ?P = "\<lambda>fs ev. intact pf r s fs \<and> G fs ev"
  let ?B = "\<lambda>fs ev. holds_state pf ?p fs s \<and> dirs_ok r fs \<and> G fs ev"
  let ?T = "\<lambda>fs ev. ?B fs ev \<and> (\<exists>m d. node_at fs ?tmp = Some (FileNode m d))"
  obtain json where json: "pf_enc pf s' = Inr json" "pf_dec pf json = Inr s'"
    using assms(1) by (auto simp: faithful_state_def)
  let ?W = "\<lambda>fs ev. ?B fs ev \<and> (\<exists>m. node_at fs ?tmp = Some (FileNode m json))"
  let ?D = "\<lambda>fs ev. intact pf r s' fs \<and> G fs ev"
  have pd: "parent_is_dir fs ?p" "parent_is_dir fs ?tmp" if "dirs_ok r fs" for fs
    using dirs_ok_root [OF that] by (simp_all add: parent_is_dir_def state_path_def tmp_state_path_def)
  have dk: "dirs_ok r fs'" if "dirs_ok r fs"
    "\<And>q. q \<noteq> ?p \<Longrightarrow> q \<noteq> ?tmp \<Longrightarrow> node_at fs' q = node_at fs q" for fs fs'
    by (rule dirs_ok_mono [OF that(1)]) (simp add: that(2) state_path_facts)
  note step = dk besideD [OF assms(2)]
  have cr: "runs (seen ?P) (sys_create_new ?tmp (pf_empty pf)) (\<lambda>_. seen ?T)"
    by (rule runs_create_new)
      (auto simp: intact_def holds_state_def tmp_path_ne [symmetric] intro: pd step)
  have op: "runs (seen ?T) (attempt (sys_open_create ?p (pf_empty pf))) (\<lambda>_. seen ?T)"
  proof (rule runs_attempt)
    show "runs (seen ?T) (sys_open_create ?p (pf_empty pf)) (\<lambda>_. seen ?T)"
      unfolding sys_open_create_def
      by (rule runs_syscall) (auto simp: holds_state_def resolve_file)
  qed
  have lk: "runs (seen ?T) (if b then ctx c sys_nop else ret ()) (\<lambda>_. seen ?T)" for b c
    by (rule runs_if, rule runs_ctx, rule runs_nop, rule runs_pure)
  have wr: "runs (seen ?T) (sys_write ?tmp json) (\<lambda>_. seen ?W)"
    by (rule runs_write_file)
      (auto simp: holds_state_def tmp_path_ne [symmetric] state_path_facts intro: step)
  have rn: "runs (seen ?W) (sys_rename ?tmp ?p) (\<lambda>_. seen ?D)"
  proof (rule runs_rename_file)
    fix fs :: "'a fs" and ev assume W: "?W fs ev"
    then obtain m where m: "node_at fs ?tmp = Some (FileNode m json)" by blast
    have "?D fs' ev"
      if n: "\<forall>q. node_at fs' q = (if q = ?p then Some (FileNode m json) else if q = ?tmp then None else node_at fs q)"
      for fs'
    proof -
      have other: "\<And>q. q \<noteq> ?p \<Longrightarrow> q \<noteq> ?tmp \<Longrightarrow> node_at fs' q = node_at fs q" using n by simp
      have "holds_state pf ?p fs' s'" using n json(2) by (simp add: holds_state_def)
      moreover have "node_at fs' ?tmp = None" using n tmp_path_ne by simp
      ultimately show ?thesis
        using W dk [of fs fs'] besideD [OF assms(2), of fs ev fs'] other by (simp add: intact_def)
    qed
    then show "parent_is_dir fs ?p \<and> node_at fs ?p \<noteq> Some DirNode \<and>
        (\<exists>n. node_at fs ?tmp = Some n \<and> n \<noteq> DirNode \<and>
          (\<forall>fs'. (\<forall>q. node_at fs' q = (if q = ?p then Some n else if q = ?tmp then None else node_at fs q))
             \<longrightarrow> ?D fs' ev))"
      using W m pd(1) [of fs] by (auto simp: holds_state_def)
  qed (simp_all add: tmp_path_ne state_path_facts)
  have js: "lift (with_source c (pf_enc pf s')) = lift (Inr json)" for c
    by (simp add: json with_source_def)
  have mk: "runs (seen ?P) (sys_create_dir_all r) (\<lambda>_. seen ?P)"
    by (rule runs_create_dir_all) (auto simp: intact_def)
  show ?thesis
    unfolding save_state_def Let_def state_path_facts js bindIO_lift
    by (intro runs_bind [OF runs_ctx [OF mk]] runs_bind [OF runs_ctx [OF cr]] runs_bind [OF op]
        runs_bind [OF lk] runs_bind [OF runs_ctx [OF wr]] runs_bind [OF runs_ctx [OF runs_nop]]
        runs_bind [OF runs_ctx [OF rn]] runs_bind [OF runs_keep_ignore_nop] runs_keep_ignore_nop)
qed

lemma runs_bump:
  fixes s :: install_state
  defines "s' \<equiv> s\<lparr>st_boot_attempts := saturating_inc (st_boot_attempts s)\<rparr>"
  assumes "faithful_state pf s'" and "beside pf r G"
  shows "runs (seen (\<lambda>fs ev. intact pf r s fs \<and> G fs ev)) (bump_boot_attempts pf (state_path r))
     (\<lambda>n. seen (\<lambda>fs ev. n = st_boot_attempts s' \<and> intact pf r s' fs \<and> G fs ev))"
proof -
  let ?p = "state_path r" and ?tmp = "tmp_state_path pf (state_path r)"
  let ?P = "\<lambda>fs ev. intact pf r s fs \<and> G fs ev"
  let ?D = "\<lambda>fs ev. dirs_ok r fs \<and> node_at fs ?tmp = None \<and> G fs ev"
  let ?T = "\<lambda>fs ev. ?D fs ev \<and> (\<exists>m d. node_at fs ?p = Some (FileNode m d))"
  let ?Q = "\<lambda>fs ev. intact pf r s' fs \<and> G fs ev"
  obtain json where json: "pf_enc pf s' = Inr json" "pf_dec pf json = Inr s'"
    using assms(2) by (auto simp: faithful_state_def)
  have wr: "runs (seen ?T) (sys_write ?p c)
      (\<lambda>_. seen (\<lambda>fs ev. ?D fs ev \<and> (\<exists>m. node_at fs ?p = Some (FileNode m c))))" for c
  proof (rule runs_write_file)
    fix fs :: "'a fs" and ev assume T: "?T fs ev"
    then obtain m d where m: "node_at fs ?p = Some (FileNode m d)" by blast
    have "?D fs' ev" if "\<forall>q. node_at fs' q = (if q = ?p then Some (FileNode m c) else node_at fs q)" for fs'
    proof -
      have same: "\<And>q. q \<noteq> ?p \<Longrightarrow> node_at fs' q = node_at fs q" using that by simp
      have "dirs_ok r fs'" by (rule dirs_ok_mono [of r fs]) (use T same in \<open>simp_all add: state_path_facts\<close>)
      then show ?thesis using T besideD [OF assms(3), of fs ev fs'] same same [OF tmp_path_ne [of pf]] by auto
    qed
    then show "\<exists>m d. node_at fs ?p = Some (FileNode m d) \<and>
        (\<forall>fs'. (\<forall>q. node_at fs' q = (if q = ?p then Some (FileNode m c) else node_at fs q)) \<longrightarrow>
          ?D fs' ev \<and> (\<exists>m. node_at fs' ?p = Some (FileNode m c)))"
      using m by auto
  qed (rule state_path_facts)
  have wr1: "runs (seen ?P) (sys_write ?p c) (\<lambda>_. seen ?T)" for c
    by (rule runs_weaken [OF wr]) (auto simp: seen_def intact_def holds_state_def)
  have wr2: "runs (seen ?T) (sys_write ?p json) (\<lambda>_. seen ?Q)"
    by (rule runs_weaken [OF wr]) (auto simp: seen_def intact_def holds_state_def json)
  have tail: "runs (seen ?P)
      (bindIO (sys_write ?p (pf_empty pf)) (\<lambda>_. bindIO (sys_write ?p json) (\<lambda>_. bindIO sys_nop (\<lambda>_.
       bindIO sys_nop (\<lambda>_. bindIO (ignore sys_nop) (\<lambda>_. ret (st_boot_attempts s')))))))
      (\<lambda>n. seen (\<lambda>fs ev. n = st_boot_attempts s' \<and> ?Q fs ev))"
    by (intro runs_bind [OF wr1] runs_bind [OF wr2] runs_bind [OF runs_nop]
        runs_bind [OF runs_keep_ignore_nop] runs_pure(1)) (simp add: seen_def)
  have rd: "runs (seen ?P) (sys_read ?p) (\<lambda>c. seen (\<lambda>fs ev. pf_dec pf c = Inr s \<and> ?P fs ev))"
    by (rule runs_read_file) (auto simp: intact_def holds_state_def)
  have op: "runs (seen ?P) (sys_open ?p) (\<lambda>_. seen ?P)"
    by (rule runs_open_file) (auto simp: intact_def holds_state_def is_file_node_def)
  show ?thesis
    unfolding bump_boot_attempts_def
  proof (intro runs_bind [OF op] runs_bind [OF runs_nop] runs_bind [OF rd])
    fix c
    show "runs (seen (\<lambda>fs ev. pf_dec pf c = Inr s \<and> ?P fs ev))
        (bindIO (lift (map_err (\<lambda>e. [Source e]) (pf_dec pf c))) (\<lambda>state0.
           let state = state0\<lparr>st_boot_attempts := saturating_inc (st_boot_attempts state0)\<rparr> in
           bindIO (lift (map_err (\<lambda>e. [Source e]) (pf_enc pf state))) (\<lambda>json.
           bindIO (sys_write ?p (pf_empty pf)) (\<lambda>_. bindIO (sys_write ?p json) (\<lambda>_. bindIO sys_nop (\<lambda>_.
           bindIO sys_nop (\<lambda>_. bindIO (ignore sys_nop) (\<lambda>_. ret (st_boot_attempts state)))))))))
        (\<lambda>n. seen (\<lambda>fs ev. n = st_boot_attempts s' \<and> ?Q fs ev))"
    proof (cases "pf_dec pf c = Inr s")
      case True
      then show ?thesis using tail by (simp add: Let_def json(1) [unfolded s'_def] s'_def)
    next
      case False
      then show ?thesis by (simp add: runs_def seen_def)
    qed
  qed
qed

subsection \<open>Reverting\<close>

text \<open>The paths a revert changes, and what it needs of the tree.\<close>

definition revertible :: "path \<Rightarrow> string \<Rightarrow> 'c fs \<Rightarrow> bool" where
  "revertible r prev fs =
     (node_at fs (version_dir r prev) = Some DirNode \<and> node_at fs (current_link r) \<noteq> Some DirNode
      \<and> node_at fs (current_tmp r) \<noteq> Some DirNode)"

lemma install_paths_distinct:
  "version_dir r v \<noteq> state_path r" "version_dir r v \<noteq> tmp_state_path pf (state_path r)"
  "version_dir r v \<noteq> current_link r" "version_dir r v \<noteq> current_tmp r"
  "current_link r \<noteq> state_path r" "current_link r \<noteq> tmp_state_path pf (state_path r)"
  "current_tmp r \<noteq> state_path r" "current_tmp r \<noteq> tmp_state_path pf (state_path r)"
  "take n r \<noteq> current_link r" "take n r \<noteq> current_tmp r"
proof -
  have len: "length (take n r) < Suc (length r)" by simp
  show "take n r \<noteq> current_link r" "take n r \<noteq> current_tmp r"
    using len unfolding current_link_def current_tmp_def
    by (metis length_append_singleton less_irrefl)+
qed (simp_all add: version_dir_def state_path_def tmp_state_path_def current_link_def current_tmp_def)

lemma beside_revertible: "beside pf r (\<lambda>fs ev. revertible r prev fs \<and> ev = ev0)"
  by (auto simp: beside_def framed_def revertible_def install_paths_distinct)

lemma intact_other:
  assumes "intact pf r s fs"
    and "\<And>q. q \<noteq> current_link r \<Longrightarrow> q \<noteq> current_tmp r \<Longrightarrow> node_at fs' q = node_at fs q"
  shows "intact pf r s fs'"
proof -
  have "dirs_ok r fs'"
    by (rule dirs_ok_mono [of r fs]) (use assms in \<open>simp_all add: intact_def install_paths_distinct\<close>)
  then show ?thesis
    using assms(1) assms(2) [of "state_path r"] assms(2) [of "tmp_state_path pf (state_path r)"]
      install_paths_distinct(5) [of r] install_paths_distinct(6) [of r pf]
      install_paths_distinct(7) [of r] install_paths_distinct(8) [of r pf]
    by (auto simp: intact_def holds_state_def)
qed

lemma runs_remove_any:
  assumes "\<And>fs ev. P fs ev \<Longrightarrow> node_at fs p \<noteq> Some DirNode \<and>
      (\<forall>fs'. (\<forall>q. node_at fs' q = (if q = p then None else node_at fs q)) \<longrightarrow> Q fs' ev)"
    and "p \<noteq> []"
  shows "runs (seen P) (ignore (sys_remove_file p)) (\<lambda>_. seen Q)"
  unfolding runs_def
proof (intro allI impI)
  fix w :: "'a world" assume w: "calm w" "seen P w"
  then have P: "P (w_fs w) (w_events w)" by (simp add: seen_def)
  have nf: "\<not> w_fault w (w_calls w)" using w(1) by (simp add: calm_def)
  have "(\<forall>q. node_at (w_fs (snd (sys_remove_file p w))) q = (if q = p then None else node_at (w_fs w) q))
      \<and> w_events (snd (sys_remove_file p w)) = w_events w \<and> calm (snd (sys_remove_file p w))"
  proof (cases "node_at (w_fs w) p")
    case None
    then have "sys_remove_file p w =
        (Inl [Source ''No such file or directory''], w\<lparr>w_calls := Suc (w_calls w)\<rparr>)"
      using nf by (simp add: sys_remove_file_def syscall_def Let_def)
    then show ?thesis using None w(1) by (simp add: calm_def)
  next
    case (Some n)
    moreover have "n \<noteq> DirNode" using assms(1) [OF P] Some by auto
    ultimately obtain t where "snd (sys_remove_file p w) = w\<lparr>w_calls := Suc (w_calls w),
        w_fs := touch t (butlast p) (del_node p (w_fs w)),
        w_trail := w_trail w @ [touch t (butlast p) (del_node p (w_fs w))]\<rparr>"
      using nf by (cases n) (auto simp: sys_remove_file_def syscall_def Let_def)
    then show ?thesis using w(1) assms(2) by (simp add: calm_def nodes.node_del)
  qed
  note fs' = this
  then have "seen Q (snd (sys_remove_file p w))" using assms(1) [OF P] by (simp add: seen_def)
  then show "\<exists>x w'. ignore (sys_remove_file p) w = (Inr x, w') \<and> seen Q w' \<and> calm w'"
    using fs' by (simp add: ignore_def)
qed

lemma runs_revert:
  assumes "st_previous_version s0 = Some prev"
  shows "runs (seen (\<lambda>fs ev. intact pf r s fs \<and> revertible r prev fs \<and> ev = ev0))
     (revert_to_previous r s0)
     (\<lambda>x. seen (\<lambda>fs ev. x = s0\<lparr>st_current_version := prev, st_previous_version := Some (st_current_version s0)\<rparr>
        \<and> intact pf r s fs \<and> node_at fs (current_link r) = Some (LinkNode (version_dir r prev)) \<and> ev = ev0))"
proof -
  let ?c = "current_link r" and ?t = "current_tmp r" and ?v = "version_dir r prev"
  let ?P = "\<lambda>fs ev. intact pf r s fs \<and> revertible r prev fs \<and> ev = ev0"
  let ?R = "\<lambda>fs ev. intact pf r s fs \<and> node_at fs ?c \<noteq> Some DirNode \<and> node_at fs ?t = None \<and> ev = ev0"
  let ?S = "\<lambda>fs ev. intact pf r s fs \<and> node_at fs ?c \<noteq> Some DirNode
     \<and> node_at fs ?t = Some (LinkNode ?v) \<and> ev = ev0"
  let ?Q = "\<lambda>fs ev. intact pf r s fs \<and> node_at fs ?c = Some (LinkNode ?v) \<and> ev = ev0"
  have pd: "parent_is_dir fs ?c" "parent_is_dir fs ?t" if "intact pf r s fs" for fs
    using dirs_ok_root [of r fs] that
    by (auto simp: intact_def parent_is_dir_def current_link_def current_tmp_def)
  have rm: "runs (seen ?P) (ignore (sys_remove_file ?t)) (\<lambda>_. seen ?R)"
    by (rule runs_remove_any)
      (auto simp: revertible_def link_paths_distinct link_paths_distinct [symmetric] intro: intact_other)
  have sl: "runs (seen ?R) (sys_symlink ?v ?t) (\<lambda>_. seen ?S)"
    by (rule runs_symlink) (auto simp: link_paths_distinct intro: pd intact_other)
  have rn: "runs (seen ?S) (sys_rename ?t ?c) (\<lambda>_. seen ?Q)"
  proof (rule runs_rename_file)
    fix fs :: "'a fs" and ev assume S: "?S fs ev"
    have "?Q fs' ev"
      if "\<forall>q. node_at fs' q = (if q = ?c then Some (LinkNode ?v) else if q = ?t then None else node_at fs q)" for fs'
      using that S intact_other [of pf r s fs fs'] by simp
    then show "parent_is_dir fs ?c \<and> node_at fs ?c \<noteq> Some DirNode \<and> (\<exists>n. node_at fs ?t = Some n \<and> n \<noteq> DirNode
        \<and> (\<forall>fs'. (\<forall>q. node_at fs' q = (if q = ?c then Some n else if q = ?t then None else node_at fs q))
             \<longrightarrow> ?Q fs' ev))"
      using S pd by blast
  qed (simp_all add: link_paths_distinct link_paths_distinct [symmetric])
  have dir: "runs (seen ?P) (path_is_dir ?v) (\<lambda>b. seen (\<lambda>fs ev. b \<and> ?P fs ev))"
    unfolding path_is_dir_def by (rule runs_query) (simp add: revertible_def followed_dir)
  have rest: "runs (seen (\<lambda>fs ev. b \<and> ?P fs ev))
      (bindIO (lift (bail_if (\<not> b) e)) (\<lambda>_. bindIO (ignore (sys_remove_file ?t)) (\<lambda>_.
       bindIO (sys_symlink ?v ?t) (\<lambda>_. bindIO (sys_rename ?t ?c) (\<lambda>_. ret x)))))
      (\<lambda>y. seen (\<lambda>fs ev. y = x \<and> ?Q fs ev))" for b e x
  proof (cases b)
    case True
    then show ?thesis
      by (auto intro!: runs_bind [OF rm] runs_bind [OF sl] runs_bind [OF rn] runs_pure(1) simp: seen_def)
  qed (simp add: runs_def seen_def)
  show ?thesis
    unfolding revert_to_previous_def assms ok_or_simps bindIO_lift Let_def
    by (rule runs_bind [OF dir]) (rule rest)
qed

text \<open>The version a revert goes back to: none when there is no previous version, when its directory is gone,
  or when a directory sits where a link has to be. \<open>unlinked\<close> rules out a link in the place of that
  directory, which the code would follow and no operation of it makes.\<close>

definition revert_target :: "path \<Rightarrow> install_state \<Rightarrow> 'c fs \<Rightarrow> string option" where
  "revert_target r s fs =
     (case st_previous_version s of
        None \<Rightarrow> None
      | Some prev \<Rightarrow> if revertible r prev fs then Some prev else None)"

definition unlinked :: "path \<Rightarrow> install_state \<Rightarrow> 'c fs \<Rightarrow> bool" where
  "unlinked r s fs =
     (\<forall>prev q. st_previous_version s = Some prev \<longrightarrow> node_at fs (version_dir r prev) \<noteq> Some (LinkNode q))"

lemma revert_target_simps:
  "revert_target r s fs = Some prev \<longleftrightarrow> st_previous_version s = Some prev \<and> revertible r prev fs"
  "revert_target r s fs = None \<longleftrightarrow> (\<forall>prev. st_previous_version s = Some prev \<longrightarrow> \<not> revertible r prev fs)"
  by (auto simp: revert_target_def split: option.splits)

lemma unlinked_dir:
  "unlinked r s fs \<Longrightarrow> st_previous_version s = Some v \<Longrightarrow>
     followed fs (version_dir r v) = Some DirNode \<longleftrightarrow> node_at fs (version_dir r v) = Some DirNode"
proof (cases "node_at fs (version_dir r v)")
  case (Some n)
  assume "unlinked r s fs" "st_previous_version s = Some v"
  with Some show ?thesis
    by (cases n) (auto simp: unlinked_def followed_def resolve_file resolve_dir)
qed (simp add: followed_def resolve_none)

lemma revert_fails:
  fixes pf :: "'c platform" and s s0 :: install_state and r :: path and link :: "'c node option"
    and ev0 :: "upgrade_event chan"
  defines "K \<equiv> \<lambda>fs ev. intact pf r s fs \<and> node_at fs (current_link r) = link \<and> ev = ev0"
  shows "fails (seen (\<lambda>fs ev. K fs ev \<and> revert_target r s0 fs = None \<and> unlinked r s0 fs))
     (revert_to_previous r s0) (seen K)"
proof (cases "st_previous_version s0")
  case None
  show ?thesis
    unfolding revert_to_previous_def None ok_or_simps bindIO_lift
    by (rule fails_weaken [OF fails_lift]) (auto simp: seen_def)
next
  case (Some prev)
  let ?c = "current_link r" and ?t = "current_tmp r" and ?v = "version_dir r prev"
  let ?P = "\<lambda>fs ev. K fs ev \<and> revert_target r s0 fs = None \<and> unlinked r s0 fs"
  let ?A = "\<lambda>fs ev. K fs ev \<and> node_at fs ?t = Some DirNode"
  let ?B = "\<lambda>fs ev. K fs ev \<and> node_at fs ?t \<noteq> Some DirNode \<and> node_at fs ?c = Some DirNode"
  let ?R = "\<lambda>fs ev. K fs ev \<and> node_at fs ?t = None \<and> node_at fs ?c = Some DirNode"
  let ?S = "\<lambda>fs ev. K fs ev \<and> node_at fs ?t = Some (LinkNode ?v) \<and> node_at fs ?c = Some DirNode"
  have K: "K fs' ev" if "K fs ev"
    "\<And>q. q \<noteq> ?t \<Longrightarrow> node_at fs' q = node_at fs q" for fs fs' ev
    using that intact_other [of pf r s fs fs'] by (auto simp: K_def link_paths_distinct)
  have pd: "parent_is_dir fs ?t" if "K fs ev" for fs ev
    using dirs_ok_root [of r fs] that by (auto simp: K_def intact_def parent_is_dir_def current_tmp_def)
  have rmA: "runs (seen ?A) (ignore (sys_remove_file ?t)) (\<lambda>_. seen ?A)"
    unfolding sys_remove_file_def by (rule runs_failed(2), rule fails_syscall) simp
  have slA: "fails (seen ?A) (sys_symlink ?v ?t) (seen ?A)"
    unfolding sys_symlink_def by (rule fails_syscall) simp
  have rmB: "runs (seen ?B) (ignore (sys_remove_file ?t)) (\<lambda>_. seen ?R)"
    by (rule runs_remove_any) (auto simp: link_paths_distinct intro: K)
  have slB: "runs (seen ?R) (sys_symlink ?v ?t) (\<lambda>_. seen ?S)"
    by (rule runs_symlink) (auto simp: link_paths_distinct intro: K pd)
  have rnB: "fails (seen ?S) (sys_rename ?t ?c) (seen ?S)"
    unfolding sys_rename_def by (rule fails_syscall) (simp add: link_paths_distinct)
  have links: "fails (seen (\<lambda>fs ev. ?A fs ev \<or> ?B fs ev)) (bindIO (ignore (sys_remove_file ?t)) (\<lambda>_.
      bindIO (sys_symlink ?v ?t) (\<lambda>_. bindIO (sys_rename ?t ?c) f))) (seen K)" for f :: "unit \<Rightarrow> ('x, 'c) io"
    by (rule fails_weaken [OF fails_cases [OF
          fails_weaken [OF fails_later [OF rmA fails_first [OF slA]], where Q' = "seen K"]
          fails_weaken [OF fails_later [OF rmB fails_later [OF slB fails_first [OF rnB]]], where Q' = "seen K"]]])
      (auto simp: seen_def)
  have dir: "runs (seen ?P) (path_is_dir ?v) (\<lambda>b. seen (\<lambda>fs ev. if b then ?A fs ev \<or> ?B fs ev else K fs ev))"
    unfolding path_is_dir_def
    by (rule runs_query) (auto simp: unlinked_dir [OF _ Some] Some revert_target_simps revertible_def)
  have rest: "fails (seen (\<lambda>fs ev. if b then ?A fs ev \<or> ?B fs ev else K fs ev))
      (bindIO (lift (bail_if (\<not> b) e)) (\<lambda>_. bindIO (ignore (sys_remove_file ?t)) (\<lambda>_.
       bindIO (sys_symlink ?v ?t) (\<lambda>_. bindIO (sys_rename ?t ?c) f)))) (seen K)"
    for b e and f :: "unit \<Rightarrow> ('x, 'c) io"
    using links [of f] by (cases b) (simp_all add: fails_lift)
  show ?thesis
    unfolding revert_to_previous_def Some ok_or_simps bindIO_lift Let_def
    by (rule fails_later [OF dir]) (rule rest)
qed

subsection \<open>The whole watchdog\<close>

lemma runs_exists_state:
  assumes "\<And>fs ev. P fs ev \<Longrightarrow> holds_state pf p fs s"
  shows "runs (seen P) (path_exists p) (\<lambda>b. seen (\<lambda>fs ev. b \<and> P fs ev))"
  unfolding path_exists_def
proof (rule runs_query)
  fix fs :: "'a fs" and ev assume P: "P fs ev"
  then have "followed fs p \<noteq> None" using assms [OF P] followed_file by (fastforce simp: holds_state_def)
  then show "followed fs p \<noteq> None \<and> P fs ev" using P by simp
qed

lemma runs_watchdog_entry:
  assumes "uc_enabled cfg" and "uc_install_root cfg = r"
    and "\<And>fs ev. P fs ev \<Longrightarrow> holds_state pf (state_path r) fs s"
    and "runs (seen P) (case st_status s of
                     Stable \<Rightarrow> ret (Returned WatchdogContinue)
                   | StagedManual \<Rightarrow> ret (Returned WatchdogContinue)
                   | RolledBack \<Rightarrow> rolled_back_arm pf (state_path r) s
                   | PendingHealth \<Rightarrow> pending_arm pf r (uc_max_boot_attempts cfg) s) Q"
  shows "runs (seen P) (run_boot_watchdog pf (Some cfg)) Q"
proof -
  have ld: "runs (seen P) (attempt (load_state pf (state_path r))) (\<lambda>x. seen (\<lambda>fs ev. x = Some s \<and> P fs ev))"
  proof (rule runs_attempt)
    show "runs (seen P) (load_state pf (state_path r))
        (\<lambda>x. seen (\<lambda>fs ev. x = s \<and> holds_state pf (state_path r) fs s \<and> P fs ev))"
      by (rule runs_weaken [OF runs_load [where G = P]]) (use assms(3) in \<open>auto simp: seen_def\<close>)
  qed (auto simp: seen_def)
  have arm: "runs (seen (\<lambda>fs ev. x = Some s \<and> P fs ev)) (case x of
      None \<Rightarrow> ret (Returned WatchdogContinue)
    | Some current \<Rightarrow> (case st_status current of
                     Stable \<Rightarrow> ret (Returned WatchdogContinue)
                   | StagedManual \<Rightarrow> ret (Returned WatchdogContinue)
                   | RolledBack \<Rightarrow> rolled_back_arm pf (state_path r) current
                   | PendingHealth \<Rightarrow> pending_arm pf r (uc_max_boot_attempts cfg) current)) Q" for x
  proof (cases "x = Some s")
    case True
    then show ?thesis using assms(4) by simp
  qed (simp add: runs_def seen_def)
  have go: "runs (seen (\<lambda>fs ev. b \<and> P fs ev)) (if \<not> b then ret (Returned WatchdogContinue)
      else bindIO (attempt (load_state pf (state_path r))) (\<lambda>loaded. case loaded of
      None \<Rightarrow> ret (Returned WatchdogContinue)
    | Some current \<Rightarrow> (case st_status current of
                     Stable \<Rightarrow> ret (Returned WatchdogContinue)
                   | StagedManual \<Rightarrow> ret (Returned WatchdogContinue)
                   | RolledBack \<Rightarrow> rolled_back_arm pf (state_path r) current
                   | PendingHealth \<Rightarrow> pending_arm pf r (uc_max_boot_attempts cfg) current))) Q" for b
  proof (cases b)
    case True
    then show ?thesis by (simp add: runs_bind [OF ld arm])
  qed (simp add: runs_def seen_def)
  show ?thesis
    unfolding run_boot_watchdog_def option.case Let_def assms(2)
    using assms(1) by (simp add: runs_bind [OF runs_exists_state [OF assms(3)] go])
qed

definition has_room :: "'e chan \<Rightarrow> bool" where
  "has_room c = (ch_rx_open c \<and> length (ch_items c) < ch_cap c)"

lemma runs_try_event:
  "runs (seen (\<lambda>fs ev. P fs \<and> ev = ev0)) (bindIO (try_event e) (\<lambda>_. ret x))
     (\<lambda>y. seen (\<lambda>fs ev. y = x \<and> P fs \<and> (has_room ev0 \<longrightarrow> ch_items ev = ch_items ev0 @ [e])))"
  by (auto simp: runs_def bindIO_def ret_def try_event_def seen_def has_room_def calm_def try_send_def
      split: sent.splits)

definition reverted_state :: "install_state \<Rightarrow> string \<Rightarrow> install_state" where
  "reverted_state s prev =
     s\<lparr>st_current_version := prev, st_previous_version := Some (st_current_version s), st_status := RolledBack\<rparr>"

lemma runs_try_event_first:
  "runs (seen (\<lambda>fs ev. P fs \<and> ev = ev0)) (try_event e)
     (\<lambda>_. seen (\<lambda>fs ev. P fs \<and> (has_room ev0 \<longrightarrow> ch_items ev = ch_items ev0 @ [e])))"
  by (auto simp: runs_def try_event_def seen_def has_room_def calm_def try_send_def split: sent.splits)

text \<open>The last boot, for any outcome \<open>ro\<close> of the revert: what it knows of the links afterwards is \<open>L\<close>.\<close>

lemma runs_pending_over:
  fixes s :: install_state and ro :: "install_state option"
  defines "b \<equiv> s\<lparr>st_boot_attempts := saturating_inc (st_boot_attempts s)\<rparr>"
    and "s' \<equiv> (case ro of Some t \<Rightarrow> t | None \<Rightarrow> s)\<lparr>st_status := RolledBack\<rparr>"
  assumes codec: "\<And>x. faithful_state pf x" and many: "max_attempts < saturating_inc (st_boot_attempts s)"
    and G: "beside pf r G" and L: "beside pf r (\<lambda>fs ev. L fs \<and> ev = ev0)"
    and rv: "runs (seen (\<lambda>fs ev. intact pf r b fs \<and> G fs ev)) (attempt (revert_to_previous r s))
       (\<lambda>x. seen (\<lambda>fs ev. x = ro \<and> intact pf r b fs \<and> L fs \<and> ev = ev0))"
  shows "runs (seen (\<lambda>fs ev. intact pf r s fs \<and> G fs ev)) (pending_arm pf r max_attempts s)
     (\<lambda>x. seen (\<lambda>fs ev. x = ExitProcess 1 \<and> intact pf r s' fs \<and> L fs
        \<and> (has_room ev0 \<longrightarrow> ch_items ev = ch_items ev0 @ [reverted_event s'])))"
    (is "runs _ _ ?Q")
proof -
  have sv: "runs (seen (\<lambda>fs ev. intact pf r b fs \<and> L fs \<and> ev = ev0))
      (ignore (save_state pf (state_path r) s')) (\<lambda>_. seen (\<lambda>fs ev. intact pf r s' fs \<and> L fs \<and> ev = ev0))"
    by (rule runs_ignore [OF runs_save [OF codec L]])
  have ev: "runs (seen (\<lambda>fs ev. intact pf r s' fs \<and> L fs \<and> ev = ev0))
      (bindIO (try_event (reverted_event s')) (\<lambda>_. ret (ExitProcess 1))) ?Q"
    by (rule runs_weaken [OF runs_try_event [where P = "\<lambda>fs. intact pf r s' fs \<and> L fs"]]) (auto simp: seen_def)
  have after: "runs (seen (\<lambda>fs ev. x = ro \<and> intact pf r b fs \<and> L fs \<and> ev = ev0))
      (let current' = (case x of Some s \<Rightarrow> s | None \<Rightarrow> s)\<lparr>st_status := RolledBack\<rparr> in
        bindIO (ignore (save_state pf (state_path r) current')) (\<lambda>_.
        bindIO (try_event (reverted_event current')) (\<lambda>_. ret (ExitProcess 1)))) ?Q" for x
  proof (cases "x = ro")
    case True
    then show ?thesis using runs_bind [OF sv ev] by (simp add: s'_def Let_def)
  qed (simp add: runs_def seen_def)
  have go: "runs (seen (\<lambda>fs ev. n = st_boot_attempts b \<and> intact pf r b fs \<and> G fs ev))
      (if n > max_attempts then
        bindIO (attempt (revert_to_previous r s)) (\<lambda>reverted.
        let current' = (case reverted of Some s \<Rightarrow> s | None \<Rightarrow> s)\<lparr>st_status := RolledBack\<rparr> in
        bindIO (ignore (save_state pf (state_path r) current')) (\<lambda>_.
        bindIO (try_event (reverted_event current')) (\<lambda>_.
        ret (ExitProcess 1))))
       else ret (Returned (WatchdogPendingHealth n))) ?Q" for n
  proof (cases "n = st_boot_attempts b")
    case True
    then have many': "(n > max_attempts) = True" using many by (simp add: b_def)
    show ?thesis
      unfolding many' if_True by (rule runs_weaken [OF runs_bind [OF rv after]]) (auto simp: seen_def)
  qed (simp add: runs_def seen_def)
  show ?thesis
    unfolding pending_arm_def Let_def
    by (rule runs_bind [OF runs_bump [OF codec G]]) (rule go [unfolded b_def Let_def])
qed

lemma runs_pending_rollback:
  assumes codec: "\<And>x. faithful_state pf x" and prev: "st_previous_version s = Some prev"
    and many: "max_attempts < saturating_inc (st_boot_attempts s)"
  shows "runs (seen (\<lambda>fs ev. intact pf r s fs \<and> revertible r prev fs \<and> ev = ev0))
     (pending_arm pf r max_attempts s)
     (\<lambda>x. seen (\<lambda>fs ev. x = ExitProcess 1 \<and> intact pf r (reverted_state s prev) fs
        \<and> node_at fs (current_link r) = Some (LinkNode (version_dir r prev))
        \<and> (has_room ev0 \<longrightarrow> ch_items ev = ch_items ev0 @ [reverted_event (reverted_state s prev)])))"
proof -
  let ?L = "\<lambda>fs. node_at fs (current_link r) = Some (LinkNode (version_dir r prev))"
  let ?rev = "s\<lparr>st_current_version := prev, st_previous_version := Some (st_current_version s)\<rparr>"
  have L: "beside pf r (\<lambda>fs ev. ?L fs \<and> ev = ev0)"
    by (auto simp: beside_def framed_def install_paths_distinct)
  have rv: "runs (seen (\<lambda>fs ev. intact pf r b fs \<and> revertible r prev fs \<and> ev = ev0))
      (attempt (revert_to_previous r s))
      (\<lambda>x. seen (\<lambda>fs ev. x = Some ?rev \<and> intact pf r b fs \<and> ?L fs \<and> ev = ev0))" for b
    by (rule runs_attempt [OF runs_revert [OF prev]]) (simp add: seen_def)
  have "(case Some ?rev of Some t \<Rightarrow> t | None \<Rightarrow> s)\<lparr>st_status := RolledBack\<rparr> = reverted_state s prev"
    by (simp add: reverted_state_def)
  then show ?thesis using runs_pending_over [OF codec many beside_revertible L rv] by simp
qed

text \<open>When the revert has nowhere to go, the link stays and the state says rolled back all the same.\<close>

lemma runs_pending_stuck:
  assumes codec: "\<And>x. faithful_state pf x" and many: "max_attempts < saturating_inc (st_boot_attempts s)"
  shows "runs (seen (\<lambda>fs ev. intact pf r s fs \<and> node_at fs (current_link r) = link \<and> ev = ev0
        \<and> revert_target r s fs = None \<and> unlinked r s fs))
     (pending_arm pf r max_attempts s)
     (\<lambda>x. seen (\<lambda>fs ev. x = ExitProcess 1 \<and> intact pf r (s\<lparr>st_status := RolledBack\<rparr>) fs
        \<and> node_at fs (current_link r) = link
        \<and> (has_room ev0 \<longrightarrow> ch_items ev = ch_items ev0 @ [reverted_event (s\<lparr>st_status := RolledBack\<rparr>)])))"
proof -
  let ?L = "\<lambda>fs. node_at fs (current_link r) = link"
  let ?G = "\<lambda>fs ev. ?L fs \<and> ev = ev0 \<and> revert_target r s fs = None \<and> unlinked r s fs"
  have L: "beside pf r (\<lambda>fs ev. ?L fs \<and> ev = ev0)"
    by (auto simp: beside_def framed_def install_paths_distinct)
  have G: "beside pf r ?G"
    by (auto simp: beside_def framed_def install_paths_distinct revert_target_simps revertible_def unlinked_def)
  have rv: "runs (seen (\<lambda>fs ev. intact pf r b fs \<and> ?G fs ev)) (attempt (revert_to_previous r s))
      (\<lambda>x. seen (\<lambda>fs ev. x = None \<and> intact pf r b fs \<and> ?L fs \<and> ev = ev0))" for b
    by (rule runs_weaken [OF runs_failed(1) [OF revert_fails [of pf r b link ev0 s]]])
      (auto simp: seen_def)
  show ?thesis
    by (rule runs_weaken [OF runs_pending_over [OF codec many G L rv]]) auto
qed

text \<open>Below the maximum the boot is counted and nothing else happens.\<close>

lemma runs_pending_counts:
  fixes s :: install_state
  defines "n \<equiv> saturating_inc (st_boot_attempts s)"
  assumes "\<And>x. faithful_state pf x" and "\<not> max_attempts < n" and "beside pf r G"
  shows "runs (seen (\<lambda>fs ev. intact pf r s fs \<and> G fs ev)) (pending_arm pf r max_attempts s)
     (\<lambda>x. seen (\<lambda>fs ev. x = Returned (WatchdogPendingHealth n)
        \<and> intact pf r (s\<lparr>st_boot_attempts := n\<rparr>) fs \<and> G fs ev))"
  unfolding pending_arm_def Let_def
proof (rule runs_bind [OF runs_bump [OF assms(2,4)]])
  fix k
  let ?b = "s\<lparr>st_boot_attempts := saturating_inc (st_boot_attempts s)\<rparr>"
  show "runs (seen (\<lambda>fs ev. k = st_boot_attempts ?b \<and> intact pf r ?b fs \<and> G fs ev))
     (if k > max_attempts then m else ret (Returned (WatchdogPendingHealth k)))
     (\<lambda>x. seen (\<lambda>fs ev. x = Returned (WatchdogPendingHealth n)
        \<and> intact pf r (s\<lparr>st_boot_attempts := n\<rparr>) fs \<and> G fs ev))" for m :: "(watchdog_end, 'a) io"
  proof (cases "k = n")
    case True
    then show ?thesis using assms(3) by (auto intro!: runs_pure(1) simp: seen_def n_def)
  qed (simp add: runs_def seen_def n_def)
qed

lemma runs_rolled_back_arm:
  fixes s :: install_state
  assumes codec: "\<And>x. faithful_state pf x"
    and L: "beside pf r (\<lambda>fs ev. L fs)"
  defines "from \<equiv> (case st_previous_version s of Some v \<Rightarrow> v | None \<Rightarrow> unknown_version)"
  shows "runs (seen (\<lambda>fs ev. intact pf r s fs \<and> L fs \<and> ev = ev0)) (rolled_back_arm pf (state_path r) s)
     (\<lambda>x. seen (\<lambda>fs ev. x = Returned (WatchdogRolledBack from (st_current_version s))
        \<and> intact pf r (s\<lparr>st_status := Stable, st_boot_attempts := 0\<rparr>) fs \<and> L fs
        \<and> (has_room ev0 \<longrightarrow> ch_items ev = ch_items ev0 @ [rolled_back_event from (st_current_version s)])))"
proof -
  let ?s' = "s\<lparr>st_status := Stable, st_boot_attempts := 0\<rparr>"
  let ?G = "\<lambda>fs ev. L fs \<and> (has_room ev0 \<longrightarrow> ch_items ev = ch_items ev0 @ [rolled_back_event from (st_current_version s)])"
  have G: "beside pf r ?G" using L unfolding beside_def framed_def by blast
  have ev: "runs (seen (\<lambda>fs ev. intact pf r s fs \<and> L fs \<and> ev = ev0))
      (try_event (rolled_back_event from (st_current_version s))) (\<lambda>_. seen (\<lambda>fs ev. intact pf r s fs \<and> ?G fs ev))"
    by (rule runs_weaken [OF runs_try_event_first [where P = "\<lambda>fs. intact pf r s fs \<and> L fs"]]) (auto simp: seen_def)
  have sv: "runs (seen (\<lambda>fs ev. intact pf r s fs \<and> ?G fs ev)) (ignore (save_state pf (state_path r) ?s'))
      (\<lambda>_. seen (\<lambda>fs ev. intact pf r ?s' fs \<and> ?G fs ev))"
    by (rule runs_ignore [OF runs_save [OF codec G]])
  show ?thesis
    unfolding rolled_back_arm_def Let_def from_def [symmetric]
    by (rule runs_bind [OF ev runs_bind [OF sv runs_pure(1)]]) (simp add: seen_def)
qed

subsection \<open>Decisions without assuming that calls succeed\<close>

lemma attempt_total: "\<exists>l w'. attempt m w = (Inr l, w')"
proof -
  obtain r w' where m: "m w = (r, w')" by fastforce
  then show ?thesis by (cases r) (auto simp: attempt_def)
qed

lemma attempt_Some: "attempt m w = (Inr (Some x), w') \<Longrightarrow> m w = (Inr x, w')"
  by (auto simp: attempt_def split: prod.splits sum.splits)

lemma load_ok:
  assumes "load_state pf p w = (Inr s', w')" and "holds_state pf p (w_fs w) s"
  shows "s' = s \<and> w_fs w' = w_fs w"
proof -
  obtain m c where c: "node_at (w_fs w) p = Some (FileNode m c)" "pf_dec pf c = Inr s"
    using assms(2) by (auto simp: holds_state_def)
  obtain w1 w2 w3 buf u where 1: "sys_open p w = (Inr u, w1)" and 2: "sys_nop w1 = (Inr u, w2)"
    and 3: "sys_read p w2 = (Inr buf, w3)" and 4: "pf_dec pf buf = Inr s'" and 5: "w' = snd (sys_nop w3)"
    using assms(1) unfolding load_state_def
    by (auto simp: bindIO_ok pure_ok with_source_def result_simps)
  then show ?thesis using open_ok [OF 1] nop_ok [OF 2] read_ok [OF 3] c by (auto simp: snd_nop)
qed

text \<open>Programs that leave the clock and the events alone.\<close>

definition quiet :: "('a, 'c) io \<Rightarrow> bool" where
  "quiet m = (\<forall>w. w_time (snd (m w)) = w_time w \<and> w_events (snd (m w)) = w_events w)"

lemma quiet_syscall: "quiet (syscall f)"
  by (auto simp: quiet_def syscall_def Let_def split: sum.split)

lemma quiet_calls [intro]:
  "quiet sys_nop" "quiet (sys_open p)" "quiet (sys_read p)" "quiet (sys_create_new p c)"
  "quiet (sys_open_create p c)" "quiet (sys_write p c)" "quiet (sys_create_dir_all p)"
  "quiet (sys_rename p q)"
  unfolding sys_nop_def sys_open_def sys_read_def sys_create_new_def sys_open_create_def sys_write_def
    sys_create_dir_all_def sys_rename_def by (rule quiet_syscall)+

lemma quiet_bind [intro]: "quiet m \<Longrightarrow> (\<And>x. quiet (f x)) \<Longrightarrow> quiet (bindIO m f)"
  unfolding quiet_def bindIO_def by (auto split: prod.splits sum.splits) (metis snd_conv)+

lemma quiet_rest [intro]:
  "quiet (lift r)" "quiet (ret x)" "quiet m \<Longrightarrow> quiet (ctx c m)" "quiet m \<Longrightarrow> quiet (ignore m)"
  "quiet m \<Longrightarrow> quiet (attempt m)"
  by (auto simp: quiet_def lift_def ret_def ctx_def ignore_def attempt_def split: prod.splits sum.splits)
    (metis snd_conv)+

lemma quiet_load: "quiet (load_state pf p)"
  unfolding load_state_def by (intro quiet_bind quiet_rest quiet_calls)

lemma quiet_save: "quiet (save_state pf p s)"
  unfolding save_state_def Let_def by (auto intro!: quiet_bind quiet_rest quiet_calls)

lemma quiet_update: "quiet (update_state pf p f)"
  unfolding update_state_def by (intro quiet_bind quiet_load quiet_save)

text \<open>An install for the concrete runs: \<open>1.1.0\<close> waits for health and has been booted three times.\<close>

definition sample_config :: upgrade_config where
  "sample_config = upgrade_config_default\<lparr>uc_enabled := True, uc_install_root := [''r'']\<rparr>"

definition sample_fs :: "bool \<Rightarrow> install_state option fs" where
  "sample_fs with_previous =
     [([''r''], 0, DirNode),
      (state_path [''r''], 0, FileNode 420 (Some (sample_state\<lparr>st_boot_attempts := 3\<rparr>))),
      ([''r'', ''versions''], 0, DirNode),
      ([''r'', ''versions'', ''1.1.0''], 0, DirNode),
      ([''r'', ''current''], 0, LinkNode [''r'', ''versions'', ''1.1.0''])]
     @ (if with_previous then [([''r'', ''versions'', ''1.0.0''], 0, DirNode)] else [])"

lemma sample_intact:
  "intact (plain_platform 1) [''r''] (sample_state\<lparr>st_boot_attempts := 3\<rparr>) (w_fs (calm_world (sample_fs b)))"
proof -
  have "tmp_state_path (plain_platform 1) (state_path [''r'']) = [''r'', ''state.json.tmp.1'']"
    by (simp add: tmp_state_path_def state_path_def plain_platform_def show_nat.simps digit_char_def)
  moreover have "node_at (sample_fs b) (take n [''r'']) = Some DirNode" for n
    by (cases n) (simp_all add: node_at_def sample_fs_def state_path_def)
  ultimately show ?thesis
    by (simp add: intact_def calm_world_def holds_state_def dirs_ok_def node_at_def sample_fs_def
        state_path_def plain_platform_def)
qed

lemma sample_calm: "calm (calm_world fs)"
  by (simp add: calm_def calm_world_def)

subsection \<open>What a boot has to do\<close>

text \<open>The contract of a boot, as a function of the stored state and the tree: how the watchdog ends, the state
  stored afterwards, where the link \<open>current\<close> is moved to, if anywhere, and the events reported.\<close>

definition boot_contract ::
  "u32 \<Rightarrow> path \<Rightarrow> install_state \<Rightarrow> 'c fs \<Rightarrow> watchdog_end \<times> install_state \<times> path option \<times> upgrade_event list" where
  "boot_contract max_boot_attempts r s fs =
     (case st_status s of
        Stable \<Rightarrow> (Returned WatchdogContinue, s, None, [])
      | StagedManual \<Rightarrow> (Returned WatchdogContinue, s, None, [])
      | RolledBack \<Rightarrow>
          (let from = (case st_previous_version s of Some v \<Rightarrow> v | None \<Rightarrow> unknown_version) in
           (Returned (WatchdogRolledBack from (st_current_version s)),
            s\<lparr>st_status := Stable, st_boot_attempts := 0\<rparr>, None,
            [rolled_back_event from (st_current_version s)]))
      | PendingHealth \<Rightarrow>
          (let n = saturating_inc (st_boot_attempts s) in
           if n \<le> max_boot_attempts
           then (Returned (WatchdogPendingHealth n), s\<lparr>st_boot_attempts := n\<rparr>, None, [])
           else (case revert_target r s fs of
               Some prev \<Rightarrow> (ExitProcess 1, reverted_state s prev, Some (version_dir r prev),
                 [reverted_event (reverted_state s prev)])
             | None \<Rightarrow> (ExitProcess 1, s\<lparr>st_status := RolledBack\<rparr>, None,
                 [reverted_event (s\<lparr>st_status := RolledBack\<rparr>)]))))"

definition boot_done ::
  "'c platform \<Rightarrow> path \<Rightarrow> 'c node option \<Rightarrow> upgrade_event chan \<Rightarrow>
     install_state \<times> path option \<times> upgrade_event list \<Rightarrow> 'c fs \<Rightarrow> upgrade_event chan \<Rightarrow> bool" where
  "boot_done pf r link ev0 c fs ev = (case c of (t, moved, es) \<Rightarrow>
     intact pf r t fs
     \<and> node_at fs (current_link r) = (case moved of Some q \<Rightarrow> Some (LinkNode q) | None \<Rightarrow> link)
     \<and> (has_room ev0 \<longrightarrow> ch_items ev = ch_items ev0 @ es))"

lemma runs_boot:
  fixes pf :: "'c platform"
  assumes codec: "\<And>x. faithful_state pf x" and cfg: "uc_enabled cfg" "uc_install_root cfg = r"
    and contract: "boot_contract (uc_max_boot_attempts cfg) r s fs0 = (x, c)"
  shows "runs (seen (\<lambda>fs ev. intact pf r s fs \<and> unlinked r s fs \<and> fs = fs0 \<and> ev = ev0))
     (run_boot_watchdog pf (Some cfg))
     (\<lambda>y. seen (\<lambda>fs ev. y = x \<and> boot_done pf r (node_at fs0 (current_link r)) ev0 c fs ev))"
    (is "runs (seen ?P) _ (\<lambda>y. seen (?Q y))")
proof (rule runs_watchdog_entry [OF cfg])
  let ?max = "uc_max_boot_attempts cfg" and ?link = "node_at fs0 (current_link r)"
  let ?n = "saturating_inc (st_boot_attempts s)"
  have B: "beside pf r (\<lambda>fs ev. node_at fs (current_link r) = ?link \<and> ev = ev0)"
    "beside pf r (\<lambda>fs ev. node_at fs (current_link r) = ?link)"
    by (auto simp: beside_def framed_def install_paths_distinct)
  have pending: "runs (seen ?P) (pending_arm pf r ?max s) (\<lambda>y. seen (?Q y))" if "st_status s = PendingHealth"
  proof (cases "?n \<le> ?max")
    case True
    then show ?thesis
      using contract that
      by (intro runs_weaken [OF runs_pending_counts [OF codec _ B(1)]])
        (auto simp: seen_def boot_contract_def boot_done_def Let_def)
  next
    case False
    then have many: "?max < ?n" by simp
    show ?thesis
    proof (cases "revert_target r s fs0")
      case None
      then show ?thesis
        using contract that False
        by (intro runs_weaken [OF runs_pending_stuck [OF codec many, where link = ?link and ?ev0.0 = ev0]])
          (auto simp: seen_def boot_contract_def boot_done_def Let_def)
    next
      case (Some prev)
      then have prev: "st_previous_version s = Some prev" "revertible r prev fs0"
        by (simp_all add: revert_target_simps)
      show ?thesis
        using contract that False Some prev(2)
        by (intro runs_weaken [OF runs_pending_rollback [OF codec prev(1) many, where ?ev0.0 = ev0]])
          (auto simp: seen_def boot_contract_def boot_done_def Let_def)
    qed
  qed
  have rolled: "runs (seen ?P) (rolled_back_arm pf (state_path r) s) (\<lambda>y. seen (?Q y))" if "st_status s = RolledBack"
    using contract that
    by (intro runs_weaken [OF runs_rolled_back_arm [OF codec B(2), where ?ev0.0 = ev0]])
      (auto simp: seen_def boot_contract_def boot_done_def Let_def)
  show "runs (seen ?P) (case st_status s of
                     Stable \<Rightarrow> ret (Returned WatchdogContinue)
                   | StagedManual \<Rightarrow> ret (Returned WatchdogContinue)
                   | RolledBack \<Rightarrow> rolled_back_arm pf (state_path r) s
                   | PendingHealth \<Rightarrow> pending_arm pf r ?max s) (\<lambda>y. seen (?Q y))"
  proof (cases "st_status s")
    case Stable
    then show ?thesis using contract by (auto intro!: runs_pure(1) simp: seen_def boot_contract_def boot_done_def)
  next
    case StagedManual
    then show ?thesis using contract by (auto intro!: runs_pure(1) simp: seen_def boot_contract_def boot_done_def)
  qed (simp_all add: pending rolled)
qed (simp add: intact_def)

text \<open>How it ends when calls fail: only a state that cannot be read makes it carry on unasked.\<close>

lemma boot_by_status:
  assumes "holds_state pf (state_path r) (w_fs w) s"
    and "(case st_status s of
            Stable \<Rightarrow> ret (Returned WatchdogContinue)
          | StagedManual \<Rightarrow> ret (Returned WatchdogContinue)
          | RolledBack \<Rightarrow> rolled_back_arm pf (state_path r) s
          | PendingHealth \<Rightarrow> pending_arm pf r max_attempts s) w = (Inr x, w')"
  shows "x = fst (boot_contract max_attempts r s fs)"
proof (cases "st_status s")
  case PendingHealth
  then obtain n w1 where n: "bump_boot_attempts pf (state_path r) w = (Inr n, w1)"
    and x: "x = ExitProcess 1 \<and> n > max_attempts \<or> x = Returned (WatchdogPendingHealth n) \<and> \<not> n > max_attempts"
    using assms(2) by (auto simp: pending_arm_def Let_def bindIO_ok pure_ok split: if_splits)
  have "n = saturating_inc (st_boot_attempts s)" by (rule bump_ok(1) [OF assms(1) n])
  then show ?thesis using x PendingHealth by (auto simp: boot_contract_def Let_def split: option.split)
qed (use assms(2) in \<open>auto simp: ret_def rolled_back_arm_def boot_contract_def Let_def bindIO_ok\<close>)

lemma boot_outcome:
  assumes "uc_enabled cfg" and "holds_state pf (state_path (uc_install_root cfg)) (w_fs w) s"
    and "run_boot_watchdog pf (Some cfg) w = (Inr x, w')"
  shows "x = (if fst (try_load_state pf (uc_install_root cfg) w) = Inr None then Returned WatchdogContinue
              else fst (boot_contract (uc_max_boot_attempts cfg) (uc_install_root cfg) s fs))"
proof -
  let ?r = "uc_install_root cfg"
  obtain b w1 where ex: "path_exists (state_path ?r) w = (Inr b, w1)" "w_fs w1 = w_fs w"
    by (simp add: path_exists_def query_def)
  note defs = run_boot_watchdog_def try_load_state_def Let_def bindIO_def
  show ?thesis
  proof (cases b)
    case False
    then show ?thesis using assms(1,3) ex by (simp add: defs ret_def)
  next
    case True
    obtain l w2 where l: "attempt (load_state pf (state_path ?r)) w1 = (Inr l, w2)"
      using attempt_total by blast
    show ?thesis
    proof (cases l)
      case None
      then show ?thesis using assms(1,3) ex True l by (simp add: defs ret_def)
    next
      case (Some s')
      then have "load_state pf (state_path ?r) w1 = (Inr s', w2)"
        using l attempt_Some by simp
      then have s': "s' = s" "w_fs w2 = w_fs w"
        using load_ok [of pf "state_path ?r" w1 s' w2 s] assms(2) ex(2) by auto
      have run: "(case st_status s of
                     Stable \<Rightarrow> ret (Returned WatchdogContinue)
                   | StagedManual \<Rightarrow> ret (Returned WatchdogContinue)
                   | RolledBack \<Rightarrow> rolled_back_arm pf (state_path ?r) s
                   | PendingHealth \<Rightarrow> pending_arm pf ?r (uc_max_boot_attempts cfg) s) w2 = (Inr x, w')"
        using assms(1,3) ex True l Some s' by (simp add: run_boot_watchdog_def Let_def bindIO_def)
      moreover have "fst (try_load_state pf ?r w) \<noteq> Inr None"
        using ex True l Some by (simp add: defs)
      ultimately show ?thesis using boot_by_status [of pf ?r w2 s _ x w' fs] assms(2) s'(2) by simp
    qed
  qed
qed

subsection \<open>Properties\<close>

text \<open>C26: what a boot does for each stored status, to the letter. When no call fails and the install is
  intact, it returns, and for \<open>Stable\<close> and \<open>StagedManual\<close> it carries on with everything as it was; for
  \<open>RolledBack\<close> it reports the rollback, stores \<open>Stable\<close> with the boots at zero and leaves the link alone;
  for \<open>PendingHealth\<close> it stores the boot as counted and goes on, and past the configured maximum it
  leaves the process, having moved the link back and stored the reverted state if there is a version to
  go back to, and having stored \<open>RolledBack\<close> with the link as it was if there is none. When calls may
  fail, a boot that does not end in an error ends in the way just described, except that it carries on
  when the state could not be read: so it never carries on past the maximum with a state it has read.\<close>

theorem watchdog_decides_by_status:
  assumes "\<forall>x. faithful_state pf x" and "calm w" and "uc_enabled cfg" and "uc_install_root cfg = r"
    and "intact pf r s (w_fs w)" and "unlinked r s (w_fs w)"
    and "boot_contract (uc_max_boot_attempts cfg) r s (w_fs w) = (x, t, moved, es)"
  shows "(\<exists>w'. run_boot_watchdog pf (Some cfg) w = (Inr x, w') \<and> intact pf r t (w_fs w')
       \<and> node_at (w_fs w') (current_link r)
           = (case moved of Some q \<Rightarrow> Some (LinkNode q) | None \<Rightarrow> node_at (w_fs w) (current_link r))
       \<and> (has_room (w_events w) \<longrightarrow> ch_items (w_events w') = ch_items (w_events w) @ es))
     \<and> (\<forall>v v' y. holds_state pf (state_path r) (w_fs v) s \<longrightarrow> run_boot_watchdog pf (Some cfg) v = (Inr y, v') \<longrightarrow>
          y = (if fst (try_load_state pf r v) = Inr None then Returned WatchdogContinue else x))"
proof (intro conjI allI impI)
  have "runs (seen (\<lambda>fs ev. intact pf r s fs \<and> unlinked r s fs \<and> fs = w_fs w \<and> ev = w_events w))
      (run_boot_watchdog pf (Some cfg))
      (\<lambda>y. seen (\<lambda>fs ev. y = x \<and> boot_done pf r (node_at (w_fs w) (current_link r)) (w_events w) (t, moved, es) fs ev))"
    by (rule runs_boot) (use assms in auto)
  from runsD [OF this assms(2)] assms(5,6)
  show "\<exists>w'. run_boot_watchdog pf (Some cfg) w = (Inr x, w') \<and> intact pf r t (w_fs w')
       \<and> node_at (w_fs w') (current_link r)
           = (case moved of Some q \<Rightarrow> Some (LinkNode q) | None \<Rightarrow> node_at (w_fs w) (current_link r))
       \<and> (has_room (w_events w) \<longrightarrow> ch_items (w_events w') = ch_items (w_events w) @ es)"
    by (auto simp: seen_def boot_done_def)
next
  fix v v' y assume "holds_state pf (state_path r) (w_fs v) s" "run_boot_watchdog pf (Some cfg) v = (Inr y, v')"
  then show "y = (if fst (try_load_state pf r v) = Inr None then Returned WatchdogContinue else x)"
    using boot_outcome [OF assms(3), of pf v s y v' "w_fs w"] assms(4,7) by simp
qed

theorem watchdog_decides_by_status_witness:
  "\<exists>w'. run_boot_watchdog (plain_platform 1) (Some (sample_config\<lparr>uc_max_boot_attempts := 4\<rparr>))
          (calm_world (sample_fs True)) = (Inr (Returned (WatchdogPendingHealth 4)), w')
     \<and> intact (plain_platform 1) [''r''] (sample_state\<lparr>st_boot_attempts := 4\<rparr>) (w_fs w')
     \<and> node_at (w_fs w') (current_link [''r'']) = Some (LinkNode (version_dir [''r''] ''1.1.0''))"
proof -
  let ?w = "calm_world (sample_fs True)" and ?s = "sample_state\<lparr>st_boot_attempts := 3\<rparr>"
  let ?cfg = "sample_config\<lparr>uc_max_boot_attempts := 4\<rparr>"
  have cfg: "uc_enabled ?cfg" "uc_install_root ?cfg = [''r'']"
    by (simp_all add: sample_config_def upgrade_config_default_def)
  have "unlinked [''r''] ?s (w_fs ?w)"
    by (simp add: unlinked_def sample_state_def calm_world_def sample_fs_def node_at_def version_dir_def state_path_def)
  moreover have "boot_contract (uc_max_boot_attempts ?cfg) [''r''] ?s (w_fs ?w)
      = (Returned (WatchdogPendingHealth 4), sample_state\<lparr>st_boot_attempts := 4\<rparr>, None, [])"
    by (simp add: boot_contract_def sample_state_def saturating_inc_def)
  moreover have "node_at (w_fs ?w) (current_link [''r'']) = Some (LinkNode (version_dir [''r''] ''1.1.0''))"
    by (simp add: calm_world_def sample_fs_def node_at_def version_dir_def current_link_def state_path_def)
  ultimately show ?thesis
    using watchdog_decides_by_status [OF allI [OF plain_faithful] sample_calm cfg sample_intact] by fastforce
qed

text \<open>C4: a version that was booted too often is rolled back. When no call fails and the install is intact,
  the boot after the last allowed one points \<open>current\<close> at the previous version, stores that version as
  the current one with the failed one as previous and the status \<open>RolledBack\<close>, and leaves the process.
  The event it queues names the two versions the wrong way round: from the good one to the failed one.\<close>

theorem rollback_after_too_many_boots:
  assumes "\<forall>x. faithful_state pf x" and "calm w" and "uc_enabled cfg" and "uc_install_root cfg = r"
    and "intact pf r s (w_fs w)" and "revertible r prev (w_fs w)"
    and "st_status s = PendingHealth" and "st_previous_version s = Some prev"
    and "uc_max_boot_attempts cfg < saturating_inc (st_boot_attempts s)" and "has_room (w_events w)"
  shows "\<exists>w' e. run_boot_watchdog pf (Some cfg) w = (Inr (ExitProcess 1), w')
     \<and> node_at (w_fs w') (current_link r) = Some (LinkNode (version_dir r prev))
     \<and> holds_state pf (state_path r) (w_fs w') (reverted_state s prev)
     \<and> ch_items (w_events w') = ch_items (w_events w) @ [e]
     \<and> ue_from_version e = Some prev \<and> ue_to_version e = Some (st_current_version s)"
proof -
  let ?P = "\<lambda>fs ev. intact pf r s fs \<and> revertible r prev fs \<and> ev = w_events w"
  have arm: "runs (seen ?P) (pending_arm pf r (uc_max_boot_attempts cfg) s)
     (\<lambda>x. seen (\<lambda>fs ev. x = ExitProcess 1 \<and> intact pf r (reverted_state s prev) fs
        \<and> node_at fs (current_link r) = Some (LinkNode (version_dir r prev))
        \<and> (has_room (w_events w) \<longrightarrow>
             ch_items ev = ch_items (w_events w) @ [reverted_event (reverted_state s prev)])))"
    by (rule runs_pending_rollback) (use assms in auto)
  have "runs (seen ?P) (run_boot_watchdog pf (Some cfg))
     (\<lambda>x. seen (\<lambda>fs ev. x = ExitProcess 1 \<and> intact pf r (reverted_state s prev) fs
        \<and> node_at fs (current_link r) = Some (LinkNode (version_dir r prev))
        \<and> (has_room (w_events w) \<longrightarrow>
             ch_items ev = ch_items (w_events w) @ [reverted_event (reverted_state s prev)])))"
    by (rule runs_watchdog_entry [OF assms(3,4), of _ pf s]) (use arm assms(7) in \<open>auto simp: intact_def\<close>)
  from runsD [OF this assms(2)] assms(5,6,10) show ?thesis
    by (fastforce simp: seen_def intact_def reverted_event_def reverted_state_def)
qed

theorem rollback_after_too_many_boots_witness:
  "\<exists>w'. run_boot_watchdog (plain_platform 1) (Some sample_config) (calm_world (sample_fs True))
        = (Inr (ExitProcess 1), w')
     \<and> node_at (w_fs w') (current_link [''r'']) = Some (LinkNode (version_dir [''r''] ''1.0.0''))"
proof -
  have "\<exists>w' e. run_boot_watchdog (plain_platform 1) (Some sample_config) (calm_world (sample_fs True))
        = (Inr (ExitProcess 1), w')
     \<and> node_at (w_fs w') (current_link [''r'']) = Some (LinkNode (version_dir [''r''] ''1.0.0''))
     \<and> holds_state (plain_platform 1) (state_path [''r'']) (w_fs w')
         (reverted_state (sample_state\<lparr>st_boot_attempts := 3\<rparr>) ''1.0.0'')
     \<and> ch_items (w_events w') = ch_items (w_events (calm_world (sample_fs True))) @ [e]
     \<and> ue_from_version e = Some ''1.0.0''
     \<and> ue_to_version e = Some (st_current_version (sample_state\<lparr>st_boot_attempts := 3\<rparr>))"
    by (rule rollback_after_too_many_boots [OF _ sample_calm _ _ sample_intact])
      (simp_all add: sample_config_def upgrade_config_default_def revertible_def calm_world_def sample_fs_def
        node_at_def version_dir_def current_link_def current_tmp_def state_path_def sample_state_def
        saturating_inc_def has_room_def chan_new_def)
  then show ?thesis by blast
qed

text \<open>C34: a rollback that did not happen is reported as one. When the previous version is no longer there,
  the boot leaves \<open>current\<close> as it was and still stores \<open>RolledBack\<close> with the failed version as current;
  the next boot then reports a rollback to that version and declares it \<open>Stable\<close>, so it is never
  watched again.\<close>

theorem failed_revert_is_reported_as_rollback:
  assumes "\<forall>x. faithful_state pf x" and "calm w" and "uc_enabled cfg" and "uc_install_root cfg = r"
    and "intact pf r s (w_fs w)" and "node_at (w_fs w) (version_dir r prev) = None"
    and "st_status s = PendingHealth" and "st_previous_version s = Some prev"
    and "uc_max_boot_attempts cfg < saturating_inc (st_boot_attempts s)"
  shows "\<exists>w' w''. run_boot_watchdog pf (Some cfg) w = (Inr (ExitProcess 1), w')
     \<and> node_at (w_fs w') (current_link r) = node_at (w_fs w) (current_link r)
     \<and> run_boot_watchdog pf (Some cfg) w'
         = (Inr (Returned (WatchdogRolledBack prev (st_current_version s))), w'')
     \<and> holds_state pf (state_path r) (w_fs w'') (s\<lparr>st_status := Stable, st_boot_attempts := 0\<rparr>)"
proof -
  let ?link = "node_at (w_fs w) (current_link r)" and ?s' = "s\<lparr>st_status := RolledBack\<rparr>"
  let ?P = "\<lambda>fs ev. intact pf r s fs \<and> node_at fs (current_link r) = ?link \<and> ev = w_events w
     \<and> revert_target r s fs = None \<and> unlinked r s fs"
  have gone: "revert_target r s (w_fs w) = None \<and> unlinked r s (w_fs w)"
    using assms(6,8) by (simp add: revert_target_simps revertible_def unlinked_def)
  have arm: "runs (seen ?P) (pending_arm pf r (uc_max_boot_attempts cfg) s)
      (\<lambda>x. seen (\<lambda>fs ev. x = ExitProcess 1 \<and> intact pf r ?s' fs \<and> node_at fs (current_link r) = ?link))"
    by (rule runs_weaken [OF runs_pending_stuck]) (use assms in \<open>auto simp: seen_def\<close>)
  have "runs (seen ?P) (run_boot_watchdog pf (Some cfg))
      (\<lambda>x. seen (\<lambda>fs ev. x = ExitProcess 1 \<and> intact pf r ?s' fs \<and> node_at fs (current_link r) = ?link))"
    by (rule runs_watchdog_entry [OF assms(3,4), of _ pf s]) (use arm assms(7) in \<open>auto simp: intact_def\<close>)
  from runsD [OF this assms(2)] assms(5) gone obtain w' where
    w': "run_boot_watchdog pf (Some cfg) w = (Inr (ExitProcess 1), w')" "intact pf r ?s' (w_fs w')"
      "node_at (w_fs w') (current_link r) = ?link" "calm w'"
    by (auto simp: seen_def)
  have "runs (seen (\<lambda>fs ev. intact pf r ?s' fs \<and> ev = w_events w')) (rolled_back_arm pf (state_path r) ?s')
      (\<lambda>x. seen (\<lambda>fs ev. x = Returned (WatchdogRolledBack
          (case st_previous_version ?s' of Some v \<Rightarrow> v | None \<Rightarrow> unknown_version) (st_current_version ?s'))
        \<and> intact pf r (?s'\<lparr>st_status := Stable, st_boot_attempts := 0\<rparr>) fs))"
    by (rule runs_weaken [OF runs_rolled_back_arm [where L = "\<lambda>_. True" and ?ev0.0 = "w_events w'"]])
      (use assms(1) in \<open>auto simp: seen_def beside_def framed_def\<close>)
  then have "runs (seen (\<lambda>fs ev. intact pf r ?s' fs \<and> ev = w_events w')) (run_boot_watchdog pf (Some cfg))
      (\<lambda>x. seen (\<lambda>fs ev. x = Returned (WatchdogRolledBack prev (st_current_version s))
        \<and> intact pf r (s\<lparr>st_status := Stable, st_boot_attempts := 0\<rparr>) fs))"
    by (intro runs_watchdog_entry [OF assms(3,4), of _ pf ?s']) (simp_all add: assms(8) intact_def)
  from runsD [OF this w'(4)] w' show ?thesis by (fastforce simp: seen_def intact_def)
qed

theorem failed_revert_is_reported_as_rollback_witness:
  "\<exists>w' w''. run_boot_watchdog (plain_platform 1) (Some sample_config) (calm_world (sample_fs False))
        = (Inr (ExitProcess 1), w')
     \<and> run_boot_watchdog (plain_platform 1) (Some sample_config) w'
        = (Inr (Returned (WatchdogRolledBack ''1.0.0'' ''1.1.0'')), w'')"
proof -
  have "\<exists>w' w''. run_boot_watchdog (plain_platform 1) (Some sample_config) (calm_world (sample_fs False))
        = (Inr (ExitProcess 1), w')
     \<and> node_at (w_fs w') (current_link [''r'']) = node_at (w_fs (calm_world (sample_fs False))) (current_link [''r''])
     \<and> run_boot_watchdog (plain_platform 1) (Some sample_config) w'
         = (Inr (Returned (WatchdogRolledBack ''1.0.0''
              (st_current_version (sample_state\<lparr>st_boot_attempts := 3\<rparr>)))), w'')
     \<and> holds_state (plain_platform 1) (state_path [''r'']) (w_fs w'')
         ((sample_state\<lparr>st_boot_attempts := 3\<rparr>)\<lparr>st_status := Stable, st_boot_attempts := 0\<rparr>)"
    by (rule failed_revert_is_reported_as_rollback [OF _ sample_calm _ _ sample_intact])
      (simp_all add: sample_config_def upgrade_config_default_def calm_world_def sample_fs_def
        node_at_def version_dir_def state_path_def sample_state_def saturating_inc_def)
  moreover have "st_current_version (sample_state\<lparr>st_boot_attempts := 3\<rparr>) = ''1.1.0''"
    by (simp add: sample_state_def)
  ultimately show ?thesis by auto
qed

text \<open>C31: \<open>upgrade_completed\<close> is only announced for a version that is waiting for health, has had a healthy
  beat no more than 60 s ago, and was staged at least the health window ago; the window runs from the
  staging, so a single late beat is enough.\<close>

theorem completed_only_after_window_and_beat:
  assumes "holds_state pf (state_path r) (w_fs w) s"
    and "finalize_if_stable pf r cfg w = (res, w')" and "w_events w' \<noteq> w_events w"
  shows "st_status s = PendingHealth
    \<and> (\<exists>h n m. st_last_health_at s = Some h
         \<and> uc_boot_health_window_secs cfg \<le> secs_u32 (num_seconds (w_time w n - st_staged_at s))
         \<and> num_seconds (w_time w m - h) \<le> 60)"
proof -
  obtain l w1 where l: "attempt (load_state pf (state_path r)) w = (Inr l, w1)"
    using attempt_total by blast
  have q: "w_time w1 = w_time w" "w_events w1 = w_events w"
    using l quiet_rest(5) [OF quiet_load, of pf "state_path r"] by (auto simp: quiet_def) (metis snd_conv)+
  show ?thesis
  proof (cases l)
    case None
    then show ?thesis
      using assms(2,3) l q by (auto simp: finalize_if_stable_def Let_def bindIO_def ret_def)
  next
    case (Some s')
    then have "load_state pf (state_path r) w = (Inr s', w1)"
      using l attempt_Some by simp
    then have "s' = s" using load_ok [OF _ assms(1)] by blast
    then show ?thesis
      using assms(2,3) l q Some
      by (auto simp: finalize_if_stable_def Let_def bindIO_def ret_def now_io_def not_less not_le
          split: if_splits option.splits intro: exI)
  qed
qed

theorem completed_only_after_window_and_beat_witness:
  "let pf = plain_platform 1; p = state_path [''r''];
       s = sample_state\<lparr>st_last_health_at := Some 119000000000\<rparr>;
       w = (calm_world [([''r''], 0, DirNode), (p, 0, FileNode 420 (Some s))])\<lparr>w_time := \<lambda>_. 120000000000\<rparr> in
   st_status s = PendingHealth \<and> num_seconds (w_time w 0 - 119000000000) \<le> 60"
proof -
  let ?pf = "plain_platform 1" and ?p = "state_path [''r'']"
  let ?s = "sample_state\<lparr>st_last_health_at := Some 119000000000\<rparr>"
  let ?w = "(calm_world [([''r''], 0, DirNode), (?p, 0, FileNode 420 (Some ?s))])\<lparr>w_time := \<lambda>_. 120000000000\<rparr>"
  have h: "holds_state ?pf ?p (w_fs ?w) ?s"
    by (simp add: holds_state_def calm_world_def plain_platform_def node_at_def state_path_def)
  have calm: "calm ?w" by (simp add: calm_def calm_world_def)
  obtain w1 where ld: "load_state ?pf ?p ?w = (Inr ?s, w1)"
    using runsD [OF runs_load [where pf = ?pf and p = ?p and s = ?s and G = "\<lambda>_ _. True"] calm] h
    by (auto simp: seen_def)
  have q: "w_time w1 = w_time ?w" "w_events w1 = chan_new 64"
    using quiet_load [of ?pf ?p] ld by (auto simp: quiet_def calm_world_def dest: spec [of _ ?w])
  obtain res w' where run: "finalize_if_stable ?pf [''r''] sample_config ?w = (res, w')" by fastforce
  have "attempt (load_state ?pf ?p) ?w = (Inr (Some ?s), w1)" using ld by (simp add: attempt_def)
  moreover have "w_events (snd (update_state ?pf ?p f v)) = w_events v" for f v
    using quiet_update [of ?pf ?p f] by (simp add: quiet_def)
  moreover have "\<not> secs_u32 (num_seconds (120000000000 - 0)) < 120"
    by (simp add: secs_u32_def num_seconds_def)
  ultimately have "w_events w' \<noteq> w_events ?w"
    using run q
    by (auto simp: finalize_if_stable_def Let_def bindIO_def ret_def now_io_def sample_config_def
        upgrade_config_default_def sample_state_def num_seconds_def ignore_def try_event_def try_send_def
        chan_new_def calm_world_def)
  from completed_only_after_window_and_beat [OF h run this] show ?thesis
    by (auto simp: Let_def sample_state_def num_seconds_def)
qed

end
