(* ===== verification/Upgrade.thy ===== *)
theory Upgrade
  imports Verify Download Watchdog
begin

section \<open>The upgrade coordinator (src/upgrade/mod.rs)\<close>

text \<open>
  \<open>UpgradeCoordinator::stage\<close> with its single-flight guard: the policy gates, the two fetches, the
  signature check, the manifest and sequence checks, the tarball, the switch to the new version and the
  state it leaves for the boot watchdog. Everything the repository does not contain (URL and version
  parsing, the HTTP client, SHA-256, Sigstore, JSON, tar) is a field of \<open>upgrade_env\<close>.
\<close>

record upgrade_profile =
  up_repo :: string
  up_binary_name :: string
  up_device_type :: string
  up_allowed_signers :: "allowed_signer list"

record staged_upgrade =
  su_from_version :: string
  su_to_version :: string
  su_channel :: string
  su_variant :: string
  su_arch :: string
  su_install_dir :: path

text \<open>The guard is a lock around a flag; \<open>stage\<close> only asks whether the lock is taken.\<close>

record coordinator =
  co_profile :: upgrade_profile
  co_config :: upgrade_config
  co_current_version :: string
  co_lock_taken :: bool
  co_in_flight :: bool

definition coordinator_new :: "upgrade_profile \<Rightarrow> upgrade_config \<Rightarrow> string \<Rightarrow> coordinator" where
  "coordinator_new profile config current_version =
     \<lparr>co_profile = profile, co_config = config, co_current_version = current_version,
      co_lock_taken = False, co_in_flight = False\<rparr>"

definition coordinator_enabled :: "coordinator \<Rightarrow> bool" where
  "coordinator_enabled co = uc_enabled (co_config co)"

definition set_config :: "upgrade_config \<Rightarrow> coordinator \<Rightarrow> coordinator" where
  "set_config cfg co = co\<lparr>co_config := cfg\<rparr>"

text \<open>How a string is printed by \<open>{:?}\<close>, and a status by \<open>{}\<close>.\<close>

record printer =
  pr_debug :: "string \<Rightarrow> string"
  pr_status :: "nat \<Rightarrow> string"

record ('k, 'e, 'c) upgrade_env =
  en_parse_url :: url_parser
  en_semver :: semver_lib
  en_sigstore :: "'k sigstore"
  en_client :: "string + unit"
  en_http :: "nat \<Rightarrow> http"
  en_sha256 :: "bytes \<Rightarrow> bytes"
  en_manifest_json :: "bytes \<Rightarrow> string + manifest"
  en_tar :: "('e, 'c) tar_lib"
  en_platform :: "'c platform"
  en_printer :: printer
  en_arch :: string
  en_os :: string

definition detect_arch :: "string \<Rightarrow> string \<Rightarrow> string" where
  "detect_arch arch os =
     (if arch = ''x86_64'' \<and> os = ''linux'' then ''x86_64-linux''
      else if arch = ''aarch64'' \<and> os = ''linux'' then ''aarch64-linux''
      else arch @ ''-'' @ os)"

subsection \<open>Codes read off message texts\<close>

text \<open>
  Two codes are chosen by looking for a word in the printed error. An \<open>anyhow\<close> error prints as its first
  message; these are the texts of the messages that can come first there.
\<close>

definition em_dash :: string where "em_dash = [CHR 0xE2, CHR 0x80, CHR 0x94]"

definition debug_opt :: "printer \<Rightarrow> string option \<Rightarrow> string" where
  "debug_opt pr s = (case s of None \<Rightarrow> ''None'' | Some t \<Rightarrow> ''Some('' @ pr_debug pr t @ '')'')"

fun verify_text :: "printer \<Rightarrow> verify_msg \<Rightarrow> string" where
  "verify_text pr AllowlistEmpty =
     ''identity allowlist is empty '' @ em_dash @ '' refusing to verify any signature''"
| "verify_text pr BundleUnreadable = ''failed to parse cosign Sigstore bundle JSON''"
| "verify_text pr BundleNoCert = ''bundle missing '' @ [CHR 0x27] @ ''cert'' @ [CHR 0x27] @ '' (X.509 PEM)''"
| "verify_text pr BundleNoSignature = ''bundle missing '' @ [CHR 0x27] @ ''base64Signature'' @ [CHR 0x27]"
| "verify_text pr FulcioRekorFailed = ''Sigstore Fulcio + Rekor verification failed''"
| "verify_text pr IdentityUnreadable = ''could not extract identity claims from Fulcio cert''"
| "verify_text pr (IdentityNotAllowed iss repo uri rf) =
     ''Sigstore cert identity CertIdentity { issuer: '' @ debug_opt pr iss @ '', repo: '' @ debug_opt pr repo
     @ '', workflow_uri: '' @ debug_opt pr uri @ '', ref_claim: '' @ debug_opt pr rf
     @ '' } is not in the upgrade ALLOWED_SIGNERS allowlist '' @ em_dash
     @ '' refusing to install (the binary may have been signed by an unauthorised workflow)''"
| "verify_text pr BlobSignatureFailed =
     ''manifest signature does not verify under the cert'' @ [CHR 0x27] @ ''s pubkey''"

fun download_text :: "printer \<Rightarrow> download_msg \<Rightarrow> string" where
  "download_text pr ClientBuildFailed = ''failed to build reqwest::Client for upgrade fetch''"
| "download_text pr (HttpStatus s u) = ''HTTP '' @ pr_status pr s @ '' from '' @ u"
| "download_text pr (BodyUnreadable u) = ''failed to read body from '' @ u"
| "download_text pr (ManifestTooLarge u n) =
     u @ '' returned '' @ show_nat n @ '' bytes; cap is '' @ show_nat max_manifest_bytes"
| "download_text pr (BodyNotUtf8 u) = ''body from '' @ u @ '' is not valid UTF-8''"
| "download_text pr (NetworkError u e) = ''network error fetching '' @ u @ '': '' @ e"
| "download_text pr FetchTextExhausted = ''fetch_text exhausted retries''"
| "download_text pr (BadExpectedSha256 h) = ''expected SHA-256 '' @ pr_debug pr h @ '' is not 64 hex chars''"
| "download_text pr (ContentLengthOverCap u n) =
     u @ '' content-length '' @ show_nat n @ '' exceeds tarball cap '' @ show_nat max_tarball_bytes"
| "download_text pr (ChunkUnreadable u) = ''failed to read chunk from '' @ u"
| "download_text pr (BodyOverCap u) =
     u @ '' body exceeds tarball cap '' @ show_nat max_tarball_bytes @ '' mid-stream''"
| "download_text pr (ChecksumMismatch u expected got n) =
     ''checksum mismatch for '' @ u @ '': expected SHA-256 '' @ expected @ '', got '' @ got
     @ '' (size '' @ show_nat n @ '' bytes)''"
| "download_text pr FetchShaExhausted = ''fetch_with_sha256 exhausted retries''"

fun url_text :: "printer \<Rightarrow> manifest_msg \<Rightarrow> string option" where
  "url_text pr (UrlUnreadable u e) = Some (''URL '' @ pr_debug pr u @ '' is not a valid URL: '' @ e)"
| "url_text pr (UrlNotHttps u) = Some (''URL '' @ pr_debug pr u @ '' must use https://'')"
| "url_text pr (UrlHostless u) = Some (''URL '' @ pr_debug pr u @ '' has no host'')"
| "url_text pr (UrlHostNotListed u h) =
     Some (''URL '' @ pr_debug pr u @ '' host '' @ pr_debug pr h
       @ '' is not in the upgrade host whitelist ['' @ pr_debug pr (allowed_url_hosts ! 0) @ '', ''
       @ pr_debug pr (allowed_url_hosts ! 1) @ '', '' @ pr_debug pr (allowed_url_hosts ! 2) @ '']'')"
| "url_text pr (UrlTooLarge u) = Some (''URL '' @ pr_debug pr u @ '' exceeds 2048 chars'')"
| "url_text pr _ = None"

text \<open>\<open>None\<close> is a message neither fetch nor verification begins with.\<close>

definition first_text :: "printer \<Rightarrow> anyhow \<Rightarrow> string option" where
  "first_text pr e =
     (case e of
        Verify m # _ \<Rightarrow> Some (verify_text pr m)
      | Download m # _ \<Rightarrow> Some (download_text pr m)
      | Manifest m # _ \<Rightarrow> url_text pr m
      | _ \<Rightarrow> None)"

definition mentions :: "printer \<Rightarrow> string \<Rightarrow> anyhow \<Rightarrow> bool" where
  "mentions pr word e = (case first_text pr e of None \<Rightarrow> False | Some s \<Rightarrow> str_contains word s)"

definition map_verify_error :: "printer \<Rightarrow> anyhow \<Rightarrow> upgrade_error" where
  "map_verify_error pr e =
     upgrade_error_new
       (if mentions pr ''identity'' e then ''upgrade_identity_not_allowed''
        else if mentions pr ''rekor'' e then ''upgrade_rekor_invalid''
        else ''upgrade_signature_invalid'') (FirstOf e)"

definition map_tarball_error :: "printer \<Rightarrow> anyhow \<Rightarrow> upgrade_error" where
  "map_tarball_error pr e =
     upgrade_error_new (if mentions pr ''checksum'' e then ''upgrade_checksum_mismatch''
       else ''upgrade_network_error'') (FirstOf e)"

subsection \<open>Programs that fail with an UpgradeError\<close>

type_synonym ('a, 'c) stage_io = "'c world \<Rightarrow> (upgrade_error + 'a) \<times> 'c world"

text \<open>A call that cannot fail.\<close>

definition sureS :: "('a, 'c) io \<Rightarrow> ('a, 'c) stage_io" where
  "sureS = ioS (\<lambda>e. upgrade_error_new [] (FirstOf e))"

subsection \<open>stage\<close>

text \<open>The policy gates, before anything is sent or fetched: the parsed request, or the refusal.\<close>

record stage_plan =
  pl_arch :: string
  pl_variant :: string
  pl_release_base :: string

definition admit ::
  "('k, 'e, 'c) upgrade_env \<Rightarrow> coordinator \<Rightarrow> string \<Rightarrow> string \<Rightarrow> string option \<Rightarrow> string option
     \<Rightarrow> upgrade_error + stage_plan" where
  "admit env co version channel target_arch variant =
     (let cfg = co_config co; sv = en_semver env in
      bindR (bail_if (\<not> uc_enabled cfg) (upgrade_error_new ''upgrade_disabled'' UpgradesDisabled)) (\<lambda>_.
      bindR (bail_if (channel \<notin> set (uc_allowed_channels cfg))
               (upgrade_error_new ''upgrade_channel_not_allowed''
                  (ChannelNotAllowed channel (uc_allowed_channels cfg)))) (\<lambda>_.
      bindR (map_err (\<lambda>e. upgrade_error_new ''upgrade_version_invalid'' (VersionNotSemver version e))
               (sl_parse sv version)) (\<lambda>target_v.
      bindR (map_err (\<lambda>e. upgrade_error_new ''upgrade_version_invalid''
                 (CurrentNotSemver (co_current_version co) e))
               (sl_parse sv (co_current_version co))) (\<lambda>current_v.
      bindR (map_err (\<lambda>e. upgrade_error_new ''upgrade_version_too_old'' (FirstOf e))
               (check_version_window sv target_v current_v cfg)) (\<lambda>_.
      bindR (map_err (\<lambda>e. upgrade_error_new ''upgrade_url_invalid'' (FirstOf e))
               (derive_release_base_url (en_parse_url env) sv (up_repo (co_profile co)) version)) (\<lambda>base.
      Inr \<lparr>pl_arch = (case target_arch of Some a \<Rightarrow> a | None \<Rightarrow> detect_arch (en_arch env) (en_os env)),
           pl_variant = (case variant of Some v \<Rightarrow> v | None \<Rightarrow> ''default''),
           pl_release_base = base\<rparr>)))))))"

definition stage_event ::
  "coordinator \<Rightarrow> string \<Rightarrow> string \<Rightarrow> string \<Rightarrow> upgrade_event_msg \<Rightarrow> nat option \<Rightarrow> upgrade_event" where
  "stage_event co version channel code msg sz =
     \<lparr>ue_severity = ''info'', ue_error_code = code, ue_from_version = Some (co_current_version co),
      ue_to_version = Some version, ue_channel = Some channel, ue_event_message = msg,
      ue_size_bytes = sz\<rparr>"

text \<open>The manifest: fetched, verified, parsed and checked against the request.\<close>

definition trusted_manifest ::
  "('k, 'e, 'c) upgrade_env \<Rightarrow> coordinator \<Rightarrow> string \<Rightarrow> string \<Rightarrow> string \<Rightarrow> upgrade_error + manifest" where
  "trusted_manifest env co version channel base =
     bindR (map_err (\<lambda>e. upgrade_error_new ''upgrade_network_error'' (ManifestFetchFailed e))
              (fst (fetch_text (en_parse_url env) (en_client env) (en_http env 0)
                 (base @ ''/manifest.json'')))) (\<lambda>manifest_bytes.
     bindR (map_err (\<lambda>e. upgrade_error_new ''upgrade_network_error'' (BundleFetchFailed e))
              (fst (fetch_text (en_parse_url env) (en_client env) (en_http env 1)
                 (base @ ''/manifest.sig.bundle'')))) (\<lambda>bundle_bytes.
     bindR (map_err (map_verify_error (en_printer env))
              (verify_manifest_bundle (en_sigstore env) manifest_bytes bundle_bytes
                 (up_allowed_signers (co_profile co)))) (\<lambda>_.
     bindR (map_err (\<lambda>e. upgrade_error_new ''upgrade_manifest_invalid'' (ManifestJson e))
              (en_manifest_json env manifest_bytes)) (\<lambda>m.
     bindR (map_err (\<lambda>e. upgrade_error_new ''upgrade_manifest_invalid'' (FirstOf e))
              (validate_request (en_parse_url env) m version channel
                 (up_device_type (co_profile co)))) (\<lambda>_.
     Inr m)))))"

definition check_sequence :: "manifest \<Rightarrow> install_state option \<Rightarrow> upgrade_error + unit" where
  "check_sequence m state =
     (case state of
        None \<Rightarrow> Inr ()
      | Some s \<Rightarrow> bail_if (mf_sequence m \<le> st_last_sequence s)
          (upgrade_error_new ''upgrade_sequence_too_old''
             (SequenceTooOld (mf_sequence m) (st_last_sequence s))))"

definition fetch_tarball ::
  "('k, 'e, 'c) upgrade_env \<Rightarrow> manifest \<Rightarrow> stage_plan \<Rightarrow> upgrade_error + bytes" where
  "fetch_tarball env m plan =
     bindR (ok_or (upgrade_error_new ''upgrade_arch_mismatch''
                     (NoArtefactFor (pl_arch plan) (pl_variant plan)))
              (pick_artefact m (pl_arch plan) (pl_variant plan))) (\<lambda>a.
     map_err (map_tarball_error (en_printer env))
       (fst (fetch_with_sha256 (en_parse_url env) (en_client env) (en_sha256 env) (en_http env 2)
          (ma_url a) (ma_sha256 a))))"

text \<open>The state saved for the boot watchdog.\<close>

definition staged_state ::
  "coordinator \<Rightarrow> string \<Rightarrow> string \<Rightarrow> stage_plan \<Rightarrow> manifest \<Rightarrow> install_state option \<Rightarrow> utc \<Rightarrow> install_state" where
  "staged_state co version channel plan m prev_state now =
     \<lparr>st_current_version = version,
      st_previous_version = Some (case prev_state of Some s \<Rightarrow> st_current_version s
                                  | None \<Rightarrow> co_current_version co),
      st_channel = channel, st_variant = pl_variant plan, st_arch = pl_arch plan,
      st_status = PendingHealth, st_boot_attempts = 0, st_staged_at = now, st_last_health_at = None,
      st_last_sequence = mf_sequence m\<rparr>"

text \<open>From the verified tarball to the stored state.\<close>

definition install ::
  "('k, 'e, 'c) upgrade_env \<Rightarrow> coordinator \<Rightarrow> string \<Rightarrow> string \<Rightarrow> stage_plan \<Rightarrow> manifest \<Rightarrow> bytes
     \<Rightarrow> (path, 'c) stage_io" where
  "install env co version channel plan m tarball =
     (let root = uc_install_root (co_config co) in
      bindS (ioS (\<lambda>e. upgrade_error_new ''upgrade_extract_failed'' (FirstOf e))
               (stage_new_version (en_tar env) root version (up_binary_name (co_profile co)) tarball m))
        (\<lambda>install_dir.
      bindS (sureS (try_load_state (en_platform env) root)) (\<lambda>prev_state.
      bindS (sureS now_io) (\<lambda>now.
      bindS (ioS (\<lambda>e. upgrade_error_new ''upgrade_extract_failed'' (StateWriteFailed e))
               (save_state (en_platform env) (state_path root)
                  (staged_state co version channel plan m prev_state now))) (\<lambda>_.
      pureS (Inr install_dir))))))"

definition stage_admitted ::
  "('k, 'e, 'c) upgrade_env \<Rightarrow> coordinator \<Rightarrow> string \<Rightarrow> string \<Rightarrow> stage_plan
     \<Rightarrow> (staged_upgrade, 'c) stage_io" where
  "stage_admitted env co version channel plan =
     (let cfg = co_config co in
      bindS (sureS (send_event (stage_event co version channel ''upgrade_started''
               (StagingTo version channel (pl_arch plan) (pl_variant plan)) None))) (\<lambda>_.
      bindS (pureS (trusted_manifest env co version channel (pl_release_base plan))) (\<lambda>m.
      bindS (sureS (try_load_state (en_platform env) (uc_install_root cfg))) (\<lambda>state.
      bindS (pureS (check_sequence m state)) (\<lambda>_.
      bindS (pureS (fetch_tarball env m plan)) (\<lambda>tarball.
      bindS (sureS (send_event (stage_event co version channel ''upgrade_downloaded''
               (DownloadedBytes (length tarball)) (Some (length tarball))))) (\<lambda>_.
      bindS (pureS (bail_if (uc_manual_only cfg)
               (upgrade_error_new ''upgrade_staged_manual'' ManualDeferred))) (\<lambda>_.
      bindS (install env co version channel plan m tarball) (\<lambda>install_dir.
      bindS (sureS (send_event (stage_event co version channel ''upgrade_staged''
               (StagedTo version) None))) (\<lambda>_.
      pureS (Inr \<lparr>su_from_version = co_current_version co, su_to_version = version, su_channel = channel,
                  su_variant = pl_variant plan, su_arch = pl_arch plan,
                  su_install_dir = install_dir\<rparr>)))))))))))"

text \<open>\<open>try_lock\<close>, the body under the lock, and the lock released when the guard is dropped.\<close>

definition stage ::
  "('k, 'e, 'c) upgrade_env \<Rightarrow> coordinator \<Rightarrow> string \<Rightarrow> string \<Rightarrow> string option \<Rightarrow> string option
     \<Rightarrow> 'c world \<Rightarrow> (upgrade_error + staged_upgrade) \<times> coordinator \<times> 'c world" where
  "stage env co version channel target_arch variant w =
     (if co_lock_taken co then (Inl (upgrade_error_new ''upgrade_in_progress'' AlreadyStaging), co, w)
      else
        let held = co\<lparr>co_lock_taken := True, co_in_flight := True\<rparr>;
            (r, w') = bindS (pureS (admit env held version channel target_arch variant))
                        (stage_admitted env held version channel) w
        in (r, held\<lparr>co_lock_taken := False\<rparr>, w'))"

subsection \<open>Runs of the parts\<close>

text \<open>The tree is the same, and so is every tree on the trail in between.\<close>

definition undisturbed :: "'c world \<Rightarrow> 'c world \<Rightarrow> bool" where
  "undisturbed w w' =
     (w_fs w' = w_fs w \<and> (\<exists>ts. w_trail w' = w_trail w @ ts \<and> list_all (\<lambda>fs. fs = w_fs w) ts))"

lemma undisturbed_refl [simp]: "undisturbed w w"
  by (simp add: undisturbed_def)

lemma undisturbed_trans:
  assumes "undisturbed w v" and "undisturbed v u"
  shows "undisturbed w u"
proof -
  obtain ts us where "w_trail v = w_trail w @ ts" "list_all (\<lambda>fs. fs = w_fs w) ts"
    "w_trail u = w_trail v @ us" "list_all (\<lambda>fs. fs = w_fs w) us"
    using assms by (auto simp: undisturbed_def)
  then have "w_trail u = w_trail w @ (ts @ us) \<and> list_all (\<lambda>fs. fs = w_fs w) (ts @ us)" by simp
  then show ?thesis using assms by (auto simp: undisturbed_def simp del: append_assoc)
qed

lemma sure_event: "sureS (send_event e) w = (Inr (), snd (send_event e w))"
  by (simp add: sureS_def ioS_def send_event_def)

lemma event_fs: "w_fs (snd (send_event e w)) = w_fs w" "w_fault (snd (send_event e w)) = w_fault w"
  by (simp_all add: send_event_def)

lemma event_undisturbed: "undisturbed w (snd (send_event e w))"
  by (simp add: undisturbed_def send_event_def)

lemma load_same:
  "triple (\<lambda>fs. fs = t) (\<lambda>fs. fs = t) (load_state pf p) (\<lambda>_ fs. fs = t) (\<lambda>fs. fs = t)"
  unfolding load_state_def by (rule bind_keep | rule keep_rules | assumption)+

lemma try_load_same:
  "triple (\<lambda>fs. fs = t) (\<lambda>fs. fs = t) (try_load_state pf r) (\<lambda>_ fs. fs = t) (\<lambda>_. False)"
proof -
  have ex: "triple (\<lambda>fs. fs = t) (\<lambda>fs. fs = t) (path_exists p) (\<lambda>_ fs. fs = t) (\<lambda>_. False)" for p
    unfolding path_exists_def by (rule keep_pure)
  show ?thesis
    unfolding try_load_state_def Let_def
    by (intro bind_keep [OF ex] triple_if keep_attempt [OF load_same] keep_pure(1))
qed

lemma try_load_never_fails: "try_load_state pf r w \<noteq> (Inl e, w')"
proof
  assume "try_load_state pf r w = (Inl e, w')"
  then show False using tripleD(3) [OF try_load_same [of "w_fs w" pf r], of w e] by simp
qed

lemma sure_try_load:
  obtains x w' where "sureS (try_load_state pf r) w = (Inr x, w')" and "undisturbed w w'"
proof -
  obtain y w' where run: "try_load_state pf r w = (y, w')" by fastforce
  have p: "(\<lambda>fs. fs = w_fs w) (w_fs w)" by simp
  note t = tripleD [OF try_load_same [of "w_fs w" pf r] p]
  have "\<exists>x. y = Inr x" using run by (cases y) (auto simp: try_load_never_fails)
  then obtain x where y: "y = Inr x" ..
  have "undisturbed w w'" using t(1) t(2) [of x] run y
    by (simp add: undisturbed_def)
  with run y show thesis by (intro that [of x w']) (simp_all add: sureS_def ioS_def)
qed

lemma install_error: "install env co version channel plan m tb w = (Inl e, w') \<Longrightarrow> ue_code e = ''upgrade_extract_failed''"
  unfolding install_def Let_def
  by (elim bindS_error sure_try_load [of "en_platform env" "uc_install_root (co_config co)"])
    (auto simp: ioS_def sureS_def now_io_def pureS_iff upgrade_error_new_def try_load_never_fails result_simps
      split: prod.splits sum.splits)

lemma stage_admitted_error:
  assumes "stage_admitted env co version channel plan w = (Inl e, w')"
    and "ue_code e \<noteq> ''upgrade_extract_failed''"
  shows "undisturbed w w'"
proof -
  let ?e1 = "stage_event co version channel ''upgrade_started''
    (StagingTo version channel (pl_arch plan) (pl_variant plan)) None"
  obtain x w2 where ld: "sureS (try_load_state (en_platform env) (uc_install_root (co_config co)))
      (snd (send_event ?e1 w)) = (Inr x, w2)" and u2: "undisturbed (snd (send_event ?e1 w)) w2"
    by (rule sure_try_load)
  note u = undisturbed_trans [OF event_undisturbed u2]
  show ?thesis
    using assms(1) u event_undisturbed [of w ?e1]
    unfolding stage_admitted_def Let_def
    by (elim bindS_error)
      (auto simp: sure_event ld pureS_iff dest: install_error assms(2) [THEN notE]
        intro: undisturbed_trans event_undisturbed)
qed

lemma manual_undisturbed:
  assumes "stage_admitted env co version channel plan w = (Inl e, w')" and "uc_manual_only (co_config co)"
  shows "undisturbed w w'"
proof -
  let ?e1 = "stage_event co version channel ''upgrade_started''
    (StagingTo version channel (pl_arch plan) (pl_variant plan)) None"
  obtain x w2 where ld: "sureS (try_load_state (en_platform env) (uc_install_root (co_config co)))
      (snd (send_event ?e1 w)) = (Inr x, w2)" and u2: "undisturbed (snd (send_event ?e1 w)) w2"
    by (rule sure_try_load)
  note u = undisturbed_trans [OF event_undisturbed u2]
  show ?thesis
    using assms u event_undisturbed [of w ?e1]
    unfolding stage_admitted_def Let_def
    by (elim bindS_error)
      (auto simp: sure_event ld pureS_iff result_simps intro: undisturbed_trans event_undisturbed)
qed

lemma manual_apply_needs_staged:
  assumes "holds_state pf (state_path r) (w_fs w) s" and "st_status s \<noteq> StagedManual"
  shows "\<not> is_ok (fst (manual_apply_pending pf r w))"
proof -
  have ld: "triple (\<lambda>_. True) (\<lambda>fs. holds_state pf (state_path r) fs s \<and> True) (load_state pf (state_path r))
      (\<lambda>x fs. x = s \<and> holds_state pf (state_path r) fs s \<and> True) (\<lambda>fs. holds_state pf (state_path r) fs s \<and> True)"
    by (rule load_state_triple) simp
  obtain r1 w1 where run: "load_state pf (state_path r) w = (r1, w1)" by fastforce
  show ?thesis
  proof (cases r1)
    case (Inr x)
    then have "x = s" using tripleD(2) [OF ld, of w x] assms(1) run by simp
    then show ?thesis
      using run Inr assms(2) by (simp add: manual_apply_pending_def Let_def bindIO_def lift_def bail_if_def result_simps)
  qed (use run in \<open>simp add: manual_apply_pending_def Let_def bindIO_def result_simps\<close>)
qed

lemma verify_error_head:
  assumes "verify_manifest_bundle sg m b signers = Inl e"
  obtains v es where "e = Verify v # es"
  using assms unfolding verify_manifest_bundle_def
  by (auto simp: result_simps with_source_def with_context_def)

text \<open>The word searches in the verification messages, by evaluation of the fixed texts.\<close>

lemma verify_codes:
  "ue_code (map_verify_error pr (Verify AllowlistEmpty # es)) = ''upgrade_identity_not_allowed''"
  "ue_code (map_verify_error pr (Verify BundleUnreadable # es)) = ''upgrade_signature_invalid''"
  "ue_code (map_verify_error pr (Verify BundleNoCert # es)) = ''upgrade_signature_invalid''"
  "ue_code (map_verify_error pr (Verify BundleNoSignature # es)) = ''upgrade_signature_invalid''"
  "ue_code (map_verify_error pr (Verify FulcioRekorFailed # es)) = ''upgrade_signature_invalid''"
  "ue_code (map_verify_error pr (Verify IdentityUnreadable # es)) = ''upgrade_identity_not_allowed''"
  "ue_code (map_verify_error pr (Verify (IdentityNotAllowed i r u rf) # es)) = ''upgrade_identity_not_allowed''"
  "ue_code (map_verify_error pr (Verify BlobSignatureFailed # es)) = ''upgrade_signature_invalid''"
  by (simp_all add: map_verify_error_def mentions_def first_text_def upgrade_error_new_def em_dash_def
      starts_with_def)

text \<open>What a successful run of the admitted part went through.\<close>

lemma stage_admitted_ok:
  assumes "stage_admitted env co version channel plan w = (Inr su, w')"
  obtains m state tb w1 w2 w3 w4 where
    "undisturbed w w1" and "w_fault w1 = w_fault w"
    and "sureS (try_load_state (en_platform env) (uc_install_root (co_config co))) w1 = (Inr state, w2)"
    and "trusted_manifest env co version channel (pl_release_base plan) = Inr m"
    and "check_sequence m state = Inr ()" and "fetch_tarball env m plan = Inr tb"
    and "\<not> uc_manual_only (co_config co)"
    and "install env co version channel plan m tb w3 = (Inr (su_install_dir su), w4)"
    and "w_fs w' = w_fs w4"
    and "su_from_version su = co_current_version co" and "su_to_version su = version"
    and "su_channel su = channel" and "su_variant su = pl_variant plan" and "su_arch su = pl_arch plan"
proof -
  from assms obtain m xa v tb xc va e1 e2 e3 where
    "trusted_manifest env co version channel (pl_release_base plan) = Inr m"
    "sureS (try_load_state (en_platform env) (uc_install_root (co_config co)))
      (snd (send_event e1 w)) = (Inr xa, v)"
    "check_sequence m xa = Inr ()" "fetch_tarball env m plan = Inr tb"
    "\<not> uc_manual_only (co_config co)"
    "install env co version channel plan m tb (snd (send_event e2 v)) = (Inr xc, va)"
    "w' = snd (send_event e3 va)"
    "su = \<lparr>su_from_version = co_current_version co, su_to_version = version, su_channel = channel,
       su_variant = pl_variant plan, su_arch = pl_arch plan, su_install_dir = xc\<rparr>"
    unfolding stage_admitted_def Let_def
    by (auto simp: bindS_ok sure_event pureS_iff result_simps)
  then show thesis
    by (intro that [of "snd (send_event e1 w)" xa v m tb "snd (send_event e2 v)" va])
      (simp_all add: event_undisturbed event_fs)
qed

lemma reload_reads:
  assumes "calm w" and "holds_state pf (state_path r) (w_fs w) s"
    and "sureS (try_load_state pf r) w = (Inr x, w')"
  shows "x = Some s"
proof -
  let ?P = "\<lambda>fs ev. holds_state pf (state_path r) fs s"
  have ex: "runs (seen ?P) (path_exists (state_path r)) (\<lambda>b. seen (\<lambda>fs ev. b \<and> ?P fs ev))"
    unfolding path_exists_def
    by (rule runs_query) (auto simp: holds_state_def dest: followed_file)
  have ld: "runs (seen ?P) (attempt (load_state pf (state_path r))) (\<lambda>x. seen (\<lambda>fs ev. x = Some s))"
    by (rule runs_attempt [OF runs_load [where G = "\<lambda>_ _. True", simplified]])
      (auto simp: seen_def)
  have "runs (seen ?P) (try_load_state pf r) (\<lambda>x. seen (\<lambda>fs ev. x = Some s))"
    unfolding try_load_state_def Let_def
  proof (rule runs_bind [OF ex])
    show "runs (seen (\<lambda>fs ev. b \<and> ?P fs ev))
        (if \<not> b then ret None else attempt (load_state pf (state_path r))) (\<lambda>x. seen (\<lambda>fs ev. x = Some s))" for b
      using ld by (cases b) (simp_all add: runs_def seen_def)
  qed
  from runsD [OF this assms(1)] assms(2,3) show ?thesis
    by (auto simp: seen_def sureS_def ioS_def result_simps split: prod.splits)
qed

subsection \<open>The link and the state after an install\<close>

lemma swap_lands:
  fixes w :: "'c world"
  assumes "swap_current_symlink r t w = (Inr u, w')"
  shows "node_at (w_fs w') (current_link r) = Some (LinkNode t)"
proof -
  let ?tmp = "current_tmp r" and ?cur = "current_link r"
  obtain w1 w2 w3 where sl: "sys_symlink t ?tmp w1 = (Inr (), w2)"
    and rn: "sys_rename ?tmp ?cur w2 = (Inr (), w3)" and fin: "w' = snd (sys_nop w3)"
    using assms unfolding swap_current_symlink_def Let_def by (auto simp: bindIO_ok pure_ok)
  have "node_at (w_fs w2) ?tmp = Some (LinkNode t)"
    using sl by (auto simp: sys_symlink_def syscall_ok nodes.node_put link_paths_distinct split: if_splits)
  moreover have "triple (\<lambda>_. True) (\<lambda>fs. node_at fs ?tmp = Some (LinkNode t))
      (sys_rename ?tmp ?cur :: (unit, 'c) io) (\<lambda>_ fs. node_at fs ?cur = Some (LinkNode t)) (\<lambda>_. True)"
    by (rule triple_rename_file) (auto simp: link_paths_distinct link_paths_distinct [symmetric])
  ultimately have "node_at (w_fs w3) ?cur = Some (LinkNode t)" using tripleD(2) rn by fastforce
  then show ?thesis by (simp add: fin snd_nop)
qed

lemma keep_remove_dir_all:
  fixes t q p :: path
  assumes "take (length p) q \<noteq> p"
  shows "triple (\<lambda>_. True) (\<lambda>fs. node_at fs q = Some n) (sys_remove_dir_all p)
     (\<lambda>_ fs. node_at fs q = Some n) (\<lambda>fs. node_at fs q = Some n)"
  unfolding sys_remove_dir_all_def
proof (rule triple_syscall)
  have "q \<noteq> p" and ne: "p \<noteq> []" using assms by auto
  then show "True \<and> node_at fs' q = Some n"
    if "node_at fs q = Some n" and "(case node_at fs p of
         None \<Rightarrow> Inl ''No such file or directory''
       | Some (FileNode _ _) \<Rightarrow> Inl ''Not a directory''
       | Some DirNode \<Rightarrow> if p = [] then Inl ''Device or resource busy''
                       else Inr ((), touch t (butlast p) (del_tree p fs))
       | Some (LinkNode _) \<Rightarrow> Inr ((), touch t (butlast p) (del_node p fs))) = Inr (x, fs')" for fs t x fs'
    using that assms
    by (auto simp: node_del_tree nodes.node_del split: option.splits node.splits if_splits)
qed

lemma not_under_versions: "take (length (versions_dir r @ [name])) (current_link r) \<noteq> versions_dir r @ [name]"
  by (simp add: versions_dir_def current_link_def)

lemma gc_keeps_link:
  "triple (\<lambda>_. True) (\<lambda>fs. node_at fs (current_link r) = Some n) (ignore (gc_versions r v k))
     (\<lambda>_ fs. node_at fs (current_link r) = Some n) E"
proof -
  let ?P = "\<lambda>fs. node_at fs (current_link r) = Some n" and ?dir = "versions_dir r"
  have rm: "triple (\<lambda>_. True) ?P (ignore (sys_remove_dir_all (?dir @ [name]))) (\<lambda>_. ?P) ?P" for name
    by (rule keep_ignore, rule keep_remove_dir_all, rule not_under_versions)
  have es: "triple (\<lambda>_. True) ?P (gc_entries ?dir v names)
      (\<lambda>xs fs. ?P fs \<and> (\<forall>x\<in>set xs. \<exists>name. fst x = ?dir @ [name])) ?P" for names
  proof (induction names)
    case (Cons a names)
    have rest: "triple (\<lambda>_. True) ?P (bindIO (gc_entries ?dir v names)
          (\<lambda>rest. ret (case m of Some u \<Rightarrow> (?dir @ [a], u) # rest | None \<Rightarrow> rest)))
        (\<lambda>xs fs. ?P fs \<and> (\<forall>x\<in>set xs. \<exists>name. fst x = ?dir @ [name])) ?P" for m
      by (rule triple_bind [OF Cons.IH], rule triple_ret) (auto split: option.splits)
    have mt: "triple (\<lambda>_. True) ?P (attempt (sys_mtime (?dir @ [a]))) (\<lambda>_. ?P) ?P"
      by (rule keep_attempt, rule keep_calls) auto
    show ?case
      unfolding gc_entries.simps
      by (intro triple_if Cons.IH bind_keep [OF rm] bind_keep [OF mt] rest)
  qed (simp add: triple_ret)
  have ra: "triple (\<lambda>_. True) ?P (remove_all ps) (\<lambda>_. ?P) ?P" if "\<forall>p\<in>set ps. \<exists>name. p = ?dir @ [name]" for ps
    using that
  proof (induction ps)
    case (Cons p ps)
    then obtain name where "p = ?dir @ [name]" by auto
    then show ?case using bind_keep [OF rm, of "\<lambda>_. remove_all ps"] Cons by simp
  qed (simp add: triple_ret)
  have tail: "triple (\<lambda>_. True) (\<lambda>fs. ?P fs \<and> (\<forall>x\<in>set xs. \<exists>name. fst x = ?dir @ [name]))
      (remove_all (map fst (drop k (sort_key f xs)))) (\<lambda>_. ?P) ?P" for xs and f :: "_ \<Rightarrow> int"
  proof (cases "\<forall>x\<in>set xs. \<exists>name. fst x = ?dir @ [name]")
    case True
    then have "\<forall>p\<in>set (map fst (drop k (sort_key f xs))). \<exists>name. p = ?dir @ [name]"
      by (auto dest!: in_set_dropD)
    then show ?thesis by (intro triple_pre [OF _ ra]) simp
  qed (unfold triple_def, blast)
  have rd: "triple (\<lambda>_. True) ?P (sys_read_dir ?dir) (\<lambda>_. ?P) ?P"
    by (rule keep_calls) auto
  show ?thesis
    unfolding gc_versions_def Let_def
    by (rule keep_ignore) (intro bind_keep [OF rd] triple_bind [OF es] tail)
qed

lemma keep_node_open_create:
  "triple (\<lambda>_. True) (\<lambda>fs. node_at fs q = Some n \<and> node_at fs j = Some k) (sys_open_create p c)
     (\<lambda>_ fs. node_at fs q = Some n \<and> node_at fs j = Some k)
     (\<lambda>fs. node_at fs q = Some n \<and> node_at fs j = Some k)"
  unfolding sys_open_create_def
proof (rule triple_syscall)
  fix fs :: "'a fs" and t :: utc and x :: unit and fs' :: "'a fs"
  assume P: "node_at fs q = Some n \<and> node_at fs j = Some k"
    and op: "(case resolve fs p of
       None \<Rightarrow> Inl ''Too many levels of symbolic links''
     | Some q \<Rightarrow>
         (case node_at fs q of
            Some (FileNode _ _) \<Rightarrow> Inr ((), fs)
          | None \<Rightarrow> if parent_is_dir fs q
                     then Inr ((), touch t (butlast q) (put_node t q (FileNode 420 c) fs))
                     else Inl ''No such file or directory''
          | Some _ \<Rightarrow> Inl ''Is a directory'')) = Inr (x, fs')"
  have "q' \<noteq> []" if "parent_is_dir fs q'" for q' using that by (auto simp: parent_is_dir_def)
  then show "True \<and> node_at fs' q = Some n \<and> node_at fs' j = Some k"
    using op P by (auto simp: nodes.node_put split: option.splits node.splits if_splits)
qed

text \<open>A successful save, whatever was there: the file holds the new state and a node elsewhere is kept.\<close>

lemma save_lands:
  fixes pf :: "'c platform"
  assumes "faithful_state pf s" and q: "q \<noteq> state_path r" "q \<noteq> tmp_state_path pf (state_path r)"
  shows "triple (\<lambda>_. True) (\<lambda>fs. node_at fs q = Some n) (save_state pf (state_path r) s)
     (\<lambda>_ fs. holds_state pf (state_path r) fs s \<and> node_at fs q = Some n) (\<lambda>_. True)"
proof -
  let ?p = "state_path r" and ?tmp = "tmp_state_path pf (state_path r)"
  let ?P = "\<lambda>fs. node_at fs q = Some n"
  obtain json where json: "pf_enc pf s = Inr json" "pf_dec pf json = Inr s"
    using assms(1) by (auto simp: faithful_state_def)
  let ?T = "\<lambda>fs. ?P fs \<and> node_at fs ?tmp = Some (FileNode 420 (pf_empty pf))"
  let ?W = "\<lambda>fs. ?P fs \<and> (\<exists>m. node_at fs ?tmp = Some (FileNode m json))"
  let ?D = "\<lambda>fs. holds_state pf ?p fs s \<and> ?P fs"
  have mk: "triple (\<lambda>_. True) ?P (sys_create_dir_all r) (\<lambda>_. ?P) (\<lambda>_. True)"
    by (rule triple_create_dir_all) auto
  have cr: "triple (\<lambda>_. True) ?P (sys_create_new ?tmp (pf_empty pf)) (\<lambda>_. ?T) (\<lambda>_. True)"
    by (rule triple_create_new) (use q in \<open>auto simp: state_path_facts\<close>)
  have op: "triple (\<lambda>_. True) ?T (attempt (sys_open_create ?p (pf_empty pf))) (\<lambda>_. ?T) (\<lambda>_. True)"
    by (rule keep_attempt, rule keep_node_open_create)
  have wr: "triple (\<lambda>_. True) ?T (sys_write ?tmp json) (\<lambda>_. ?W) (\<lambda>_. True)"
    by (rule triple_write_file) (use q in \<open>auto simp: state_path_facts\<close>)
  have ren: "triple (\<lambda>_. True) ?W (sys_rename ?tmp ?p) (\<lambda>_. ?D) (\<lambda>_. True)"
    by (rule triple_rename_file) (use q in \<open>auto simp: tmp_path_ne state_path_facts holds_state_def json\<close>)
  have keepT: "triple (\<lambda>_. True) ?T (if b then ctx c sys_nop else ret ()) (\<lambda>_. ?T) (\<lambda>_. True)" for b c
    by (rule triple_if; (rule keep_rules)+) simp_all
  have keepW: "triple (\<lambda>_. True) ?W (ctx c sys_nop) (\<lambda>_. ?W) (\<lambda>_. True)" for c
    by ((rule keep_rules)+) simp_all
  have tail: "triple (\<lambda>_. True) ?D (bindIO (ignore sys_nop) (\<lambda>_. ignore sys_nop)) (\<lambda>_. ?D) (\<lambda>_. True)"
    by (rule bind_keep; (rule keep_rules)+) simp_all
  have js: "lift (with_source c (pf_enc pf s)) = lift (Inr json)" for c
    by (simp add: json with_source_def)
  show ?thesis
    unfolding save_state_def Let_def state_path_facts js bindIO_lift
    by (intro bind_keep [OF triple_ctx [OF mk]] triple_bind [OF triple_ctx [OF cr]] bind_keep [OF op]
        bind_keep [OF keepT] triple_bind [OF triple_ctx [OF wr]] bind_keep [OF keepW]
        triple_bind [OF triple_ctx [OF ren]] tail)
qed

lemma link_not_state: "current_link r \<noteq> state_path r" "current_link r \<noteq> tmp_state_path pf (state_path r)"
  by (simp_all add: current_link_def state_path_def tmp_state_path_def)

lemma stage_new_version_lands:
  assumes "stage_new_version tar r v name tb m w = (Inr dir, w')"
  shows "dir = version_dir r v" and "node_at (w_fs w') (current_link r) = Some (LinkNode dir)"
proof -
  let ?dir = "version_dir r v"
  consider (new) w1 w2 where "swap_current_symlink r ?dir w1 = (Inr (), w2)"
      "w' = snd (gc_versions r v 3 w2)" "dir = ?dir"
    | (already) w1 where "sys_read_link (current_link r) w1 = (Inr ?dir, w')" "dir = ?dir"
  proof -
    from assms obtain there w1 w2 ac where
      ac: "(if \<not> there then ret False
            else bindIO (attempt (sys_read_link (current_link r))) (\<lambda>l.
              if l \<noteq> Some ?dir then bindIO (sys_remove_dir_all ?dir) (\<lambda>_. ret False) else ret True)) w1
          = (Inr ac, w2)"
      and rest: "(if ac then ret ?dir
        else
          bindIO (sys_create_dir (version_dir r (v @ ''.partial''))) (\<lambda>_.
          bindIO (extract_tarball tar tb (version_dir r (v @ ''.partial''))) (\<lambda>_.
          bindIO (locate_binary (version_dir r (v @ ''.partial'')) name) (\<lambda>found.
          bindIO (lift (ok_or [Install (BinaryMissing name)] found)) (\<lambda>src.
          bindIO (sys_metadata src) (\<lambda>_.
          bindIO (sys_chmod src 493) (\<lambda>_.
          bindIO (if butlast src \<noteq> version_dir r (v @ ''.partial'')
                    \<and> version_dir r (v @ ''.partial'') @ [name] \<noteq> src
                  then sys_rename src (version_dir r (v @ ''.partial'') @ [name]) else ret ()) (\<lambda>_.
          bindIO (ignore sys_nop) (\<lambda>_.
          bindIO (sys_rename (version_dir r (v @ ''.partial'')) ?dir) (\<lambda>_.
          bindIO (swap_current_symlink r ?dir) (\<lambda>_.
          bindIO (ignore (gc_versions r v 3)) (\<lambda>_.
          ret ?dir)))))))))))) w2 = (Inr dir, w')"
      unfolding stage_new_version_def Let_def bindIO_ok by blast
    show thesis
    proof (cases ac)
      case True
      then have "sys_read_link (current_link r) w1 = (Inr ?dir, w2)"
        using ac by (auto simp: bindIO_ok pure_ok attempt_def split: if_splits prod.splits sum.splits)
      then show thesis using rest True by (intro that(2)) (simp_all add: pure_ok)
    next
      case False
      with rest obtain w3 w4 w5 where "swap_current_symlink r ?dir w3 = (Inr (), w4)"
        "ignore (gc_versions r v 3) w4 = (Inr (), w5)" "ret ?dir w5 = (Inr dir, w')"
        unfolding if_not_P [OF False] bindIO_ok by fastforce
      then show thesis by (intro that(1)) (simp_all add: pure_ok)
    qed
  qed
  then have "dir = ?dir \<and> node_at (w_fs w') (current_link r) = Some (LinkNode ?dir)"
  proof cases
    case new
    from tripleD(2) [OF gc_keeps_link [of r "LinkNode ?dir" v 3 "\<lambda>_. True"], of w2 "()"] swap_lands [OF new(1)]
    show ?thesis using new by (simp add: ignore_def)
  next
    case already
    then show ?thesis
      by (auto simp: sys_read_link_def syscall_ok split: option.splits node.splits)
  qed
  then show "dir = ?dir" and "node_at (w_fs w') (current_link r) = Some (LinkNode dir)" by auto
qed

lemma install_lands:
  assumes "\<forall>x. faithful_state (en_platform env) x" and "uc_install_root (co_config co) = r"
    and "install env co v channel plan m tb w = (Inr dir, w')"
  shows "dir = version_dir r v \<and> node_at (w_fs w') (current_link r) = Some (LinkNode dir)
    \<and> (\<exists>prev now. holds_state (en_platform env) (state_path r) (w_fs w')
          (staged_state co v channel plan m prev now))"
proof -
  let ?pf = "en_platform env"
  obtain w1 prev w2 now w3 where
    st: "stage_new_version (en_tar env) r v (up_binary_name (co_profile co)) tb m w = (Inr dir, w1)"
    and ld: "sureS (try_load_state ?pf r) w1 = (Inr prev, w2)"
    and nw: "sureS now_io w2 = (Inr now, w3)"
    and sv: "save_state ?pf (state_path r) (staged_state co v channel plan m prev now) w3 = (Inr (), w')"
    using assms(3) unfolding install_def Let_def assms(2)
    by (auto simp: bindS_ok pureS_iff ioS_ok)
  obtain x w2' where "sureS (try_load_state ?pf r) w1 = (Inr x, w2')" "undisturbed w1 w2'"
    by (rule sure_try_load)
  then have "w_fs w2 = w_fs w1" using ld by (simp add: undisturbed_def)
  moreover have "w_fs w3 = w_fs w2" using nw by (auto simp: sureS_def ioS_def now_io_def)
  ultimately have at: "node_at (w_fs w3) (current_link r) = Some (LinkNode dir)"
    using stage_new_version_lands(2) [OF st] by simp
  let ?s = "staged_state co v channel plan m prev now"
  have "triple (\<lambda>_. True) (\<lambda>fs. node_at fs (current_link r) = Some (LinkNode dir))
      (save_state ?pf (state_path r) ?s)
      (\<lambda>_ fs. holds_state ?pf (state_path r) fs ?s \<and> node_at fs (current_link r) = Some (LinkNode dir)) (\<lambda>_. True)"
    by (rule save_lands) (use assms(1) link_not_state in blast)+
  from tripleD(2) [OF this at, of "()"] sv stage_new_version_lands(1) [OF st] show ?thesis by auto
qed

text \<open>\<open>stage\<close> in terms of its two parts.\<close>

lemma stage_ok:
  assumes "stage env co v channel ta va w = (Inr su, co', w')"
  obtains plan where "\<not> co_lock_taken co"
    and "admit env (co\<lparr>co_lock_taken := True, co_in_flight := True\<rparr>) v channel ta va = Inr plan"
    and "stage_admitted env (co\<lparr>co_lock_taken := True, co_in_flight := True\<rparr>) v channel plan w = (Inr su, w')"
  using assms unfolding stage_def Let_def
  by (auto simp: bindS_ok pureS_iff split: if_splits prod.splits)

lemma stage_error:
  assumes "stage env co v channel ta va w = (Inl e, co', w')"
  obtains "w' = w"
  | plan where "stage_admitted env (co\<lparr>co_lock_taken := True, co_in_flight := True\<rparr>) v channel plan w = (Inl e, w')"
  using assms unfolding stage_def Let_def
  by (auto simp: pureS_iff elim!: bindS_error split: if_splits prod.splits)

end
