(* ===== verification/UpgradeSafety.thy ===== *)
theory UpgradeSafety
  imports Upgrade
begin

section \<open>What a staging guarantees\<close>

text \<open>
  The properties of \<open>UpgradeCoordinator::stage\<close>, and an environment in which a staging succeeds.
\<close>

subsection \<open>A concrete environment\<close>

text \<open>An environment, a coordinator and an install root in which a staging succeeds.\<close>

definition sample_leaf :: x509 where
  "sample_leaf =
     \<lparr>x_tbs_der = Inr [], x_signature = Some [], x_signature_oid = ''1.2.840.10045.4.3.2'',
      x_spki_der = Inr [], x_not_before = 0, x_not_after = 10,
      x_extensions = Some [(oid_issuer, [1]), (oid_repo_uri, [2]), (oid_ref, [3]),
                           (oid_san, str_bytes ''https://w@main'')]\<rparr>"

definition sample_entry :: json where
  "sample_entry = json_obj [(''spec'', json_obj
     [(''data'', json_obj [(''hash'', json_obj [(''value'', JStr (hex_of (replicate 32 0)))])]),
      (''signature'', json_obj [(''publicKey'', json_obj [(''content'', JStr ''cHVi'')])])])]"

definition sample_rekor :: rekor_bundle where
  "sample_rekor = \<lparr>rb_signed_entry_timestamp = ''c2V0'',
     rb_payload = \<lparr>rp_body = ''Ym9keQ'', rp_integrated_time = 5, rp_log_index = 1, rp_log_id = ''l''\<rparr>\<rparr>"

definition sample_bundle :: cosign_bundle where
  "sample_bundle = \<lparr>cb_base64_signature = Some ''c2ln'', cb_cert = Some (pem_begin @ pem_end),
     cb_rekor_bundle = Some sample_rekor\<rparr>"

definition sample_sigstore :: "unit sigstore" where
  "sample_sigstore =
     \<lparr>sg_parse_bundle = (\<lambda>_. Inr sample_bundle),
      sg_trust_root = Inr \<lparr>tr_fulcio_certs = Inr [[7]], tr_rekor_keys = Inr [[8]]\<rparr>,
      sg_base64 = (\<lambda>bs. Inr (if bs = [] then [9] else utf8_encode (pem_begin @ pem_end))),
      sg_json = (\<lambda>_. Inr sample_entry), sg_sha256 = (\<lambda>_. replicate 32 0),
      sg_x509 = (\<lambda>_. Inr sample_leaf), sg_key = (\<lambda>_ _. Inr ()), sg_verify = (\<lambda>_ _ _. Inr ()),
      sg_utf8_string = (\<lambda>bs. Some (if bs = [1] then ''i'' else if bs = [2] then ''r'' else ''main''))\<rparr>"

definition sample_profile :: upgrade_profile where
  "sample_profile = \<lparr>up_repo = ''r'', up_binary_name = ''gw'', up_device_type = ''dev'',
     up_allowed_signers = [\<lparr>as_issuer = ''i'', as_repo = ''r'', as_ref_pattern = ''ma*'', as_workflow = ''https://w''\<rparr>]\<rparr>"

definition sample_manifest :: manifest where
  "sample_manifest = \<lparr>mf_version = ''1.2.0'', mf_device_type = ''dev'', mf_channel = ''stable'',
     mf_released_at = ''now'', mf_sequence = 8,
     mf_artefacts = [\<lparr>ma_arch = ''x86_64-linux'', ma_variant = ''default'', ma_url = ''https://github.com/a'',
                      ma_sha256 = hex_of (replicate 32 0)\<rparr>]\<rparr>"

definition sample_env :: "(unit, unit, install_state option) upgrade_env" where
  "sample_env =
     \<lparr>en_parse_url = (\<lambda>_. Inr \<lparr>url_scheme = ''https'', url_host_of = Some (Domain ''github.com''),
         url_host_str = Some ''github.com'', url_port_or_known_default = Some 443\<rparr>),
      en_semver = \<lparr>sl_parse = (\<lambda>v. Inr \<lparr>sv_major = 1, sv_minor = (if v = ''1.2.0'' then 2 else 1),
           sv_patch = 0, sv_pre = [], sv_build = []\<rparr>),
         sl_show = (\<lambda>_. ''1.2.0''), sl_less = (\<lambda>_ _. False)\<rparr>,
      en_sigstore = sample_sigstore, en_client = Inr (),
      en_http = (\<lambda>_ _ _. Inr \<lparr>rs_status = 200, rs_content_length = None, rs_chunks = [Inr [97]]\<rparr>),
      en_sha256 = (\<lambda>_. replicate 32 0), en_manifest_json = (\<lambda>_. Inr sample_manifest),
      en_tar = \<lparr>tar_entries = (\<lambda>_. Inr [Inr ()]),
         tar_path = (\<lambda>_. Inr \<lparr>ep_absolute = False, ep_components = [Normal ''gw'']\<rparr>),
         tar_unpack = (\<lambda>_ target fs t. Inr (put_node t target (FileNode 420 None) fs))\<rparr>,
      en_platform = plain_platform 1, en_printer = \<lparr>pr_debug = id, pr_status = show_nat\<rparr>,
      en_arch = ''x86_64'', en_os = ''linux''\<rparr>"

text \<open>The disk an earlier staging of the same version left when it was cut off before its state was saved.\<close>

definition cut_off_fs :: "install_state option fs" where
  "cut_off_fs =
     [([''r''], 0, DirNode), (state_path [''r''], 0, FileNode 420 (Some sample_state)),
      ([''r'', ''versions''], 0, DirNode), ([''r'', ''versions'', ''1.2.0''], 0, DirNode),
      ([''r'', ''current''], 0, LinkNode [''r'', ''versions'', ''1.2.0''])]"

definition sample_coordinator :: coordinator where
  "sample_coordinator = coordinator_new sample_profile (sample_config\<lparr>uc_enabled := True\<rparr>) ''1.1.0''"

lemma sample_text: "from_utf8 [97] = Some [97]"
  by code_simp

lemma sample_fetch:
  assumes "length u \<le> 2048"
  shows "fst (fetch_text (en_parse_url sample_env) (en_client sample_env) (en_http sample_env k) u) = Inr [97]"
  using assms
  by (simp add: fetch_text_def sample_env_def validate_url_host_def allowed_url_hosts_def max_attempts_def
      numeral_3_eq_3 is_success_def max_manifest_bytes_def sample_text bail_if_def ok_or_def with_source_def)

lemma sample_pem: "pem_to_der sample_sigstore (pem_begin @ pem_end) = Inr [9]"
  "from_utf8 (utf8_encode (pem_begin @ pem_end)) = Some (pem_begin @ pem_end)"
  by code_simp+

lemma sample_identity:
  "list_ex (signer_matches (identity_of_extensions sample_sigstore (x_extensions sample_leaf)))
     (up_allowed_signers sample_profile)"
  by code_simp

lemma sample_pointers:
  "pointer_str sample_entry [''spec'', ''data'', ''hash'', ''value''] = Some (hex_of (replicate 32 0))"
  "pointer_str sample_entry [''spec'', ''signature'', ''publicKey'', ''content''] = Some ''cHVi''"
  by (simp_all add: pointer_str_def sample_entry_def del: replicate.simps hex_of_simps)

lemma sample_authentic:
  "bundle_authentic sample_sigstore [97] [97] (up_allowed_signers sample_profile)"
proof -
  let ?sg = sample_sigstore
  have chains: "leaf_chains ?sg [[7]] sample_leaf"
    by (simp add: leaf_chains_def ca_signed_def sample_sigstore_def sample_leaf_def scheme_for_oid_def)
  have binds: "entry_binds ?sg ''Ym9keQ'' [97] [9]"
    unfolding entry_binds_def using sample_pem sample_pointers
    by (intro exI [of _ "utf8_encode (pem_begin @ pem_end)"] exI [of _ sample_entry])
      (auto simp: sample_sigstore_def str_bytes_def eq_ignore_case_def simp del: replicate.simps hex_of_simps)
  have stamped: "entry_timestamped ?sg sample_rekor [[8]]"
    by (simp add: entry_timestamped_def rekor_key_signed_def sample_sigstore_def)
  have signed: "leaf_signed ?sg sample_leaf ''c2ln'' [97]"
    by (simp add: leaf_signed_def sample_sigstore_def sample_leaf_def)
  have root: "sg_parse_bundle ?sg [97] = Inr sample_bundle" "sg_x509 ?sg [9] = Inr sample_leaf"
    "sg_trust_root ?sg = Inr \<lparr>tr_fulcio_certs = Inr [[7]], tr_rekor_keys = Inr [[8]]\<rparr>"
    by (simp_all add: sample_sigstore_def)
  have "cb_cert sample_bundle = Some (pem_begin @ pem_end)" "cb_rekor_bundle sample_bundle = Some sample_rekor"
    "cb_base64_signature sample_bundle = Some ''c2ln''" "sint (x_not_before sample_leaf) \<le> 5"
    "5 \<le> sint (x_not_after sample_leaf)" "rp_integrated_time (rb_payload sample_rekor) = 5"
    "rp_body (rb_payload sample_rekor) = ''Ym9keQ''"
    by (simp_all add: sample_bundle_def sample_leaf_def sample_rekor_def)
  then show ?thesis
    unfolding bundle_authentic_def using root chains binds stamped signed sample_pem(1) sample_identity
    by (intro exI [of _ sample_bundle] exI [of _ "pem_begin @ pem_end"] exI [of _ "''c2ln''"]
        exI [of _ sample_rekor] exI [of _ "\<lparr>tr_fulcio_certs = Inr [[7]], tr_rekor_keys = Inr [[8]]\<rparr>"]
        exI [of _ "[[7]]"] exI [of _ "[[8]]"] exI [of _ "[9]"] exI [of _ sample_leaf]) simp
qed

lemma sample_trusted:
  "trusted_manifest sample_env (sample_coordinator\<lparr>co_lock_taken := True, co_in_flight := True\<rparr>) ''1.2.0''
     ''stable'' ''https://github.com/r/releases/download/v1.2.0'' = Inr sample_manifest"
proof -
  have "validate_request (en_parse_url sample_env) sample_manifest ''1.2.0'' ''stable'' ''dev'' = Inr ()"
    by code_simp
  moreover have "co_profile sample_coordinator = sample_profile"
    "up_device_type sample_profile = ''dev''" "en_manifest_json sample_env [97] = Inr sample_manifest"
    "en_sigstore sample_env = sample_sigstore"
    by (simp_all add: sample_coordinator_def coordinator_new_def sample_profile_def sample_env_def)
  ultimately show ?thesis
    using sample_authentic
    by (simp add: trusted_manifest_def sample_fetch verify_bundle_iff [symmetric])
qed

lemma sample_tarball:
  "fetch_tarball sample_env sample_manifest \<lparr>pl_arch = ''x86_64-linux'', pl_variant = ''default'',
     pl_release_base = ''https://github.com/r/releases/download/v1.2.0''\<rparr> = Inr [97]"
proof -
  have "fst (fetch_with_sha256 (en_parse_url sample_env) (en_client sample_env) (en_sha256 sample_env)
      (en_http sample_env 2) ''https://github.com/a'' (hex_of (replicate 32 0))) = Inr [97]"
    using hex_of_hexdigits [of "replicate 32 0"]
    by (simp add: fetch_with_sha256_def sample_env_def validate_url_host_def allowed_url_hosts_def
        max_attempts_def numeral_3_eq_3 is_success_def max_tarball_bytes_def checked_body_def
        eq_ignore_case_def bail_if_def ok_or_def list_all_iff with_source_def del: hex_of_simps)
  then show ?thesis
    by (simp add: fetch_tarball_def pick_artefact_def sample_manifest_def ok_or_def del: hex_of_simps replicate.simps)
qed

lemma sample_admitted:
  "is_ok (fst (stage_admitted sample_env (sample_coordinator\<lparr>co_lock_taken := True, co_in_flight := True\<rparr>)
     ''1.2.0'' ''stable'' \<lparr>pl_arch = ''x86_64-linux'', pl_variant = ''default'',
     pl_release_base = ''https://github.com/r/releases/download/v1.2.0''\<rparr> (calm_world (cut_off_fs))))"
  unfolding stage_admitted_def Let_def stage_plan.select_convs sample_trusted sample_tarball bindS_pure
  by code_simp

lemma sample_run:
  obtains su co' w' where "stage sample_env sample_coordinator ''1.2.0'' ''stable'' None None
     (calm_world (cut_off_fs)) = (Inr su, co', w')"
proof -
  let ?held = "sample_coordinator\<lparr>co_lock_taken := True, co_in_flight := True\<rparr>"
  let ?plan = "\<lparr>pl_arch = ''x86_64-linux'', pl_variant = ''default'',
     pl_release_base = ''https://github.com/r/releases/download/v1.2.0''\<rparr>"
  have adm: "admit sample_env ?held ''1.2.0'' ''stable'' None None = Inr ?plan" by code_simp
  have free: "co_lock_taken sample_coordinator = False"
    by (simp add: sample_coordinator_def coordinator_new_def)
  obtain r w' where run: "stage_admitted sample_env ?held ''1.2.0'' ''stable'' ?plan
      (calm_world (cut_off_fs)) = (r, w')" by (rule prod.exhaust)
  with sample_admitted obtain su where "r = Inr su" by (auto simp only: fst_conv is_ok_iff)
  then show thesis
    using that run unfolding stage_def free if_False Let_def adm bindS_pure by (simp only: prod.case)
qed

subsection \<open>What each gate has let through\<close>

lemma admitted_gates:
  assumes "admit env co version channel target_arch variant = Inr plan"
  shows "uc_enabled (co_config co)" and "channel \<in> set (uc_allowed_channels (co_config co))"
    and "\<exists>target current. sl_parse (en_semver env) version = Inr target
       \<and> sl_parse (en_semver env) (co_current_version co) = Inr current
       \<and> check_version_window (en_semver env) target current (co_config co) = Inr ()"
    and "derive_release_base_url (en_parse_url env) (en_semver env) (up_repo (co_profile co)) version
       = Inr (pl_release_base plan)"
  using assms by (auto simp: admit_def Let_def result_simps)

lemma trusted_manifest_gates:
  assumes "trusted_manifest env co version channel base = Inr m"
  obtains mb bb where
    "fst (fetch_text (en_parse_url env) (en_client env) (en_http env 0) (base @ ''/manifest.json'')) = Inr mb"
    "bundle_authentic (en_sigstore env) mb bb (up_allowed_signers (co_profile co))" "en_manifest_json env mb = Inr m"
    "mf_version m = version" "mf_channel m = channel" "mf_device_type m = up_device_type (co_profile co)"
    "list_all (artefact_ok (en_parse_url env)) (mf_artefacts m)"
  using assms by (auto simp: trusted_manifest_def result_simps verify_bundle_iff validate_request_iff)

lemma fetched_tarball_gates:
  assumes "fetch_tarball env m plan = Inr tb"
  obtains a k where "pick_artefact m (pl_arch plan) (pl_variant plan) = Some a" "served (en_http env 2) (ma_url a) k tb"
    "eq_ignore_case (hex_of (en_sha256 env tb)) (ma_sha256 a)"
proof -
  obtain a where a: "pick_artefact m (pl_arch plan) (pl_variant plan) = Some a"
    "fst (fetch_with_sha256 (en_parse_url env) (en_client env) (en_sha256 env) (en_http env 2)
       (ma_url a) (ma_sha256 a)) = Inr tb"
    using assms by (auto simp: fetch_tarball_def result_simps)
  have "\<exists>k. served (en_http env 2) (ma_url a) k tb"
    "eq_ignore_case (hex_of (en_sha256 env tb)) (ma_sha256 a)"
    using a(2) fetch_sha_loop_ok [of "en_sha256 env" "en_http env 2" "ma_url a" "ma_sha256 a"]
    by (fastforce simp: fetch_with_sha256_def split: sum.splits)+
  then show ?thesis using that a(1) by blast
qed

subsection \<open>Properties\<close>

text \<open>C18: a staging that is refused leaves the disk alone. Unless the code is \<open>upgrade_extract_failed\<close>,
  the tree after a failed \<open>stage\<close> is the tree before, and so is every tree in between: neither policy,
  network, signature, manifest, sequence nor digest failures get as far as the install.\<close>

theorem refusals_leave_the_disk_alone:
  assumes "stage env co version channel target_arch variant w = (Inl e, co', w')"
    and "ue_code e \<noteq> ''upgrade_extract_failed''"
  shows "w_fs w' = w_fs w \<and> (\<exists>ts. w_trail w' = w_trail w @ ts \<and> (\<forall>fs\<in>set ts. fs = w_fs w))"
proof (rule stage_error [OF assms(1)])
  fix plan
  assume "stage_admitted env (co\<lparr>co_lock_taken := True, co_in_flight := True\<rparr>) version channel plan w
    = (Inl e, w')"
  from stage_admitted_error [OF this assms(2)] show ?thesis
    by (auto simp: undisturbed_def list_all_iff)
qed simp

text \<open>C1: a version is staged only through every gate. When \<open>stage\<close> succeeds, upgrades are enabled and
  not manual-only, the channel is allowed, the version lies in the window of the running one, the manifest
  bytes were served from the release URL and are authentic for an allowed signer, the manifest is for this
  version, channel and device, its sequence is above that of the stored state, and the tarball hashes to
  the digest the manifest declares for this architecture and variant.\<close>

theorem staged_only_through_every_gate:
  assumes "stage env co version channel target_arch variant w = (Inr su, co', w')"
  shows "\<not> co_lock_taken co \<and> uc_enabled (co_config co) \<and> \<not> uc_manual_only (co_config co)
    \<and> channel \<in> set (uc_allowed_channels (co_config co))
    \<and> (\<exists>target current. sl_parse (en_semver env) version = Inr target
         \<and> sl_parse (en_semver env) (co_current_version co) = Inr current
         \<and> check_version_window (en_semver env) target current (co_config co) = Inr ())
    \<and> (\<exists>base mb bb m a tarball k.
         derive_release_base_url (en_parse_url env) (en_semver env) (up_repo (co_profile co)) version = Inr base
         \<and> fst (fetch_text (en_parse_url env) (en_client env) (en_http env 0) (base @ ''/manifest.json'')) = Inr mb
         \<and> bundle_authentic (en_sigstore env) mb bb (up_allowed_signers (co_profile co))
         \<and> en_manifest_json env mb = Inr m
         \<and> mf_version m = version \<and> mf_channel m = channel \<and> mf_device_type m = up_device_type (co_profile co)
         \<and> (calm w \<longrightarrow> (\<forall>s. holds_state (en_platform env) (state_path (uc_install_root (co_config co))) (w_fs w) s
              \<longrightarrow> st_last_sequence s < mf_sequence m))
         \<and> a \<in> set (mf_artefacts m) \<and> ma_arch a = su_arch su \<and> ma_variant a = su_variant su
         \<and> artefact_ok (en_parse_url env) a \<and> served (en_http env 2) (ma_url a) k tarball
         \<and> eq_ignore_case (hex_of (en_sha256 env tarball)) (ma_sha256 a))"
proof -
  let ?co = "co\<lparr>co_lock_taken := True, co_in_flight := True\<rparr>"
  obtain plan where free: "\<not> co_lock_taken co"
    and adm: "admit env ?co version channel target_arch variant = Inr plan"
    and run: "stage_admitted env ?co version channel plan w = (Inr su, w')"
    by (rule stage_ok [OF assms])
  obtain m state tb w1 w2 where u: "undisturbed w w1" "w_fault w1 = w_fault w"
    and ld: "sureS (try_load_state (en_platform env) (uc_install_root (co_config ?co))) w1 = (Inr state, w2)"
    and tm: "trusted_manifest env ?co version channel (pl_release_base plan) = Inr m"
    and sq: "check_sequence m state = Inr ()" and ft: "fetch_tarball env m plan = Inr tb"
    and man: "\<not> uc_manual_only (co_config ?co)"
    and su: "su_variant su = pl_variant plan" "su_arch su = pl_arch plan"
    by (rule stage_admitted_ok [OF run])
  have seqn: "st_last_sequence s < mf_sequence m"
    if "calm w" "holds_state (en_platform env) (state_path (uc_install_root (co_config co))) (w_fs w) s" for s
    using reload_reads [OF _ _ ld [simplified], of s] u that sq
    by (auto simp: calm_def undisturbed_def check_sequence_def result_simps)
  obtain mb bb where mb: "fst (fetch_text (en_parse_url env) (en_client env) (en_http env 0)
        (pl_release_base plan @ ''/manifest.json'')) = Inr mb"
      "bundle_authentic (en_sigstore env) mb bb (up_allowed_signers (co_profile co))" "en_manifest_json env mb = Inr m"
      "mf_version m = version" "mf_channel m = channel" "mf_device_type m = up_device_type (co_profile co)"
      "list_all (artefact_ok (en_parse_url env)) (mf_artefacts m)"
    using trusted_manifest_gates [OF tm] by auto
  obtain a k where a: "pick_artefact m (pl_arch plan) (pl_variant plan) = Some a"
      "served (en_http env 2) (ma_url a) k tb" "eq_ignore_case (hex_of (en_sha256 env tb)) (ma_sha256 a)"
    by (rule fetched_tarball_gates [OF ft])
  have picked: "a \<in> set (mf_artefacts m)" "ma_arch a = su_arch su" "ma_variant a = su_variant su"
      "artefact_ok (en_parse_url env) a"
    using pick_artefact_Some [OF a(1)] su mb(7) by (auto simp: list_all_iff)
  show ?thesis
    using free man admitted_gates [OF adm]
    by (intro conjI exI [of _ "pl_release_base plan"] exI [of _ mb] exI [of _ bb] exI [of _ m] exI [of _ a]
        exI [of _ tb] exI [of _ k] mb a picked impI allI) (simp_all add: seqn)
qed

theorem refusals_leave_the_disk_alone_witness:
  "\<exists>e co' w'. stage sample_env (coordinator_new sample_profile upgrade_config_default ''1.1.0'') ''1.2.0''
       ''stable'' None None (calm_world (cut_off_fs)) = (Inl e, co', w')
     \<and> ue_code e = ''upgrade_disabled'' \<and> w_fs w' = cut_off_fs"
proof -
  let ?co = "coordinator_new sample_profile upgrade_config_default ''1.1.0''"
  let ?e = "upgrade_error_new ''upgrade_disabled'' UpgradesDisabled"
  obtain co' w' where run: "stage sample_env ?co ''1.2.0'' ''stable'' None None (calm_world (cut_off_fs))
      = (Inl ?e, co', w')"
    by (auto simp: stage_def coordinator_new_def upgrade_config_default_def admit_def bindS_def pureS_def
        bail_if_def Let_def)
  have code: "ue_code ?e = ''upgrade_disabled''" by (simp add: upgrade_error_new_def)
  then have "ue_code ?e \<noteq> ''upgrade_extract_failed''" by simp
  from refusals_leave_the_disk_alone [OF run this] run code show ?thesis
    by (auto simp: calm_world_def)
qed

theorem staged_only_through_every_gate_witness:
  "\<exists>su co' w'. stage sample_env sample_coordinator ''1.2.0'' ''stable'' None None
       (calm_world (cut_off_fs)) = (Inr su, co', w')
     \<and> uc_enabled (co_config sample_coordinator) \<and> ''stable'' \<in> set (uc_allowed_channels (co_config sample_coordinator))"
proof -
  obtain su co' w' where run: "stage sample_env sample_coordinator ''1.2.0'' ''stable'' None None
      (calm_world (cut_off_fs)) = (Inr su, co', w')"
    by (rule sample_run)
  from staged_only_through_every_gate [OF run] run show ?thesis by blast
qed

text \<open>C19: a staged version waits for its health check. After a successful \<open>stage\<close>, \<open>current\<close> links to the
  new version's directory, and \<open>state.json\<close> names it as pending, never booted, with a version to fall back
  to, whatever was on the disk before and whichever calls that may fail silently did.\<close>

theorem staged_version_awaits_health:
  assumes "\<forall>x. faithful_state (en_platform env) x"
    and "stage env co version channel target_arch variant w = (Inr su, co', w')"
  shows "su_install_dir su = version_dir (uc_install_root (co_config co)) version
    \<and> node_at (w_fs w') (current_link (uc_install_root (co_config co))) = Some (LinkNode (su_install_dir su))
    \<and> (\<exists>s. holds_state (en_platform env) (state_path (uc_install_root (co_config co))) (w_fs w') s
         \<and> st_current_version s = version \<and> st_status s = PendingHealth \<and> st_boot_attempts s = 0
         \<and> st_previous_version s \<noteq> None \<and> st_last_health_at s = None)"
proof -
  let ?co = "co\<lparr>co_lock_taken := True, co_in_flight := True\<rparr>"
  obtain plan where run: "stage_admitted env ?co version channel plan w = (Inr su, w')"
    by (rule stage_ok [OF assms(2)])
  obtain m tb w3 w4 where i: "install env ?co version channel plan m tb w3 = (Inr (su_install_dir su), w4)"
    and "w_fs w' = w_fs w4"
    by (rule stage_admitted_ok [OF run])
  moreover have "uc_install_root (co_config ?co) = uc_install_root (co_config co)" by simp
  ultimately show ?thesis
    using install_lands [OF assms(1) _ i] by (auto simp: staged_state_def)
qed

theorem staged_version_awaits_health_witness:
  "\<exists>su co' w'. stage sample_env sample_coordinator ''1.2.0'' ''stable'' None None
       (calm_world (cut_off_fs)) = (Inr su, co', w')
     \<and> node_at (w_fs w') [''r'', ''current''] = Some (LinkNode [''r'', ''versions'', ''1.2.0''])"
proof -
  obtain su co' w' where run: "stage sample_env sample_coordinator ''1.2.0'' ''stable'' None None
      (calm_world (cut_off_fs)) = (Inr su, co', w')"
    by (rule sample_run)
  have f: "\<forall>x. faithful_state (en_platform sample_env) x" by (simp add: sample_env_def)
  have "uc_install_root (co_config sample_coordinator) = [''r'']"
    by (simp add: sample_coordinator_def coordinator_new_def sample_config_def)
  with staged_version_awaits_health [OF f run] run show ?thesis
    by (simp add: current_link_def version_dir_def)
qed

text \<open>C38: with \<open>manual_only\<close> set nothing is ever installed. \<open>stage\<close> always fails and leaves the disk as it
  was, and \<open>manual_apply_pending\<close> afterwards fails too, because nothing stores the status it asks for:
  the message that the version is staged and waits for the signal is never true.\<close>

theorem manual_only_never_installs:
  assumes "uc_manual_only (co_config co)" and "uc_install_root (co_config co) = r"
    and "holds_state (en_platform env) (state_path r) (w_fs w) s" and "st_status s \<noteq> StagedManual"
    and "stage env co version channel target_arch variant w = (res, co', w')"
  shows "\<not> is_ok res \<and> w_fs w' = w_fs w \<and> \<not> is_ok (fst (manual_apply_pending (en_platform env) r w'))"
proof -
  let ?co = "co\<lparr>co_lock_taken := True, co_in_flight := True\<rparr>"
  have "\<not> is_ok res"
    using staged_only_through_every_gate [of env co version channel target_arch variant w _ co' w'] assms(1,5)
    by (cases res) (auto simp: result_simps)
  then obtain e where e: "res = Inl e" by (cases res) (auto simp: result_simps)
  have "undisturbed w w'"
  proof (rule stage_error [OF assms(5) [unfolded e]])
    show "undisturbed w w'" if "w' = w" using that by simp
    show "undisturbed w w'" if "stage_admitted env ?co version channel plan w = (Inl e, w')" for plan
      by (rule manual_undisturbed [OF that]) (simp add: assms(1))
  qed
  then have fs: "w_fs w' = w_fs w" by (simp add: undisturbed_def)
  have "\<not> is_ok (fst (manual_apply_pending (en_platform env) r w'))"
    by (rule manual_apply_needs_staged [of _ r _ s]) (use assms(3,4) fs in simp_all)
  then show ?thesis using \<open>\<not> is_ok res\<close> fs by blast
qed

theorem manual_only_never_installs_witness:
  "\<exists>res co' w'. stage sample_env (coordinator_new sample_profile (sample_config\<lparr>uc_manual_only := True\<rparr>) ''1.1.0'')
       ''1.2.0'' ''stable'' None None (calm_world (sample_fs True)) = (res, co', w')
     \<and> \<not> is_ok (fst (manual_apply_pending (en_platform sample_env) [''r''] w'))"
proof -
  let ?co = "coordinator_new sample_profile (sample_config\<lparr>uc_manual_only := True\<rparr>) ''1.1.0''"
  let ?w = "calm_world (sample_fs True)"
  let ?s = "sample_state\<lparr>st_boot_attempts := 3\<rparr>"
  obtain res co' w' where run: "stage sample_env ?co ''1.2.0'' ''stable'' None None ?w = (res, co', w')"
    by (metis prod.exhaust)
  have co: "uc_manual_only (co_config ?co)" "uc_install_root (co_config ?co) = [''r'']"
    by (simp_all add: coordinator_new_def sample_config_def)
  have "holds_state (en_platform sample_env) (state_path [''r'']) (w_fs ?w) ?s"
    using sample_intact [of True] by (simp add: intact_def sample_env_def)
  moreover have "st_status ?s \<noteq> StagedManual" by (simp add: sample_state_def)
  ultimately show ?thesis
    using manual_only_never_installs [OF co _ _ run] run by blast
qed

text \<open>The code \<open>upgrade_rekor_invalid\<close> is never reported. Whatever makes \<open>verify_manifest_bundle\<close>
  fail, its error is mapped to \<open>upgrade_identity_not_allowed\<close> exactly when the allowlist is empty, the
  identity is refused or the claims cannot be read, and to \<open>upgrade_signature_invalid\<close> otherwise: a failed
  Rekor check included, because only the outermost message is searched and it spells Rekor with a capital.\<close>

lemma rekor_code_is_never_reported:
  assumes "verify_manifest_bundle sg manifest_bytes bundle_bytes signers = Inl e"
  shows "ue_code (map_verify_error pr e) =
     (case e of
        Verify AllowlistEmpty # _ \<Rightarrow> ''upgrade_identity_not_allowed''
      | Verify IdentityUnreadable # _ \<Rightarrow> ''upgrade_identity_not_allowed''
      | Verify (IdentityNotAllowed _ _ _ _) # _ \<Rightarrow> ''upgrade_identity_not_allowed''
      | _ \<Rightarrow> ''upgrade_signature_invalid'')"
proof -
  obtain m es where e: "e = Verify m # es"
    by (rule verify_error_head [OF assms])
  show ?thesis by (cases m) (simp_all add: e verify_codes)
qed

text \<open>The code for a failed download is read off the message. A digest mismatch is always reported as
  \<open>upgrade_checksum_mismatch\<close>, but so is a network error or an HTTP status on a URL that has the word
  \<open>checksum\<close> in it.\<close>

lemma checksum_code_is_read_off_the_text:
  "ue_code (map_tarball_error pr [Download (ChecksumMismatch u expected got n)]) = ''upgrade_checksum_mismatch''
   \<and> ue_code (map_tarball_error pr [Download (NetworkError (a @ ''checksum'' @ b) err)]) = ''upgrade_checksum_mismatch''
   \<and> ue_code (map_tarball_error pr [Download (HttpStatus s (a @ ''checksum'' @ b))]) = ''upgrade_checksum_mismatch''"
proof -
  have "str_contains ''checksum'' (''checksum'' @ c)" for c
    unfolding str_contains_iff by (metis append_Nil)
  then have "str_contains ''checksum'' (p @ ''checksum'' @ c)" for p c
    by (rule str_contains_append)
  from this [of "[]" "'' mismatch for '' @ u @ '': expected SHA-256 '' @ expected @ '', got '' @ got
      @ '' (size '' @ show_nat n @ '' bytes)''"]
    this [of "''network error fetching '' @ a" "b @ '': '' @ err"]
    this [of "''HTTP '' @ pr_status pr s @ '' from '' @ a" b]
  show ?thesis
    by (simp add: map_tarball_error_def mentions_def first_text_def upgrade_error_new_def)
qed

end
