(* ===== verification/ErrorCodes.thy ===== *)
theory ErrorCodes
  imports UpgradeSafety
begin

section \<open>The upgrade error codes (error_codes in src/upgrade/mod.rs)\<close>

text \<open>
  The module \<open>error_codes\<close> lists the codes an \<open>UpgradeError\<close> may carry. This theory sets the list against the
  codes \<open>stage\<close> really returns.
\<close>

definition error_codes :: "string list" where
  "error_codes =
     [''upgrade_disabled'', ''upgrade_channel_not_allowed'', ''upgrade_version_too_old'',
      ''upgrade_version_invalid'', ''upgrade_sequence_too_old'', ''upgrade_signature_invalid'',
      ''upgrade_identity_not_allowed'', ''upgrade_rekor_invalid'', ''upgrade_in_progress'',
      ''upgrade_url_invalid'', ''upgrade_checksum_mismatch'', ''upgrade_extract_failed'',
      ''upgrade_disk_full'', ''upgrade_network_error'', ''upgrade_manifest_invalid'',
      ''upgrade_variant_mismatch'', ''upgrade_arch_mismatch'']"

text \<open>The codes of the list that nothing returns.\<close>

definition unused_codes :: "string list" where
  "unused_codes = [''upgrade_rekor_invalid'', ''upgrade_disk_full'', ''upgrade_variant_mismatch'']"

definition used_code :: "string \<Rightarrow> bool" where
  "used_code c = (c \<in> set error_codes \<and> c \<notin> set unused_codes)"

lemma used_codes [simp]:
  "used_code ''upgrade_disabled''" "used_code ''upgrade_channel_not_allowed''"
  "used_code ''upgrade_version_too_old''" "used_code ''upgrade_version_invalid''"
  "used_code ''upgrade_sequence_too_old''" "used_code ''upgrade_signature_invalid''"
  "used_code ''upgrade_identity_not_allowed''" "used_code ''upgrade_in_progress''"
  "used_code ''upgrade_url_invalid''" "used_code ''upgrade_checksum_mismatch''"
  "used_code ''upgrade_extract_failed''" "used_code ''upgrade_network_error''"
  "used_code ''upgrade_manifest_invalid''" "used_code ''upgrade_arch_mismatch''"
  "\<not> used_code ''upgrade_staged_manual''"
  by (simp_all add: used_code_def error_codes_def unused_codes_def)

subsection \<open>The codes of each part of \<open>stage\<close>\<close>

lemma admit_code: "admit env co v ch ta va = Inl e \<Longrightarrow> used_code (ue_code e)"
  by (auto simp: admit_def Let_def result_simps upgrade_error_new_def split: if_splits sum.splits)

lemma verify_code:
  assumes "verify_manifest_bundle sg m b signers = Inl e"
  shows "used_code (ue_code (map_verify_error pr e))"
proof -
  obtain v es where "e = Verify v # es" by (rule verify_error_head [OF assms])
  then show ?thesis by (cases v) (simp_all add: verify_codes)
qed

lemma trusted_manifest_code: "trusted_manifest env co v ch base = Inl e \<Longrightarrow> used_code (ue_code e)"
  by (auto simp: trusted_manifest_def result_simps upgrade_error_new_def verify_code split: sum.splits)

lemma check_sequence_code: "check_sequence m s = Inl e \<Longrightarrow> used_code (ue_code e)"
  by (auto simp: check_sequence_def bail_if_def upgrade_error_new_def split: option.splits if_splits)

lemma fetch_tarball_code: "fetch_tarball env m plan = Inl e \<Longrightarrow> used_code (ue_code e)"
  by (auto simp: fetch_tarball_def map_tarball_error_def result_simps upgrade_error_new_def split: sum.splits option.splits)

lemma sure_send: "sureS (send_event ev) w \<noteq> (Inl e, w')"
  by (simp add: sure_event)

lemma sure_load: "sureS (try_load_state pf r) w \<noteq> (Inl e, w')"
  by (rule sure_try_load [of pf r w]) simp

lemma stage_admitted_code:
  assumes "stage_admitted env co v ch plan w = (Inl e, w')"
  shows "if ue_code e = ''upgrade_staged_manual'' then uc_manual_only (co_config co) else used_code (ue_code e)"
proof -
  have use: "used_code (ue_code e) \<Longrightarrow> ?thesis" by auto
  show ?thesis
    using assms unfolding stage_admitted_def Let_def
    by (elim bindS_error)
      (auto simp: sure_send sure_load pureS_iff bail_if_def upgrade_error_new_def split: if_splits
        dest!: trusted_manifest_code check_sequence_code fetch_tarball_code install_error intro!: use)
qed

text \<open>C17: every refusal of \<open>stage\<close> carries one of the documented codes, with one exception, and three of the
  documented codes are never used. A manual-only gateway that got as far as the install returns
  \<open>upgrade_staged_manual\<close>, which the list does not have; no failure at all returns \<open>upgrade_rekor_invalid\<close>,
  \<open>upgrade_disk_full\<close> or \<open>upgrade_variant_mismatch\<close>. The lock's own refusal is \<open>upgrade_in_progress\<close>, and it
  is the only one while another staging runs.\<close>

theorem stage_reports_known_codes:
  assumes "stage env co version channel target_arch variant w = (Inl e, co', w')"
  shows "if co_lock_taken co then ue_code e = ''upgrade_in_progress''
     else if ue_code e = ''upgrade_staged_manual'' then uc_manual_only (co_config co)
     else ue_code e \<in> set error_codes \<and> ue_code e \<notin> set unused_codes"
proof (cases "co_lock_taken co")
  case True
  then show ?thesis using assms by (auto simp: stage_def upgrade_error_new_def)
next
  case False
  let ?held = "co\<lparr>co_lock_taken := True, co_in_flight := True\<rparr>"
  consider "admit env ?held version channel target_arch variant = Inl e"
    | plan where "stage_admitted env ?held version channel plan w = (Inl e, w')"
    using assms False unfolding stage_def Let_def
    by (auto simp: pureS_iff elim!: bindS_error split: prod.splits)
  then show ?thesis
  proof cases
    case 1
    then have code: "used_code (ue_code e)" by (rule admit_code)
    then have "ue_code e \<noteq> ''upgrade_staged_manual''" by auto
    with code show ?thesis using False by (simp add: used_code_def)
  next
    case 2
    from stage_admitted_code [OF this] show ?thesis using False by (simp add: used_code_def split: if_splits)
  qed
qed

theorem stage_reports_known_codes_witness:
  "\<exists>e co' w'. stage sample_env (coordinator_new sample_profile upgrade_config_default ''1.1.0'') ''1.2.0''
       ''stable'' None None (calm_world (cut_off_fs)) = (Inl e, co', w')
     \<and> ue_code e = ''upgrade_disabled'' \<and> ue_code e \<in> set error_codes"
proof -
  let ?co = "coordinator_new sample_profile upgrade_config_default ''1.1.0''"
  let ?e = "upgrade_error_new ''upgrade_disabled'' UpgradesDisabled"
  obtain co' w' where run: "stage sample_env ?co ''1.2.0'' ''stable'' None None (calm_world (cut_off_fs))
      = (Inl ?e, co', w')"
    by (auto simp: stage_def coordinator_new_def upgrade_config_default_def admit_def bindS_def pureS_def
        bail_if_def Let_def)
  from stage_reports_known_codes [OF run] show ?thesis
    using run by (auto simp: coordinator_new_def upgrade_error_new_def)
qed

end
