(* ===== verification/SequenceGuard.thy ===== *)
theory SequenceGuard
  imports Upgrade
begin

section \<open>The sequence number between two upgrades (src/upgrade/watchdog.rs, state.rs)\<close>

text \<open>
  \<open>stage\<close> refuses a manifest whose sequence is not above the stored one. Between two stages the watchdog reads and
  rewrites \<open>state.json\<close> at every boot, beat and tick, and a crash or a failing call may hit any of these. This
  theory shows that none of it changes the stored sequence.
\<close>

text \<open>If \<open>state.json\<close> can be read at all, its sequence is \<open>n\<close>. It is not a link.\<close>

definition sequence_is :: "'c platform \<Rightarrow> path \<Rightarrow> u64 \<Rightarrow> 'c fs \<Rightarrow> bool" where
  "sequence_is pf r n fs =
     (case node_at fs (state_path r) of
        Some (LinkNode _) \<Rightarrow> False
      | Some (FileNode _ c) \<Rightarrow> (case pf_dec pf c of Inr s \<Rightarrow> st_last_sequence s = n | Inl _ \<Rightarrow> True)
      | _ \<Rightarrow> True)"

text \<open>What the watchdog does to an install over its life; a call that fails is followed by the next.\<close>

datatype watchdog_call = BootWith upgrade_config | Beat | Ticks upgrade_config nat

fun watchdog_run :: "'c platform \<Rightarrow> path \<Rightarrow> watchdog_call \<Rightarrow> (unit, 'c) io" where
  "watchdog_run pf r (BootWith cfg) = ignore (run_boot_watchdog pf (Some (cfg\<lparr>uc_install_root := r\<rparr>)))"
| "watchdog_run pf r Beat = ignore (record_healthy_beat pf r)"
| "watchdog_run pf r (Ticks cfg n) = ignore (run_watchdog_periodic pf r cfg n)"

fun watchdog_life :: "'c platform \<Rightarrow> path \<Rightarrow> watchdog_call list \<Rightarrow> (unit, 'c) io" where
  "watchdog_life pf r [] = ret ()"
| "watchdog_life pf r (c # cs) = bindIO (watchdog_run pf r c) (\<lambda>_. watchdog_life pf r cs)"

text \<open>Codecs for which an empty text is no state and a state that is written reads back.\<close>

definition sound_codec :: "'c platform \<Rightarrow> bool" where
  "sound_codec pf = ((\<forall>s. faithful_state pf s) \<and> \<not> is_ok (pf_dec pf (pf_empty pf)))"

subsection \<open>Each operation keeps it\<close>

lemma sequence_same: "sequence_is pf r n fs \<Longrightarrow> node_at fs' (state_path r) = node_at fs (state_path r) \<Longrightarrow> sequence_is pf r n fs'"
  by (simp add: sequence_is_def)

lemma sequence_empty: "sound_codec pf \<Longrightarrow> node_at fs (state_path r) = Some (FileNode m (pf_empty pf)) \<Longrightarrow> sequence_is pf r n fs"
  by (cases "pf_dec pf (pf_empty pf)") (auto simp: sequence_is_def sound_codec_def)

lemma sequence_written:
  assumes "sound_codec pf" and "pf_enc pf s = Inr c" and "st_last_sequence s = n"
    and "node_at fs (state_path r) = Some (FileNode m c)"
  shows "sequence_is pf r n fs"
proof -
  have "faithful_state pf s" using assms(1) by (simp add: sound_codec_def)
  then have "pf_dec pf c = Inr s" using assms(2) by (auto simp: faithful_state_def)
  then show ?thesis using assms(3,4) by (simp add: sequence_is_def)
qed

lemma sequence_read:
  assumes "sequence_is pf r n fs" and "followed fs (state_path r) = Some (FileNode m c)" and "pf_dec pf c = Inr s"
  shows "st_last_sequence s = n"
  using assms by (cases "node_at fs (state_path r)")
    (auto simp: sequence_is_def followed_def resolve_none resolve_file resolve_dir split: node.splits)

definition kept :: "'c platform \<Rightarrow> path \<Rightarrow> u64 \<Rightarrow> ('a, 'c) io \<Rightarrow> ('a \<Rightarrow> bool) \<Rightarrow> bool" where
  "kept pf r n m ok =
     triple (sequence_is pf r n) (sequence_is pf r n) m (\<lambda>x fs. sequence_is pf r n fs \<and> ok x) (sequence_is pf r n)"

lemma kept_load: "kept pf r n (load_state pf (state_path r)) (\<lambda>s. st_last_sequence s = n)"
proof -
  let ?P = "sequence_is pf r n"
  have read: "triple ?P ?P (ctx c (sys_read (state_path r)))
      (\<lambda>buf fs. ?P fs \<and> (\<forall>s. pf_dec pf buf = Inr s \<longrightarrow> st_last_sequence s = n)) ?P" for c
    by (rule triple_ctx, rule same_read) (auto dest: sequence_read)
  have parse: "triple ?P (\<lambda>fs. ?P fs \<and> (\<forall>s. pf_dec pf buf = Inr s \<longrightarrow> st_last_sequence s = n))
      (bindIO (lift (with_source c (pf_dec pf buf))) (\<lambda>s. bindIO (ignore sys_nop) (\<lambda>_. ret s)))
      (\<lambda>s fs. ?P fs \<and> st_last_sequence s = n) ?P" for buf c
  proof (cases "pf_dec pf buf")
    case (Inl e)
    then show ?thesis by (simp add: with_source_def) (rule triple_lift, simp_all)
  next
    case (Inr s)
    have "triple ?P (\<lambda>fs. ?P fs \<and> st_last_sequence s = n) (bindIO (ignore sys_nop) (\<lambda>_. ret s))
        (\<lambda>s fs. ?P fs \<and> st_last_sequence s = n) ?P"
      by (rule bind_keep, (rule keep_rules)+) (auto intro: triple_ret)
    then show ?thesis by (simp add: with_source_def Inr)
  qed
  show ?thesis
    unfolding load_state_def kept_def
    by (rule bind_keep, (rule keep_rules | blast)+, rule bind_keep, (rule keep_rules | blast)+)
      (rule triple_bind [OF read parse])
qed

lemma kept_open_create:
  assumes "sound_codec pf"
  shows "triple (sequence_is pf r n) (\<lambda>fs. sequence_is pf r n fs \<and> node_at fs q = Some x) (sys_open_create (state_path r) (pf_empty pf))
     (\<lambda>_ fs. sequence_is pf r n fs \<and> node_at fs q = Some x)
     (\<lambda>fs. sequence_is pf r n fs \<and> node_at fs q = Some x)"
  unfolding sys_open_create_def
proof (rule triple_syscall)
  let ?p = "state_path r"
  fix fs fs' :: "'a fs" and t :: utc and y :: unit
  assume P: "sequence_is pf r n fs \<and> node_at fs q = Some x"
    and call: "(case resolve fs ?p of
       None \<Rightarrow> Inl ''Too many levels of symbolic links''
     | Some q \<Rightarrow>
         (case node_at fs q of
            Some (FileNode _ _) \<Rightarrow> Inr ((), fs)
          | None \<Rightarrow> if parent_is_dir fs q
                     then Inr ((), touch t (butlast q) (put_node t q (FileNode 420 (pf_empty pf)) fs))
                     else Inl ''No such file or directory''
          | Some _ \<Rightarrow> Inl ''Is a directory'')) = Inr (y, fs')"
  show "sequence_is pf r n fs' \<and> sequence_is pf r n fs' \<and> node_at fs' q = Some x"
  proof (cases "node_at fs ?p")
    case None
    then have "node_at fs' j = (if j = ?p then Some (FileNode 420 (pf_empty pf)) else node_at fs j)" for j
      using call by (auto simp: resolve_none nodes.node_put state_path_facts split: if_splits)
    then show ?thesis using P None sequence_empty [OF assms, of fs' r 420] by auto
  next
    case (Some d)
    then have "fs' = fs"
      using call P by (cases d) (auto simp: sequence_is_def resolve_file resolve_dir)
    then show ?thesis using P by simp
  qed
qed simp

text \<open>Replacing the state: the old sequence stays until the new file is in place.\<close>

lemma save_sequence:
  assumes "sound_codec pf" and "st_last_sequence s = k"
  shows "triple (\<lambda>fs. sequence_is pf r n fs \<or> sequence_is pf r k fs) (sequence_is pf r n)
     (save_state pf (state_path r) s) (\<lambda>_. sequence_is pf r k) (sequence_is pf r n)"
proof -
  let ?p = "state_path r" and ?tmp = "tmp_state_path pf (state_path r)"
  let ?P = "sequence_is pf r n" and ?K = "sequence_is pf r k"
  let ?I = "\<lambda>fs. ?P fs \<or> ?K fs" and ?T = "\<lambda>x fs. ?P fs \<and> node_at fs ?tmp = Some x"
  have "faithful_state pf s" using assms(1) by (simp add: sound_codec_def)
  then obtain json where json: "pf_enc pf s = Inr json" by (auto simp: faithful_state_def)
  have mk: "triple ?I ?P (sys_create_dir_all r) (\<lambda>_. ?P) ?P"
  proof (rule triple_create_dir_all)
    fix fs fs' :: "'a fs"
    assume P: "?P fs" and other: "\<And>q. q \<notin> {q. \<exists>n. q = take n r} \<Longrightarrow> node_at fs' q = node_at fs q"
    have "state_path r \<notin> {q. \<exists>n. q = take n r}" using state_path_facts(4) by (simp add: not_sym)
    then show "?I fs' \<and> ?P fs'" using sequence_same [OF P other] by simp
  qed simp
  have cr: "triple ?I ?P (sys_create_new ?tmp (pf_empty pf)) (\<lambda>_. ?T (FileNode 420 (pf_empty pf))) ?P"
    by (rule triple_create_new) (auto simp: state_path_facts tmp_path_ne [symmetric] intro: sequence_same)
  have op: "triple ?I (?T x) (attempt (sys_open_create ?p (pf_empty pf))) (\<lambda>_. ?T x) ?P" for x
    by (rule triple_inv [OF triple_attempt [OF kept_open_create [OF assms(1)]]]) auto
  have nop: "triple ?I (?T x) (if b then ctx c sys_nop else ret ()) (\<lambda>_. ?T x) ?P" for x b c
    by (rule triple_if; (rule keep_rules)+) auto
  have wr: "triple ?I (?T (FileNode 420 (pf_empty pf))) (sys_write ?tmp json) (\<lambda>_ fs. \<exists>m. ?T (FileNode m json) fs) ?P"
    by (rule triple_write_file) (auto simp: state_path_facts tmp_path_ne [symmetric] intro: sequence_same)
  have keep: "triple ?I (\<lambda>fs. \<exists>m. ?T (FileNode m json) fs) (ctx c sys_nop) (\<lambda>_ fs. \<exists>m. ?T (FileNode m json) fs) ?P" for c
    by ((rule keep_rules)+) auto
  have ren: "triple ?I (\<lambda>fs. \<exists>m. ?T (FileNode m json) fs) (sys_rename ?tmp ?p) (\<lambda>_. ?K) ?P"
  proof (rule triple_rename_file)
    fix fs fs' :: "'a fs" and x
    assume "\<exists>m. ?T (FileNode m json) fs" and x: "node_at fs ?tmp = Some x"
      and nodes: "\<And>q. node_at fs' q = (if q = ?p then Some x else if q = ?tmp then None else node_at fs q)"
    then obtain m where "x = FileNode m json" by auto
    then have "node_at fs' ?p = Some (FileNode m json)" using nodes by simp
    from sequence_written [OF assms(1) json assms(2) this] show "?I fs' \<and> ?K fs'" by simp
  qed (auto simp: state_path_facts tmp_path_ne)
  have tail: "triple ?I ?K (bindIO (ignore sys_nop) (\<lambda>_. ignore sys_nop)) (\<lambda>_. ?K) ?P"
    by (rule bind_keep; (rule keep_rules)+) simp_all
  have js: "lift (with_source c (pf_enc pf s)) = lift (Inr json)" for c by (simp add: json with_source_def)
  show ?thesis
    unfolding save_state_def Let_def state_path_facts js bindIO_lift
    by (intro bind_keep [OF triple_ctx [OF mk]] triple_bind [OF triple_ctx [OF cr]] bind_keep [OF op]
        bind_keep [OF nop] triple_bind [OF triple_ctx [OF wr]] bind_keep [OF keep]
        triple_bind [OF triple_ctx [OF ren]] tail)
qed

lemma kept_save:
  assumes "sound_codec pf" and "st_last_sequence s = n"
  shows "kept pf r n (save_state pf (state_path r) s) (\<lambda>_. True)"
  using save_sequence [OF assms, of r n] by (simp add: kept_def)

text \<open>Writing through to \<open>state.json\<close>, and the boot counter.\<close>

lemma kept_write:
  assumes "\<And>fs m. node_at fs (state_path r) = Some (FileNode m c) \<Longrightarrow> sequence_is pf r n fs"
  shows "kept pf r n (sys_write (state_path r) c) (\<lambda>_. True)"
  unfolding sys_write_def kept_def
proof (rule triple_syscall)
  let ?p = "state_path r"
  fix fs fs' :: "'a fs" and t :: utc and y :: unit
  assume P: "sequence_is pf r n fs"
    and call: "(case resolve fs ?p of
       None \<Rightarrow> Inl ''Too many levels of symbolic links''
     | Some q \<Rightarrow>
         (case node_at fs q of
            Some (FileNode m _) \<Rightarrow> Inr ((), put_node t q (FileNode m c) fs)
          | _ \<Rightarrow> Inl ''Bad file descriptor'')) = Inr (y, fs')"
  have "\<exists>m. node_at fs' ?p = Some (FileNode m c)"
  proof (cases "node_at fs ?p")
    case None
    then show ?thesis using call by (simp add: resolve_none)
  next
    case (Some d)
    then show ?thesis
      using call P by (cases d) (auto simp: sequence_is_def resolve_file resolve_dir nodes.node_put state_path_facts)
  qed
  then show "sequence_is pf r n fs' \<and> sequence_is pf r n fs' \<and> True" using assms by blast
qed

lemma kept_bump:
  assumes "sound_codec pf"
  shows "kept pf r n (bump_boot_attempts pf (state_path r)) (\<lambda>_. True)"
proof -
  let ?p = "state_path r" and ?P = "sequence_is pf r n"
  have true: "kept pf r n m (\<lambda>_. True) \<Longrightarrow> triple ?P ?P m (\<lambda>_. ?P) ?P" for m :: "('b, 'a) io"
    by (simp add: kept_def)
  have read: "triple ?P ?P (sys_read ?p) (\<lambda>buf fs. ?P fs \<and> (\<forall>s. pf_dec pf buf = Inr s \<longrightarrow> st_last_sequence s = n)) ?P"
    by (rule same_read) (auto dest: sequence_read)
  have empty: "triple ?P ?P (sys_write ?p (pf_empty pf)) (\<lambda>_. ?P) ?P"
    by (rule true [OF kept_write]) (rule sequence_empty [OF assms])
  have full: "triple ?P ?P (sys_write ?p c) (\<lambda>_. ?P) ?P" if "pf_enc pf s = Inr c" "st_last_sequence s = n" for c s
    by (rule true [OF kept_write]) (rule sequence_written [OF assms that])
  have tail: "triple ?P ?P (bindIO sys_nop (\<lambda>_. bindIO sys_nop (\<lambda>_. bindIO (ignore sys_nop) (\<lambda>_. ret (x :: u32)))))
      (\<lambda>y fs. ?P fs \<and> True) ?P" for x
    by (rule bind_keep, (rule keep_rules)+, simp_all)+ (auto intro: triple_ret)
  have rest: "triple ?P (\<lambda>fs. ?P fs \<and> (\<forall>s. pf_dec pf buf = Inr s \<longrightarrow> st_last_sequence s = n))
      (bindIO (lift (map_err (\<lambda>e. [Source e]) (pf_dec pf buf))) (\<lambda>state0.
        let state = state0\<lparr>st_boot_attempts := saturating_inc (st_boot_attempts state0)\<rparr> in
        bindIO (lift (map_err (\<lambda>e. [Source e]) (pf_enc pf state))) (\<lambda>json.
        bindIO (sys_write ?p (pf_empty pf)) (\<lambda>_. bindIO (sys_write ?p json) (\<lambda>_.
        bindIO sys_nop (\<lambda>_. bindIO sys_nop (\<lambda>_. bindIO (ignore sys_nop) (\<lambda>_.
        ret (st_boot_attempts state))))))))) (\<lambda>y fs. ?P fs \<and> True) ?P" for buf
  proof (cases "pf_dec pf buf")
    case (Inl e)
    then show ?thesis by simp (rule triple_lift, simp_all)
  next
    case (Inr s)
    let ?s = "s\<lparr>st_boot_attempts := saturating_inc (st_boot_attempts s)\<rparr>"
    show ?thesis
    proof (cases "st_last_sequence s = n")
      case True
      have "faithful_state pf ?s" using assms by (simp add: sound_codec_def)
      then obtain json where json: "pf_enc pf ?s = Inr json" by (auto simp: faithful_state_def)
      have "triple ?P ?P (bindIO (sys_write ?p (pf_empty pf)) (\<lambda>_. bindIO (sys_write ?p json) (\<lambda>_.
          bindIO sys_nop (\<lambda>_. bindIO sys_nop (\<lambda>_. bindIO (ignore sys_nop) (\<lambda>_. ret (st_boot_attempts ?s)))))))
          (\<lambda>y fs. ?P fs \<and> True) ?P"
        by (rule bind_keep [OF empty], rule bind_keep [OF full [OF json]]) (simp add: True, rule tail)
      then show ?thesis by (simp add: Inr Let_def json) (erule triple_pre [rotated], simp)
    qed (simp add: triple_def Inr)
  qed
  show ?thesis
    unfolding bump_boot_attempts_def kept_def
    by (rule bind_keep, (rule keep_rules | blast)+, rule bind_keep, (rule keep_rules | blast)+)
      (rule triple_bind [OF read rest])
qed

text \<open>The revert touches the links alone and hands back a state with the same sequence.\<close>

lemma kept_revert:
  assumes "st_last_sequence s = n"
  shows "kept pf r n (revert_to_previous r s) (\<lambda>s'. st_last_sequence s' = n)"
proof (cases "st_previous_version s")
  case None
  then show ?thesis by (simp add: revert_to_previous_def ok_or_def kept_def) (rule triple_lift, simp_all)
next
  case (Some v)
  let ?P = "sequence_is pf r n" and ?tmp = "current_tmp r" and ?cur = "current_link r"
  have ne: "?tmp \<noteq> []" "?cur \<noteq> []" "state_path r \<noteq> ?tmp" "state_path r \<noteq> ?cur" "?tmp \<noteq> ?cur"
    by (simp_all add: current_tmp_def current_link_def state_path_def)
  have dir: "triple ?P ?P (path_is_dir q) (\<lambda>_. ?P) ?P" for q
    unfolding path_is_dir_def by (rule keep_rules)
  have rm: "triple ?P ?P (sys_remove_file ?tmp) (\<lambda>_. ?P) ?P"
    by (rule triple_remove_file) (auto simp: ne elim!: sequence_same)
  have sl: "triple ?P ?P (sys_symlink q ?tmp) (\<lambda>_ fs. ?P fs \<and> node_at fs ?tmp = Some (LinkNode q)) ?P" for q
    by (rule triple_symlink) (auto simp: ne elim!: sequence_same)
  have mv: "triple ?P (\<lambda>fs. ?P fs \<and> node_at fs ?tmp = Some (LinkNode q)) (sys_rename ?tmp ?cur) (\<lambda>_. ?P) ?P" for q
    by (rule triple_rename_file) (auto simp: ne elim!: sequence_same)
  have bail: "triple ?P ?P (lift (bail_if b e)) (\<lambda>_. ?P) ?P" for b and e :: anyhow
    by (rule keep_rules)
  show ?thesis
    unfolding revert_to_previous_def Let_def Some ok_or_simps bindIO_lift kept_def
    by (intro bind_keep [OF dir] bind_keep [OF bail] bind_keep [OF keep_ignore [OF rm]] triple_bind [OF sl]
        triple_bind [OF mv] triple_ret) (simp add: assms)
qed

lemma kept_bind:
  assumes "kept pf r n m ok" and "\<And>x. ok x \<Longrightarrow> kept pf r n (f x) ok'"
  shows "kept pf r n (bindIO m f) ok'"
  unfolding kept_def
proof (rule triple_bind [OF assms(1) [unfolded kept_def]])
  show "triple (sequence_is pf r n) (\<lambda>fs. sequence_is pf r n fs \<and> ok x) (f x)
      (\<lambda>x fs. sequence_is pf r n fs \<and> ok' x) (sequence_is pf r n)" for x
    using assms(2) [of x] unfolding kept_def triple_def by blast
qed

lemma kept_ignore: "kept pf r n m ok \<Longrightarrow> kept pf r n (ignore m) (\<lambda>_. True)"
  unfolding kept_def by (erule triple_ignore) auto

lemma kept_attempt: "kept pf r n m ok \<Longrightarrow> kept pf r n (attempt m) (\<lambda>x. \<forall>y. x = Some y \<longrightarrow> ok y)"
  unfolding kept_def by (erule triple_attempt) auto

lemma kept_ret: "ok x \<Longrightarrow> kept pf r n (ret x) ok"
  unfolding kept_def by (rule triple_ret) simp

lemma kept_pure:
  "kept pf r n now_io (\<lambda>_. True)" "kept pf r n (query f) (\<lambda>_. True)" "kept pf r n (try_event e) (\<lambda>_. True)"
  unfolding kept_def by (auto intro: triple_rules)

lemma kept_if:
  "(b \<Longrightarrow> kept pf r n m ok) \<Longrightarrow> (\<not> b \<Longrightarrow> kept pf r n m' ok) \<Longrightarrow> kept pf r n (if b then m else m') ok"
  by simp

subsection \<open>The whole life\<close>

lemma kept_update:
  assumes "sound_codec pf" and "\<And>s. st_last_sequence (f s) = st_last_sequence s"
  shows "kept pf r n (update_state pf (state_path r) f) (\<lambda>_. True)"
  unfolding update_state_def by (rule kept_bind [OF kept_load]) (simp only: assms kept_save)

lemma kept_beat:
  assumes "sound_codec pf"
  shows "kept pf r n (record_healthy_beat pf r) (\<lambda>_. True)"
proof -
  have stamp: "kept pf r n (if st_status s = PendingHealth
      then bindIO now_io (\<lambda>t. ret (s\<lparr>st_last_health_at := Some t\<rparr>)) else ret s) (\<lambda>s'. st_last_sequence s' = n)"
    if "st_last_sequence s = n" for s
    by (rule kept_if; (rule kept_bind [OF kept_pure(1)])?; rule kept_ret) (simp_all add: that)
  show ?thesis
    unfolding record_healthy_beat_def Let_def
    by (intro kept_ignore [OF kept_bind [OF kept_load kept_bind [OF stamp kept_save [OF assms]]]])
qed

lemma kept_finalize:
  assumes "sound_codec pf"
  shows "kept pf r n (finalize_if_stable pf r cfg) (\<lambda>_. True)"
proof -
  have up: "kept pf r n (ignore (update_state pf (state_path r) (\<lambda>s. s\<lparr>st_status := Stable\<rparr>))) (\<lambda>_. True)"
    by (rule kept_ignore [OF kept_update [OF assms]]) simp
  show ?thesis
    unfolding finalize_if_stable_def Let_def
    by (rule kept_bind [OF kept_attempt [OF kept_load]])
      (auto split: option.split intro!: kept_if kept_ret kept_bind [OF kept_pure(1)] kept_bind [OF up] kept_pure(3))
qed

lemma kept_ticks: "sound_codec pf \<Longrightarrow> kept pf r n (run_watchdog_periodic pf r cfg k) (\<lambda>_. True)"
  by (induction k) (simp_all only: run_watchdog_periodic.simps kept_ret kept_bind [OF kept_finalize])

lemma kept_boot:
  assumes "sound_codec pf" and "uc_install_root cfg = r"
  shows "kept pf r n (run_boot_watchdog pf (Some cfg)) (\<lambda>_. True)"
proof -
  let ?p = "state_path r"
  have save: "kept pf r n (ignore (save_state pf ?p s)) (\<lambda>_. True)" if "st_last_sequence s = n" for s
    by (rule kept_ignore [OF kept_save [OF assms(1) that]])
  have undo: "kept pf r n (rolled_back_arm pf ?p s) (\<lambda>_. True)" if "st_last_sequence s = n" for s
    unfolding rolled_back_arm_def Let_def
    by (intro kept_bind [OF kept_pure(3)] kept_bind [OF save] kept_ret) (simp_all add: that)
  have pend: "kept pf r n (pending_arm pf r k s) (\<lambda>_. True)" if "st_last_sequence s = n" for k s
    unfolding pending_arm_def Let_def
    by (intro kept_bind [OF kept_bump [OF assms(1)]] kept_if kept_bind [OF kept_attempt [OF kept_revert [OF that]]]
        kept_bind [OF save] kept_bind [OF kept_pure(3)] kept_ret) (auto simp: that split: option.splits)
  have some: "kept pf r n (case l of None \<Rightarrow> ret (Returned WatchdogContinue) | Some s \<Rightarrow>
      (case st_status s of Stable \<Rightarrow> ret (Returned WatchdogContinue) | StagedManual \<Rightarrow> ret (Returned WatchdogContinue)
       | RolledBack \<Rightarrow> rolled_back_arm pf ?p s | PendingHealth \<Rightarrow> pending_arm pf r (uc_max_boot_attempts cfg) s)) (\<lambda>_. True)"
    if "\<forall>s. l = Some s \<longrightarrow> st_last_sequence s = n" for l
    using that by (auto split: option.split upgrade_status.split intro: kept_ret undo pend)
  show ?thesis
    unfolding run_boot_watchdog_def Let_def assms(2) path_exists_def option.case
    by (intro kept_if kept_ret kept_bind [OF kept_pure(2)] kept_bind [OF kept_attempt [OF kept_load]] some TrueI)
qed

lemma kept_watchdog_run: "sound_codec pf \<Longrightarrow> kept pf r n (watchdog_run pf r c) (\<lambda>_. True)"
  by (cases c) (auto intro!: kept_ignore kept_boot kept_beat kept_ticks)

lemma kept_life: "sound_codec pf \<Longrightarrow> kept pf r n (watchdog_life pf r cs) (\<lambda>_. True)"
  by (induction cs) (simp_all only: watchdog_life.simps kept_ret kept_bind [OF kept_watchdog_run])

subsection \<open>The property\<close>

text \<open>Whatever state this tree holds, \<open>stage\<close> refuses every manifest whose sequence is not above \<open>n\<close>.\<close>

definition refuses_replays :: "'c platform \<Rightarrow> path \<Rightarrow> u64 \<Rightarrow> 'c fs \<Rightarrow> bool" where
  "refuses_replays pf r n fs =
     (\<forall>s m. holds_state pf (state_path r) fs s \<longrightarrow>
        (check_sequence m (Some s) = Inr () \<longleftrightarrow> n < mf_sequence m))"

lemma sequence_refuses:
  assumes "sequence_is pf r n fs"
  shows "refuses_replays pf r n fs"
  unfolding refuses_replays_def
proof (intro allI impI)
  fix s m
  assume "holds_state pf (state_path r) fs s"
  then have "st_last_sequence s = n" using assms by (auto simp: holds_state_def sequence_is_def)
  then show "(check_sequence m (Some s) = Inr ()) = (n < mf_sequence m)"
    by (auto simp: check_sequence_def bail_if_def not_le)
qed

text \<open>The watchdog never loosens the protection against replayed releases. Whatever boots, beats and ticks
  follow, whichever system calls fail and wherever the process is killed, any state that can be read from
  \<open>state.json\<close> then lets \<open>stage\<close> accept exactly the manifests whose sequence is above the one stored at
  the start.\<close>

lemma watchdog_keeps_the_sequence:
  assumes "sound_codec pf" and "holds_state pf (state_path r) (w_fs w) s"
    and "watchdog_life pf r calls w = (res, w')"
  shows "\<exists>ts. w_trail w' = w_trail w @ ts
     \<and> list_all (refuses_replays pf r (st_last_sequence s)) (ts @ [w_fs w'])"
proof -
  let ?n = "st_last_sequence s"
  have start: "sequence_is pf r ?n (w_fs w)"
    using assms(2) by (auto simp: holds_state_def sequence_is_def)
  note life = tripleD [OF kept_life [OF assms(1), unfolded kept_def] start, of calls]
  obtain ts where ts: "w_trail w' = w_trail w @ ts" "list_all (sequence_is pf r ?n) ts"
    using life(1) assms(3) by auto
  moreover have "sequence_is pf r ?n (w_fs w')"
    using life(2,3) assms(3) by (cases res) auto
  ultimately show ?thesis by (auto simp: list_all_iff intro: sequence_refuses)
qed

end
