(* ===== verification/UpgradeHistory.thy ===== *)
theory UpgradeHistory
  imports SequenceGuard UpgradeSafety
begin

section \<open>The sequence over a whole history of upgrades\<close>

text \<open>
  \<open>SequenceGuard\<close> follows the stored sequence between two upgrades; here a history is any sequence of stages,
  boots, beats and ticks on one install root, by coordinators that may differ (each version brings its own)
  and environments that answer differently each time. Any system call may fail, and the process may be killed
  anywhere: the next call of the history then starts from the tree that was left.
\<close>

subsection \<open>Installing a version leaves the state alone\<close>

text \<open>Unpacking an entry writes at and below its target. An archive meets this if it unpacks nothing through
  a link it has brought itself.\<close>

definition unpacks_in_place :: "('e, 'c) tar_lib \<Rightarrow> bool" where
  "unpacks_in_place tar =
     (\<forall>e target fs t fs' q. tar_unpack tar e target fs t = Inr fs' \<longrightarrow> take (length target) q \<noteq> target \<longrightarrow>
        node_at fs' q = node_at fs q)"

definition under_versions :: "path \<Rightarrow> path \<Rightarrow> bool" where
  "under_versions r q = (\<exists>zs. q = r @ ''versions'' # zs)"

lemma versions_under [simp]: "under_versions r (versions_dir r)" "under_versions r (version_dir r v)"
  by (simp_all add: under_versions_def versions_dir_def version_dir_def)

lemma under_append: "under_versions r q \<Longrightarrow> under_versions r (q @ zs)"
  by (auto simp: under_versions_def)

lemma state_elsewhere:
  "under_versions r q \<Longrightarrow> take (length q) (state_path r) \<noteq> q"
  "under_versions r q \<Longrightarrow> q \<noteq> state_path r" "under_versions r q \<Longrightarrow> q \<noteq> []"
  by (auto simp: under_versions_def state_path_def)

lemma kept_call:
  assumes "\<And>fs t x fs'. f fs t = Inr (x, fs') \<Longrightarrow> node_at fs' (state_path r) = node_at fs (state_path r)"
  shows "kept pf r n (syscall f) (\<lambda>_. True)"
  unfolding kept_def by (rule triple_syscall) (use assms sequence_same in \<open>blast+\<close>)

lemma kept_lift: "(\<And>x. e = Inr x \<Longrightarrow> ok x) \<Longrightarrow> kept pf r n (lift e) ok"
  unfolding kept_def by (rule triple_lift) simp_all

lemma kept_ctx: "kept pf r n m ok \<Longrightarrow> kept pf r n (ctx c m) ok"
  unfolding kept_def by (rule triple_ctx)

lemma kept_weaken: "kept pf r n m ok \<Longrightarrow> (\<And>x. ok x \<Longrightarrow> ok' x) \<Longrightarrow> kept pf r n m ok'"
  unfolding kept_def by (erule triple_weaken) auto

lemma kept_reads:
  "kept pf r n sys_nop (\<lambda>_. True)" "kept pf r n (sys_read_link p) (\<lambda>_. True)"
  "kept pf r n (sys_metadata p) (\<lambda>_. True)" "kept pf r n (sys_read_dir p) (\<lambda>_. True)"
  "kept pf r n (sys_mtime p) (\<lambda>_. True)"
  by (simp_all add: kept_def keep_calls)

lemma kept_create_dirs:
  assumes "under_versions r p"
  shows "kept pf r n (sys_create_dir_all p) (\<lambda>_. True)"
  unfolding kept_def
proof (rule triple_create_dir_all)
  fix fs fs' :: "'a fs"
  assume P: "sequence_is pf r n fs" and other: "\<And>q. q \<notin> {q. \<exists>n. q = take n p} \<Longrightarrow> node_at fs' q = node_at fs q"
  obtain zs where p: "p = r @ ''versions'' # zs" using assms by (auto simp: under_versions_def)
  have "state_path r \<noteq> take n p" for n
  proof (cases "n \<le> length r")
    case False
    then obtain k where "n = length r + Suc k" by (metis add_Suc_right less_iff_Suc_add not_le)
    then show ?thesis by (simp add: p state_path_def)
  qed (auto simp: p state_path_def dest: arg_cong [where f = length])
  then show "sequence_is pf r n fs' \<and> sequence_is pf r n fs' \<and> True" using sequence_same [OF P other] by simp
qed simp

lemma kept_remove:
  assumes "under_versions r p"
  shows "kept pf r n (sys_remove_dir_all p) (\<lambda>_. True)"
  unfolding sys_remove_dir_all_def
  by (rule kept_call) (use state_elsewhere [OF assms] in
    \<open>auto simp: nodes.node_del node_del_tree split: option.splits node.splits if_splits\<close>)

lemma kept_create_dir:
  assumes "under_versions r p"
  shows "kept pf r n (sys_create_dir p) (\<lambda>_. True)"
  unfolding sys_create_dir_def
  by (rule kept_call) (use state_elsewhere [OF assms] in \<open>auto simp: nodes.node_put split: if_splits\<close>)

lemma node_move_tree:
  assumes "take (length a) q \<noteq> a" and "take (length b) q \<noteq> b"
  shows "node_at (move_tree a b fs) q = node_at fs q"
proof -
  have "map_of (map (\<lambda>(q, e). (if take (length a) q = a then b @ drop (length a) q else q, e)) (del_tree b fs)) q
      = map_of fs q"
    by (induction fs) (use assms in \<open>auto simp: del_tree_def split: prod.splits\<close>)
  then show ?thesis by (simp add: node_at_def move_tree_def)
qed

lemma kept_rename:
  assumes "take (length a) (state_path r) \<noteq> a" and "take (length b) (state_path r) \<noteq> b"
  shows "kept pf r n (sys_rename a b) (\<lambda>_. True)"
  unfolding sys_rename_def
proof (rule kept_call)
  have ne: "a \<noteq> []" "b \<noteq> []" "state_path r \<noteq> a" "state_path r \<noteq> b" using assms by auto
  show "node_at fs' (state_path r) = node_at fs (state_path r)"
    if "(if a = [] \<or> \<not> parent_is_dir fs b then Inl ''No such file or directory''
     else (case node_at fs a of
         None \<Rightarrow> Inl ''No such file or directory''
       | Some DirNode \<Rightarrow>
           if take (length a) b = a \<and> a \<noteq> b then Inl ''Invalid argument''
           else (case node_at fs b of
               Some DirNode \<Rightarrow> if a \<noteq> b \<and> children fs b \<noteq> [] then Inl ''Directory not empty''
                 else if a = b then Inr ((), fs)
                 else Inr ((), touch t (butlast a) (touch t (butlast b) (move_tree a b fs)))
             | None \<Rightarrow> Inr ((), touch t (butlast a) (touch t (butlast b) (move_tree a b fs)))
             | Some _ \<Rightarrow> Inl ''Not a directory'')
       | Some n \<Rightarrow>
           (case node_at fs b of
              Some DirNode \<Rightarrow> Inl ''Is a directory''
            | _ \<Rightarrow> if a = b then Inr ((), fs)
                   else Inr ((), touch t (butlast a) (touch t (butlast b)
                     (put_node (case mtime_at fs a of Some u \<Rightarrow> u | None \<Rightarrow> t) b n (del_node a fs))))))) = Inr (x, fs')"
    for fs t x fs'
    using that ne by (auto simp: node_move_tree [OF assms] nodes.node_put nodes.node_del
        split: if_splits option.splits node.splits)
qed

text \<open>\<open>chmod\<close> follows links, so it may reach the state, but it changes no content.\<close>

lemma kept_chmod: "kept pf r n (sys_chmod p mode) (\<lambda>_. True)"
  unfolding sys_chmod_def kept_def
proof (rule triple_syscall)
  fix fs fs' :: "'a fs" and t :: utc and x :: unit
  assume P: "sequence_is pf r n fs" and call: "(case resolve fs p of
       None \<Rightarrow> Inl ''Too many levels of symbolic links''
     | Some q \<Rightarrow>
         (case node_at fs q of
            Some (FileNode m c) \<Rightarrow>
              Inr ((), put_node (case mtime_at fs q of Some u \<Rightarrow> u | None \<Rightarrow> t) q (FileNode mode c) fs)
          | Some _ \<Rightarrow> Inr ((), fs)
          | None \<Rightarrow> Inl ''No such file or directory'')) = Inr (x, fs')"
  then obtain q where q: "resolve fs p = Some q" by (cases "resolve fs p") simp_all
  have "sequence_is pf r n fs'"
  proof (cases "node_at fs q")
    case None
    then show ?thesis using call q by simp
  next
    case (Some d)
    show ?thesis
    proof (cases d)
      case (FileNode m c)
      then obtain u where "fs' = put_node u q (FileNode mode c) fs" using call q Some by auto
      moreover have "q \<noteq> []" using Some FileNode by (auto simp: node_at_def)
      ultimately have at: "node_at fs' j = (if j = q then Some (FileNode mode c) else node_at fs j)" for j
        by (simp add: nodes.node_put)
      show ?thesis using P Some FileNode at by (cases "state_path r = q") (auto simp: sequence_is_def)
    qed (use call q Some P in auto)
  qed
  then show "sequence_is pf r n fs' \<and> sequence_is pf r n fs' \<and> True" by simp
qed simp

lemma kept_extract:
  assumes "unpacks_in_place tar" and "under_versions r dest"
  shows "kept pf r n (extract_tarball tar tb dest) (\<lambda>_. True)"
proof -
  have call: "kept pf r n (syscall (\<lambda>fs t. bindR (tar_unpack tar e (join_entry dest p) fs t) (\<lambda>fs'. Inr ((), fs'))))
      (\<lambda>_. True)" if "\<not> ep_absolute p" for e p
  proof (rule kept_call)
    have "under_versions r (join_entry dest p)" using that under_append [OF assms(2)] by (simp add: join_entry_def)
    then show "node_at fs' (state_path r) = node_at fs (state_path r)"
      if "bindR (tar_unpack tar e (join_entry dest p) fs t) (\<lambda>fs'. Inr ((), fs')) = Inr (x, fs')" for fs t x fs'
      using that assms(1) state_elsewhere(1) unfolding unpacks_in_place_def by (auto simp: result_simps)
  qed
  have "kept pf r n (extract_entry tar dest e) (\<lambda>_. True)" for e
    unfolding extract_entry_def Let_def
    by (intro kept_bind [OF kept_lift [where ok = "\<lambda>_. True"]] kept_bind [OF kept_lift [where ok = "\<lambda>_. \<not> ep_absolute _"]]
        call) (auto simp: result_simps)
  then have "kept pf r n (extract_entries tar dest es) (\<lambda>_. True)" for es
    by (induction es) (auto intro: kept_ret kept_bind)
  then show ?thesis unfolding extract_tarball_def by (intro kept_bind [OF kept_lift [where ok = "\<lambda>_. True"]]) simp_all
qed

lemma kept_locate:
  assumes "under_versions r root"
  shows "kept pf r n (locate_binary root name) (\<lambda>x. \<forall>p. x = Some p \<longrightarrow> under_versions r p)"
proof -
  have u: "under_versions r (root @ zs)" for zs by (rule under_append [OF assms])
  have nest: "kept pf r n (find_nested root name ds) (\<lambda>x. \<forall>p. x = Some p \<longrightarrow> under_versions r p)" for ds
    by (induction ds) (auto simp: path_is_dir_def path_is_file_def u
        intro!: kept_ret kept_bind [OF kept_pure(2)] kept_if)
  show ?thesis
    unfolding locate_binary_def path_is_file_def
    by (intro kept_bind [OF kept_pure(2)] kept_if kept_bind [OF kept_attempt [OF kept_reads(4)]])
      (auto simp: u split: option.split intro: kept_ret nest)
qed

lemma kept_unlink: "p \<noteq> state_path r \<Longrightarrow> p \<noteq> [] \<Longrightarrow> kept pf r n (sys_remove_file p) (\<lambda>_. True)"
  unfolding sys_remove_file_def
  by (rule kept_call) (auto simp: nodes.node_del split: option.splits node.splits)

lemma kept_symlink: "p \<noteq> state_path r \<Longrightarrow> p \<noteq> [] \<Longrightarrow> kept pf r n (sys_symlink q p) (\<lambda>_. True)"
  unfolding sys_symlink_def by (rule kept_call) (auto simp: nodes.node_put split: if_splits)

lemma links_elsewhere:
  "current_link r \<noteq> state_path r" "previous_link r \<noteq> state_path r" "current_tmp r \<noteq> state_path r"
  "take (length (current_link r)) (state_path r) \<noteq> current_link r"
  "take (length (current_tmp r)) (state_path r) \<noteq> current_tmp r"
  by (simp_all add: current_link_def previous_link_def current_tmp_def state_path_def)

lemma kept_swap: "kept pf r n (swap_current_symlink r target) (\<lambda>_. True)"
proof -
  note keep = kept_symlink kept_unlink links_elsewhere link_paths_distinct
  have opt: "kept pf r n (case l of Some t \<Rightarrow> bindIO (ignore (sys_remove_file (previous_link r))) (\<lambda>_. sys_symlink t (previous_link r))
      | None \<Rightarrow> ret ()) (\<lambda>_. True)" for l
    by (cases l) (auto intro!: kept_ret kept_bind [OF kept_ignore] keep)
  show ?thesis
    unfolding swap_current_symlink_def Let_def
    by (intro kept_bind [OF kept_attempt [OF kept_reads(2)]] kept_bind [OF opt] kept_bind [OF kept_ignore [OF kept_unlink]]
        kept_bind [OF kept_symlink] kept_bind [OF kept_rename] kept_ignore [OF kept_reads(1)] keep)
qed

lemma kept_gc: "kept pf r n (gc_versions r v k) (\<lambda>_. True)"
proof -
  let ?dir = "versions_dir r"
  have u: "under_versions r (?dir @ zs)" for zs by (rule under_append) simp
  have es: "kept pf r n (gc_entries ?dir v names) (\<lambda>xs. \<forall>x\<in>set xs. under_versions r (fst x))" for names
  proof (induction names)
    case (Cons a names)
    show ?case
      using Cons
      by (auto simp: u split: option.splits intro!: kept_if kept_ret kept_bind [OF kept_ignore [OF kept_remove]]
          kept_bind [OF kept_attempt [OF kept_reads(5)]] kept_bind [OF Cons])
  qed (simp add: kept_ret)
  have ra: "kept pf r n (remove_all ps) (\<lambda>_. True)" if "\<forall>p\<in>set ps. under_versions r p" for ps
    using that by (induction ps) (auto intro!: kept_ret kept_bind [OF kept_ignore [OF kept_remove]])
  show ?thesis
    unfolding gc_versions_def Let_def
    by (intro kept_bind [OF kept_reads(4)] kept_bind [OF es] ra) (auto dest!: in_set_dropD)
qed

lemma kept_stage_new_version:
  assumes "unpacks_in_place tar"
  shows "kept pf r n (stage_new_version tar r v name tb m) (\<lambda>_. True)"
proof -
  let ?part = "version_dir r (v @ ''.partial'')" and ?dir = "version_dir r v"
  note st = state_elsewhere(1) versions_under under_append
  have stale: "kept pf r n (if b then sys_remove_dir_all ?part else ret ()) (\<lambda>_. True)" for b
    by (intro kept_if kept_remove kept_ret) simp_all
  have there: "kept pf r n (if \<not> b then ret False
      else bindIO (attempt (sys_read_link (current_link r))) (\<lambda>l.
        if l \<noteq> Some ?dir then bindIO (sys_remove_dir_all ?dir) (\<lambda>_. ret False) else ret True)) (\<lambda>_. True)" for b
    by (intro kept_if kept_bind [OF kept_attempt [OF kept_reads(2)]] kept_bind [OF kept_remove] kept_ret) simp_all
  have move: "kept pf r n (if butlast src \<noteq> ?part \<and> ?part @ [name] \<noteq> src then sys_rename src (?part @ [name]) else ret ())
      (\<lambda>_. True)" if "under_versions r src" for src
    by (intro kept_if kept_rename kept_ret st that) simp_all
  show ?thesis
    unfolding stage_new_version_def Let_def path_exists_def
    by (intro kept_bind [OF kept_lift [where ok = "\<lambda>_. True"]] kept_bind [OF kept_ctx [OF kept_create_dirs]]
        kept_bind [OF kept_pure(2)] kept_bind [OF stale] kept_bind [OF there] kept_if kept_ret
        kept_bind [OF kept_create_dir] kept_bind [OF kept_extract [OF assms]] kept_bind [OF kept_locate]
        kept_bind [OF kept_lift [where ok = "under_versions r"]] kept_bind [OF kept_reads(3)]
        kept_bind [OF kept_chmod] kept_bind [OF move] kept_bind [OF kept_ignore [OF kept_reads(1)]]
        kept_bind [OF kept_rename] kept_bind [OF kept_swap] kept_bind [OF kept_ignore [OF kept_gc]] st)
      (auto simp: ok_or_def split: option.splits)
qed

subsection \<open>A staging\<close>

lemma kept_try_load: "kept pf r n (try_load_state pf r) (\<lambda>x. \<forall>s. x = Some s \<longrightarrow> st_last_sequence s = n)"
  unfolding try_load_state_def Let_def path_exists_def
  by (intro kept_bind [OF kept_pure(2)] kept_if kept_ret kept_attempt kept_load) simp

lemma kept_within:
  assumes "kept pf r n p ok" and "\<And>fs. sequence_is pf r n fs \<Longrightarrow> I fs"
  shows "triple I (sequence_is pf r n) p (\<lambda>_. sequence_is pf r n) (sequence_is pf r n)"
  using assms(1) unfolding kept_def
  by (rule triple_inv [OF triple_weaken]) (use assms(2) in auto)

text \<open>The sequence of the manifest a staging would install is fixed by the environment.\<close>

lemma install_sequence:
  fixes env :: "('k, 'e, 'c) upgrade_env"
  assumes "sound_codec (en_platform env)" and "unpacks_in_place (en_tar env)" and "uc_install_root (co_config co) = r"
  defines "here \<equiv> sequence_is (en_platform env) r"
  shows "triple (\<lambda>fs. here n fs \<or> here (mf_sequence m) fs) (here n) (install env co v ch plan m tb)
     (\<lambda>_. here (mf_sequence m)) (here n)"
proof -
  let ?I = "\<lambda>fs. here n fs \<or> here (mf_sequence m) fs" and ?pf = "en_platform env"
  have lift: "triple ?I (here n) p (\<lambda>_. here n) (here n)" if "kept ?pf r n p ok" for p :: "('y, 'c) io" and ok
    unfolding here_def by (rule kept_within [OF that]) simp
  have st: "triple ?I (here n) (stage_new_version (en_tar env) r v name tb m) (\<lambda>_. here n) (here n)" for name
    by (rule lift [OF kept_stage_new_version [OF assms(2)]])
  have ld: "triple ?I (here n) (try_load_state ?pf r) (\<lambda>_. here n) (here n)"
    by (rule lift [OF kept_try_load])
  have sv: "triple ?I (here n) (save_state ?pf (state_path r) (staged_state co v ch plan m prev now))
      (\<lambda>_. here (mf_sequence m)) (here n)" for prev now
    unfolding here_def by (rule save_sequence [OF assms(1)]) (simp add: staged_state_def)
  show ?thesis
    unfolding install_def Let_def sureS_def assms(3)
    by (intro triple_bindS [OF triple_ioS [OF st]] triple_bindS [OF triple_ioS [OF ld]]
        triple_bindS [OF triple_ioS [OF lift [OF kept_pure(1)]]] triple_bindS [OF triple_ioS [OF sv]] triple_pureS)
      simp_all
qed

lemma stage_admitted_sequence:
  fixes env :: "('k, 'e, 'c) upgrade_env"
  assumes "sound_codec (en_platform env)" and "unpacks_in_place (en_tar env)" and "uc_install_root (co_config co) = r"
    and "\<And>m. trusted_manifest env co v ch (pl_release_base plan) = Inr m \<Longrightarrow> mf_sequence m = k"
  defines "here \<equiv> sequence_is (en_platform env) r"
  shows "triple (\<lambda>fs. here n fs \<or> here k fs) (here n) (stage_admitted env co v ch plan) (\<lambda>_. here k) (here n)"
proof -
  let ?I = "\<lambda>fs. here n fs \<or> here k fs" and ?pf = "en_platform env"
  have ev: "triple ?I P (sureS (send_event e)) (\<lambda>_. P) E" for e P E
    unfolding sureS_def by (rule triple_ioS) (rule keep_pure)
  have pure: "triple ?I (here n) (pureS e) (\<lambda>_. here n) (here n)" for e :: "upgrade_error + 'z"
    by (rule triple_pureS) simp_all
  have ld: "triple ?I (here n) (sureS (try_load_state ?pf r)) (\<lambda>_. here n) (here n)"
    unfolding sureS_def here_def by (rule triple_ioS [OF kept_within [OF kept_try_load]]) simp
  show ?thesis
  proof (cases "trusted_manifest env co v ch (pl_release_base plan)")
    case (Inl e)
    have "triple ?I (here n) (bindS (pureS (Inl e)) f) (\<lambda>_. here k) (here n)" for f :: "manifest \<Rightarrow> (staged_upgrade, 'c) stage_io"
      by (simp add: triple_def bindS_def pureS_def)
    then show ?thesis unfolding stage_admitted_def Let_def Inl by (intro triple_bindS [OF ev])
  next
    case (Inr m)
    have k: "mf_sequence m = k" by (rule assms(4) [OF Inr])
    have "triple ?I (here n) (install env co v ch plan m tb) (\<lambda>_. here k) (here n)" for tb
      using install_sequence [OF assms(1-3), of n m v ch plan tb] by (simp add: here_def k)
    then show ?thesis
      unfolding stage_admitted_def Let_def Inr bindS_pure assms(3)
      by (intro triple_bindS [OF ev] triple_bindS [OF ld] triple_bindS [OF pure] triple_bindS triple_pureS) simp_all
  qed
qed

subsection \<open>A staging that reads the state\<close>

text \<open>Reading the state has nothing to do with the events queued.\<close>

definition eventless :: "('a, 'c) io \<Rightarrow> bool" where
  "eventless m = (\<forall>w c. m (w\<lparr>w_events := c\<rparr>) = (fst (m w), (snd (m w))\<lparr>w_events := c\<rparr>))"

lemma eventless_bind: "eventless m \<Longrightarrow> (\<And>x. eventless (f x)) \<Longrightarrow> eventless (bindIO m f)"
  unfolding eventless_def bindIO_def by (auto split: sum.splits prod.splits)

lemma eventless_rest:
  "eventless (ret x)" "eventless (lift r)" "eventless (syscall g)" "eventless (query h)"
  "eventless m \<Longrightarrow> eventless (ctx c m)" "eventless m \<Longrightarrow> eventless (attempt m)" "eventless m \<Longrightarrow> eventless (ignore m)"
  by (auto simp: eventless_def ret_def lift_def syscall_def Let_def query_def ctx_def attempt_def ignore_def
      split: sum.splits prod.splits)

lemma eventless_try_load: "eventless (try_load_state pf r)"
  unfolding try_load_state_def load_state_def Let_def path_exists_def sys_open_def sys_nop_def sys_read_def
  by (auto intro!: eventless_bind eventless_rest)

text \<open>The load at the gate gives a state: the file is there, can be read and is one.\<close>

definition sees_state :: "'c platform \<Rightarrow> path \<Rightarrow> 'c world \<Rightarrow> bool" where
  "sees_state pf r w = (case fst (try_load_state pf r w) of Inr (Some _) \<Rightarrow> True | _ \<Rightarrow> False)"

lemma sees_after_event:
  assumes "sees_state pf r w" and "sequence_is pf r n (w_fs w)"
  obtains s v where "sureS (try_load_state pf r) (snd (send_event e w)) = (Inr (Some s), v)" and "st_last_sequence s = n"
proof -
  obtain s where s: "fst (try_load_state pf r w) = Inr (Some s)"
    using assms(1) by (auto simp: sees_state_def split: sum.splits option.splits)
  have "\<exists>c. snd (send_event e w) = w\<lparr>w_events := c\<rparr>"
    by (cases "ch_rx_open (w_events w)") (auto simp: send_event_def intro: exI [of _ "w_events w"])
  then have "fst (try_load_state pf r (snd (send_event e w))) = Inr (Some s)"
    using eventless_try_load [of pf r] s by (auto simp: eventless_def)
  then have "sureS (try_load_state pf r) (snd (send_event e w)) = (Inr (Some s), snd (try_load_state pf r (snd (send_event e w))))"
    by (cases "try_load_state pf r (snd (send_event e w))") (simp add: sureS_def ioS_def)
  moreover have "st_last_sequence s = n"
    using tripleD(2) [OF kept_try_load [unfolded kept_def] assms(2)] s by blast
  ultimately show thesis by (rule that)
qed

text \<open>Then a manifest that is not newer is refused before anything is changed.\<close>

lemma replay_refused:
  assumes "sequence_is (en_platform env) r n (w_fs w)" and "sees_state (en_platform env) r w"
    and "uc_install_root (co_config co) = r" and "trusted_manifest env co v ch (pl_release_base plan) = Inr m"
    and "mf_sequence m \<le> n" and "stage_admitted env co v ch plan w = (x, w')"
  shows "\<exists>e. x = Inl e \<and> undisturbed w w'"
proof -
  let ?e1 = "stage_event co v ch ''upgrade_started'' (StagingTo v ch (pl_arch plan) (pl_variant plan)) None"
  obtain s w2 where ld: "sureS (try_load_state (en_platform env) r) (snd (send_event ?e1 w)) = (Inr (Some s), w2)"
    and s: "st_last_sequence s = n"
    by (rule sees_after_event [OF assms(2,1)])
  have u2: "undisturbed (snd (send_event ?e1 w)) w2"
    by (rule sure_try_load [of "en_platform env" r "snd (send_event ?e1 w)"]) (use ld in simp)
  have "check_sequence m (Some s) \<noteq> Inr ()" using assms(5) s by (simp add: check_sequence_def bail_if_def)
  then obtain e where e: "check_sequence m (Some s) = Inl e" by (cases "check_sequence m (Some s)") auto
  have "stage_admitted env co v ch plan w = (Inl e, w2)"
    unfolding stage_admitted_def Let_def assms(3,4) bindS_pure
    by (simp add: bindS_def sure_event ld pureS_def e)
  then show ?thesis using assms(6) undisturbed_trans [OF event_undisturbed u2] by auto
qed

subsection \<open>Histories\<close>

datatype ('k, 'e, 'c) history_call =
    Watchdog watchdog_call
  | Upgrade "('k, 'e, 'c) upgrade_env" coordinator string string "string option" "string option"

definition stored_sequence :: "'c platform \<Rightarrow> path \<Rightarrow> 'c fs \<Rightarrow> u64 list" where
  "stored_sequence pf r fs =
     (case node_at fs (state_path r) of
        Some (FileNode _ c) \<Rightarrow> (case pf_dec pf c of Inr s \<Rightarrow> [st_last_sequence s] | Inl _ \<Rightarrow> [])
      | _ \<Rightarrow> [])"

text \<open>One call: the sequence stored if it installed a version, and the world after it.\<close>

fun history_run :: "'c platform \<Rightarrow> path \<Rightarrow> ('k, 'e, 'c) history_call \<Rightarrow> 'c world \<Rightarrow> u64 list \<times> 'c world" where
  "history_run pf r (Watchdog c) w = ([], snd (watchdog_run pf r c w))"
| "history_run pf r (Upgrade env co v ch a va) w =
     (case stage (env\<lparr>en_platform := pf\<rparr>) (co\<lparr>co_config := (co_config co)\<lparr>uc_install_root := r\<rparr>\<rparr>) v ch a va w of
        (Inr _, _, w') \<Rightarrow> (stored_sequence pf r (w_fs w'), w')
      | (Inl _, _, w') \<Rightarrow> ([], w'))"

text \<open>Whether the gate of a call reads the state.\<close>

fun sighted :: "'c platform \<Rightarrow> path \<Rightarrow> ('k, 'e, 'c) history_call \<Rightarrow> 'c world \<Rightarrow> bool" where
  "sighted pf r (Watchdog c) w = True"
| "sighted pf r (Upgrade env co v ch a va) w = sees_state pf r w"

fun history :: "'c platform \<Rightarrow> path \<Rightarrow> ('k, 'e, 'c) history_call list \<Rightarrow> 'c world \<Rightarrow> u64 list \<times> bool \<times> 'c world" where
  "history pf r [] w = ([], True, w)"
| "history pf r (c # cs) w =
     (let (ns, w1) = history_run pf r c w; (ms, all_sighted, w2) = history pf r cs w1 in
      (ns @ ms, sighted pf r c w \<and> all_sighted, w2))"

fun in_place :: "('k, 'e, 'c) history_call \<Rightarrow> bool" where
  "in_place (Watchdog c) = True"
| "in_place (Upgrade env co v ch a va) = unpacks_in_place (en_tar env)"

text \<open>Any state in this tree makes \<open>stage\<close> refuse all manifests up to \<open>n\<close>, and perhaps more.\<close>

definition never_below :: "'c platform \<Rightarrow> path \<Rightarrow> u64 \<Rightarrow> 'c fs \<Rightarrow> bool" where
  "never_below pf r n fs =
     (\<forall>s m. holds_state pf (state_path r) fs s \<longrightarrow> check_sequence m (Some s) = Inr () \<longrightarrow> n < mf_sequence m)"

lemma sequence_never_below: "sequence_is pf r k fs \<Longrightarrow> n \<le> k \<Longrightarrow> never_below pf r n fs"
  using sequence_refuses [of pf r k fs] unfolding never_below_def refuses_replays_def by (meson le_less_trans)

lemma stored_of_holds: "holds_state pf (state_path r) fs s \<Longrightarrow> stored_sequence pf r fs = [st_last_sequence s]"
  by (auto simp: holds_state_def stored_sequence_def)

lemma stage_lands:
  assumes "\<forall>x. faithful_state (en_platform env) x" and "stage env co v ch ta va w = (Inr su, co', w')"
  shows "\<exists>s. holds_state (en_platform env) (state_path (uc_install_root (co_config co))) (w_fs w') s"
    and "node_at (w_fs w') (current_link (uc_install_root (co_config co)))
      = Some (LinkNode (version_dir (uc_install_root (co_config co)) v))"
proof -
  let ?co = "co\<lparr>co_lock_taken := True, co_in_flight := True\<rparr>"
  obtain plan where run: "stage_admitted env ?co v ch plan w = (Inr su, w')"
    by (rule stage_ok [OF assms(2)])
  obtain m tb w3 w4 where i: "install env ?co v ch plan m tb w3 = (Inr (su_install_dir su), w4)" and "w_fs w' = w_fs w4"
    by (rule stage_admitted_ok [OF run])
  moreover have "uc_install_root (co_config ?co) = uc_install_root (co_config co)" by simp
  ultimately have "su_install_dir su = version_dir (uc_install_root (co_config co)) v
      \<and> node_at (w_fs w') (current_link (uc_install_root (co_config co))) = Some (LinkNode (su_install_dir su))
      \<and> (\<exists>s. holds_state (en_platform env) (state_path (uc_install_root (co_config co))) (w_fs w') s)"
    using install_lands [OF assms(1) _ i] by auto
  then show "\<exists>s. holds_state (en_platform env) (state_path (uc_install_root (co_config co))) (w_fs w') s"
    and "node_at (w_fs w') (current_link (uc_install_root (co_config co)))
      = Some (LinkNode (version_dir (uc_install_root (co_config co)) v))" by auto
qed

text \<open>A watchdog call keeps the sequence; a sighted staging keeps it or raises it.\<close>

definition grows :: "'c platform \<Rightarrow> path \<Rightarrow> u64 \<Rightarrow> u64 list \<Rightarrow> 'c world \<Rightarrow> 'c world \<Rightarrow> bool" where
  "grows pf r n ns w w' =
     (sorted_wrt (<) (n # ns) \<and> sequence_is pf r (last (n # ns)) (w_fs w')
      \<and> (\<exists>ts. w_trail w' = w_trail w @ ts \<and> list_all (never_below pf r n) ts))"

lemma watchdog_grows:
  assumes "sound_codec pf" and "sequence_is pf r n (w_fs w)"
  shows "grows pf r n [] w (snd (watchdog_run pf r c w))"
proof -
  note run = tripleD [OF kept_watchdog_run [OF assms(1), unfolded kept_def] assms(2), of c]
  obtain ts where ts: "w_trail (snd (watchdog_run pf r c w)) = w_trail w @ ts" "list_all (sequence_is pf r n) ts"
    using run(1) by blast
  moreover have "sequence_is pf r n (w_fs (snd (watchdog_run pf r c w)))"
    using run(2,3) by (cases "fst (watchdog_run pf r c w)") auto
  ultimately show ?thesis by (auto simp: grows_def list_all_iff intro: sequence_never_below)
qed

lemma stage_grows:
  fixes env :: "('k, 'e, 'c) upgrade_env"
  assumes "sound_codec (en_platform env)" and "unpacks_in_place (en_tar env)" and "uc_install_root (co_config co) = r"
    and "sequence_is (en_platform env) r n (w_fs w)" and "sees_state (en_platform env) r w"
    and "stage env co v ch ta va w = (res, co', w')"
  shows "grows (en_platform env) r n (if is_ok res then stored_sequence (en_platform env) r (w_fs w') else []) w w'"
proof -
  let ?pf = "en_platform env" and ?co = "co\<lparr>co_lock_taken := True, co_in_flight := True\<rparr>"
  have root: "uc_install_root (co_config ?co) = r" using assms(3) by simp
  have still: ?thesis if same: "undisturbed w w'" and e: "res = Inl e" for e
  proof -
    obtain ts where ts: "w_trail w' = w_trail w @ ts" "list_all (\<lambda>fs. fs = w_fs w) ts" and fs: "w_fs w' = w_fs w"
      using same unfolding undisturbed_def by blast
    have "list_all (never_below ?pf r n) ts"
      using ts(2) sequence_never_below [OF assms(4), of n] unfolding list_all_iff by auto
    then show ?thesis using ts(1) fs e assms(4) by (simp add: grows_def)
  qed
  consider "w' = w" "\<exists>e. res = Inl e"
    | plan where "stage_admitted env ?co v ch plan w = (Inl (projl res), w')" "\<not> is_ok res"
    | plan su where "stage_admitted env ?co v ch plan w = (Inr su, w')" "res = Inr su"
    using assms(6) by (cases res) (auto elim: stage_ok stage_error)
  then show ?thesis
  proof cases
    case 1
    then show ?thesis using still by (auto simp: undisturbed_def)
  next
    case 2
    then obtain e where e: "res = Inl e" by (cases res) auto
    show ?thesis
    proof (cases "\<exists>m. trusted_manifest env ?co v ch (pl_release_base plan) = Inr m \<and> mf_sequence m \<le> n")
      case True
      then obtain m where "trusted_manifest env ?co v ch (pl_release_base plan) = Inr m" "mf_sequence m \<le> n" by blast
      from replay_refused [OF assms(4,5) root this 2(1)] show ?thesis using still [OF _ e] by blast
    next
      case False
      let ?k = "case trusted_manifest env ?co v ch (pl_release_base plan) of Inr m \<Rightarrow> mf_sequence m | Inl _ \<Rightarrow> n"
      have k: "n \<le> ?k" using False by (auto split: sum.split)
      have "triple (\<lambda>fs. sequence_is ?pf r n fs \<or> sequence_is ?pf r ?k fs) (sequence_is ?pf r n) (stage_admitted env ?co v ch plan)
          (\<lambda>_. sequence_is ?pf r ?k) (sequence_is ?pf r n)"
        by (rule stage_admitted_sequence [OF assms(1,2) root]) simp
      note run = tripleD [OF this assms(4)]
      obtain ts where "w_trail w' = w_trail w @ ts" "list_all (\<lambda>fs. sequence_is ?pf r n fs \<or> sequence_is ?pf r ?k fs) ts"
        using run(1) 2(1) by auto
      moreover have "sequence_is ?pf r n (w_fs w')" using run(3) 2(1) by simp
      ultimately show ?thesis
        using k e by (auto simp: grows_def list_all_iff intro: sequence_never_below dest!: bspec)
    qed
  next
    case 3
    obtain m where m: "trusted_manifest env ?co v ch (pl_release_base plan) = Inr m"
      by (rule stage_admitted_ok [OF 3(1)]) simp
    have newer: "n < mf_sequence m"
      using replay_refused [OF assms(4,5) root m _ 3(1)] by (cases "mf_sequence m \<le> n") auto
    have "triple (\<lambda>fs. sequence_is ?pf r n fs \<or> sequence_is ?pf r (mf_sequence m) fs) (sequence_is ?pf r n)
        (stage_admitted env ?co v ch plan) (\<lambda>_. sequence_is ?pf r (mf_sequence m)) (sequence_is ?pf r n)"
      by (rule stage_admitted_sequence [OF assms(1,2) root]) (simp add: m)
    note run = tripleD [OF this assms(4)]
    obtain ts where ts: "w_trail w' = w_trail w @ ts"
        "list_all (\<lambda>fs. sequence_is ?pf r n fs \<or> sequence_is ?pf r (mf_sequence m) fs) ts"
      using run(1) 3(1) by auto
    have at: "sequence_is ?pf r (mf_sequence m) (w_fs w')" using run(2) 3(1) by simp
    have "\<forall>x. faithful_state ?pf x" using assms(1) by (simp add: sound_codec_def)
    then obtain s where s: "holds_state ?pf (state_path r) (w_fs w') s"
      using stage_lands(1) [of env co v ch ta va w su co' w'] assms(3,6) 3(2) by blast
    then have "st_last_sequence s = mf_sequence m" using at by (auto simp: holds_state_def sequence_is_def)
    then show ?thesis
      using ts at newer 3(2) stored_of_holds [OF s]
      by (auto simp: grows_def list_all_iff intro: sequence_never_below dest!: bspec)
  qed
qed

lemma history_grows:
  assumes "sound_codec pf" and "list_all in_place calls" and "sequence_is pf r n (w_fs w)"
    and "history pf r calls w = (installed, True, w')"
  shows "grows pf r n installed w w'"
  using assms(2-)
proof (induction calls arbitrary: n w installed)
  case Nil
  then show ?case by (simp add: grows_def)
next
  case (Cons c cs)
  obtain ns w1 where c: "history_run pf r c w = (ns, w1)" by fastforce
  obtain ms seen w2 where cs: "history pf r cs w1 = (ms, seen, w2)" by (cases "history pf r cs w1") auto
  have out: "installed = ns @ ms" "w2 = w'" seen "sighted pf r c w" using Cons.prems(3) c cs by auto
  have g: "grows pf r n ns w w1"
  proof (cases c)
    case (Watchdog d)
    then show ?thesis using watchdog_grows [OF assms(1) Cons.prems(2), of d] c by auto
  next
    case (Upgrade env co v ch a va)
    let ?env = "env\<lparr>en_platform := pf\<rparr>" and ?co = "co\<lparr>co_config := (co_config co)\<lparr>uc_install_root := r\<rparr>\<rparr>"
    obtain res co' v' where st: "stage ?env ?co v ch a va w = (res, co', v')" by (cases "stage ?env ?co v ch a va w") auto
    have "grows pf r n (if is_ok res then stored_sequence pf r (w_fs v') else []) w v'"
      using stage_grows [of ?env ?co r n w v ch a va res co' v'] assms(1) Cons.prems(1,2) st out(4) Upgrade
      by (cases res) simp_all
    then show ?thesis using c st Upgrade by (cases res) auto
  qed
  have "sequence_is pf r (last (n # ns)) (w_fs w1)" using g by (simp add: grows_def)
  moreover have "list_all in_place cs" using Cons.prems(1) by simp
  ultimately have h: "grows pf r (last (n # ns)) ms w1 w'"
    using Cons.IH [of "last (n # ns)" w1 ms] cs out(2,3) by simp
  have last: "n \<le> last (n # ns)" using g by (cases ns rule: rev_cases) (auto simp: grows_def)
  obtain ts us where ts: "w_trail w1 = w_trail w @ ts" "list_all (never_below pf r n) ts"
    "w_trail w' = w_trail w1 @ us" "list_all (never_below pf r (last (n # ns))) us"
    using g h by (auto simp: grows_def)
  have "never_below pf r n fs" if "never_below pf r (last (n # ns)) fs" for fs
    using that last unfolding never_below_def by (meson le_less_trans)
  then have "list_all (never_below pf r n) (ts @ us)" using ts by (auto simp: list_all_iff)
  moreover have "sorted_wrt (<) (n # ns @ ms)" "last (n # ns @ ms) = last (last (n # ns) # ms)"
    using g h by (cases ns rule: rev_cases; cases ms; force simp: grows_def sorted_wrt_append)+
  ultimately show ?case using h ts out(1) by (auto simp: grows_def)
qed

subsection \<open>The property\<close>

text \<open>C7: the sequence only grows. Over any history of stagings, boots, beats and ticks on an install root, with any
  calls failing, as long as every staging could read the state at its gate: the sequences of the versions
  installed strictly increase, starting above the one stored at first, so no release is ever installed twice and
  none after a newer one; and in every tree a crash can leave on the way, any state there is makes \<open>stage\<close> refuse
  every release up to the sequence stored at first, at the end up to the last one installed.\<close>

theorem installed_sequences_only_grow:
  assumes "sound_codec pf" and "list_all in_place calls" and "holds_state pf (state_path r) (w_fs w) s"
    and "history pf r calls w = (installed, True, w')"
  shows "sorted_wrt (<) (st_last_sequence s # installed)
    \<and> (\<exists>ts. w_trail w' = w_trail w @ ts \<and> list_all (never_below pf r (st_last_sequence s)) ts)
    \<and> refuses_replays pf r (last (st_last_sequence s # installed)) (w_fs w')"
proof -
  have "sequence_is pf r (st_last_sequence s) (w_fs w)"
    using assms(3) by (auto simp: holds_state_def sequence_is_def)
  from history_grows [OF assms(1,2) this assms(4)] show ?thesis
    unfolding grows_def by (auto intro: sequence_refuses)
qed

theorem installed_sequences_only_grow_witness:
  "\<exists>k w'. history (plain_platform 1) [''r''] [Upgrade sample_env sample_coordinator ''1.2.0'' ''stable'' None None,
        Watchdog (BootWith sample_config), Watchdog Beat] (calm_world cut_off_fs) = ([k], True, w') \<and> 7 < k"
proof -
  let ?pf = "plain_platform 1" and ?w = "calm_world cut_off_fs"
  let ?calls = "[Upgrade sample_env sample_coordinator ''1.2.0'' ''stable'' None None,
    Watchdog (BootWith sample_config), Watchdog Beat]"
  have ne: "take (length target) q \<noteq> target \<Longrightarrow> q \<noteq> target \<and> target \<noteq> []" for target q :: path by auto
  have tar: "unpacks_in_place (en_tar sample_env)"
    by (auto simp: unpacks_in_place_def sample_env_def nodes.node_put dest!: ne)
  have root: "uc_install_root (co_config sample_coordinator) = [''r'']" "en_platform sample_env = ?pf"
    by (simp_all add: sample_coordinator_def coordinator_new_def sample_config_def sample_env_def)
  then have same: "sample_coordinator\<lparr>co_config := (co_config sample_coordinator)\<lparr>uc_install_root := [''r'']\<rparr>\<rparr> = sample_coordinator"
    "sample_env\<lparr>en_platform := ?pf\<rparr> = sample_env"
    by simp_all
  have pf: "sound_codec ?pf" by (simp add: sound_codec_def) (simp add: plain_platform_def)
  have held: "holds_state ?pf (state_path [''r'']) (w_fs ?w) sample_state"
    by (simp add: holds_state_def calm_world_def cut_off_fs_def node_at_def state_path_def plain_platform_def)
  have see: "sees_state ?pf [''r''] ?w" by code_simp
  obtain su co' w1 where st: "stage sample_env sample_coordinator ''1.2.0'' ''stable'' None None ?w = (Inr su, co', w1)"
    by (rule sample_run)
  obtain t where "holds_state ?pf (state_path [''r'']) (w_fs w1) t"
    using stage_lands(1) [OF _ st] pf root by (auto simp only: sound_codec_def)
  from stored_of_holds [OF this] obtain k where k: "stored_sequence ?pf [''r''] (w_fs w1) = [k]" ..
  obtain w' where run: "history ?pf [''r''] ?calls ?w = ([k], True, w')"
    by (simp add: same st k see del: One_nat_def)
  from installed_sequences_only_grow [OF pf _ held run] tar show ?thesis
    using run by (simp add: sample_state_def)
qed

end
