(* ===== verification/Interleaved.thy ===== *)
theory Interleaved
  imports UpgradeHistory
begin

section \<open>The watchdog's tasks beside a staging\<close>

text \<open>
  The documentation spawns \<open>run_watchdog_periodic\<close> and calls \<open>record_healthy_beat\<close> from the gateway's tasks,
  while \<open>stage\<close> runs on another. Both read \<open>state.json\<close> and write it back; the lock that is to cover such a
  sequence (\<open>lock_file\<close>) is taken nowhere, and the locks inside \<open>load\<close> and \<open>save\<close> are let go in between. So
  anything may run between the two halves: a program is cut in two, and another runs in the gap.
\<close>

definition with_gap :: "('a, 'c) io \<Rightarrow> ('c world \<Rightarrow> 'c world) \<Rightarrow> ('a \<Rightarrow> (unit, 'c) io) \<Rightarrow> 'c world \<Rightarrow> 'c world" where
  "with_gap first other rest w =
     (case first w of (Inl e, w1) \<Rightarrow> other w1 | (Inr x, w1) \<Rightarrow> snd (rest x (other w1)))"

text \<open>The second half of a beat, and of the completion of an upgrade.\<close>

definition beat_half :: "'c platform \<Rightarrow> path \<Rightarrow> install_state \<Rightarrow> (unit, 'c) io" where
  "beat_half pf r s =
     bindIO (if st_status s = PendingHealth then bindIO now_io (\<lambda>t. ret (s\<lparr>st_last_health_at := Some t\<rparr>)) else ret s)
       (\<lambda>s'. save_state pf (state_path r) s')"

definition update_half :: "'c platform \<Rightarrow> path \<Rightarrow> (install_state \<Rightarrow> install_state) \<Rightarrow> install_state \<Rightarrow> (unit, 'c) io" where
  "update_half pf r f s = save_state pf (state_path r) (f s)"

text \<open>With nothing in the gap these are the operations themselves.\<close>

lemma beat_is_its_halves:
  "record_healthy_beat pf r w = (Inr (), with_gap (load_state pf (state_path r)) id (beat_half pf r) w)"
  by (simp add: record_healthy_beat_def with_gap_def beat_half_def ignore_def bindIO_def Let_def
      split: prod.split sum.split)

lemma update_is_its_halves:
  "snd (update_state pf (state_path r) f w) = with_gap (load_state pf (state_path r)) id (update_half pf r f) w"
  by (simp add: update_state_def with_gap_def update_half_def bindIO_def split: prod.split sum.split)

definition stage_beside ::
  "('k, 'e, 'c) upgrade_env \<Rightarrow> coordinator \<Rightarrow> string \<Rightarrow> string \<Rightarrow> string option \<Rightarrow> string option \<Rightarrow> 'c world \<Rightarrow> 'c world" where
  "stage_beside env co v ch ta va w = snd (snd (stage env co v ch ta va w))"

lemma write_back_undoes:
  fixes pf :: "'c platform"
  assumes "\<forall>x. faithful_state (en_platform env) x" and "stage env co v ch ta va w1 = (Inr su, co', w2)"
    and "uc_install_root (co_config co) = r" and "save_state (en_platform env) (state_path r) s w2' = (Inr (), w3)"
    and "w_fs w2' = w_fs w2"
  shows "holds_state (en_platform env) (state_path r) (w_fs w3) s
    \<and> node_at (w_fs w3) (current_link r) = Some (LinkNode (version_dir r v))"
proof -
  have f: "faithful_state (en_platform env) s" using assms(1) by blast
  have "node_at (w_fs w2') (current_link r) = Some (LinkNode (version_dir r v))"
    using stage_lands(2) [OF assms(1,2)] assms(3,5) by simp
  from tripleD(2) [OF save_lands [OF f link_not_state] this, of "()"] assms(4) show ?thesis by simp
qed

lemma stable_boot_continues:
  assumes "holds_state pf (state_path (uc_install_root cfg)) (w_fs w) s" and "st_status s = Stable"
    and "run_boot_watchdog pf (Some cfg) w = (Inr x, w')"
  shows "x = Returned WatchdogContinue"
proof (cases "uc_enabled cfg")
  case True
  then show ?thesis using boot_outcome [OF True assms(1,3), of "w_fs w"] assms(2) by (simp add: boot_contract_def)
next
  case False
  then show ?thesis using assms(3) by (simp add: run_boot_watchdog_def ret_def)
qed

text \<open>An install root on which an earlier staging of 1.2.0 was cut off before it saved its state.\<close>

definition settled_state :: install_state where
  "settled_state = sample_state\<lparr>st_status := Stable\<rparr>"

definition settled_fs :: "install_state option fs" where
  "settled_fs =
     [([''r''], 0, DirNode), (state_path [''r''], 0, FileNode 420 (Some settled_state)),
      ([''r'', ''versions''], 0, DirNode), ([''r'', ''versions'', ''1.2.0''], 0, DirNode),
      ([''r'', ''current''], 0, LinkNode [''r'', ''versions'', ''1.2.0''])]"

definition gap_world :: "install_state option world" where
  "gap_world = snd (load_state (plain_platform 1) (state_path [''r'']) (calm_world settled_fs))"

lemma gap_loaded: "load_state (plain_platform 1) (state_path [''r'']) (calm_world settled_fs) = (Inr settled_state, gap_world)"
proof -
  have "fst (load_state (plain_platform 1) (state_path [''r'']) (calm_world settled_fs)) = Inr settled_state" by code_simp
  then show ?thesis by (simp add: gap_world_def prod_eq_iff)
qed

definition sample_plan :: stage_plan where
  "sample_plan = \<lparr>pl_arch = ''x86_64-linux'', pl_variant = ''default'',
     pl_release_base = ''https://github.com/r/releases/download/v1.2.0''\<rparr>"

lemma gap_staged:
  "is_ok (fst (stage_admitted sample_env (sample_coordinator\<lparr>co_lock_taken := True, co_in_flight := True\<rparr>)
     ''1.2.0'' ''stable'' sample_plan gap_world))"
  unfolding stage_admitted_def Let_def sample_plan_def stage_plan.select_convs sample_trusted sample_tarball bindS_pure
  by code_simp

definition gap_staging :: "(upgrade_error + staged_upgrade) \<times> install_state option world" where
  "gap_staging = stage_admitted sample_env (sample_coordinator\<lparr>co_lock_taken := True, co_in_flight := True\<rparr>)
     ''1.2.0'' ''stable'' sample_plan gap_world"

lemma gap_saved: "is_ok (fst (beat_half (plain_platform 1) [''r''] settled_state (snd gap_staging)))"
  unfolding gap_staging_def stage_admitted_def Let_def sample_plan_def stage_plan.select_convs sample_trusted sample_tarball
    bindS_pure
  by code_simp

lemma gap_run:
  obtains su co' where "stage sample_env sample_coordinator ''1.2.0'' ''stable'' None None gap_world
    = (Inr su, co', snd gap_staging)"
proof -
  let ?held = "sample_coordinator\<lparr>co_lock_taken := True, co_in_flight := True\<rparr>"
  have adm: "admit sample_env ?held ''1.2.0'' ''stable'' None None = Inr sample_plan" by code_simp
  have free: "co_lock_taken sample_coordinator = False" by (simp add: sample_coordinator_def coordinator_new_def)
  obtain su where "fst gap_staging = Inr su" using gap_staged by (auto simp only: gap_staging_def is_ok_iff)
  then have run: "stage_admitted sample_env ?held ''1.2.0'' ''stable'' sample_plan gap_world = (Inr su, snd gap_staging)"
    by (simp only: gap_staging_def prod_eq_iff fst_conv snd_conv)
  show thesis
    by (rule that) (simp only: stage_def free if_False Let_def adm bindS_pure run prod.case)
qed

subsection \<open>The property\<close>

text \<open>C8: a beat that is under way undoes a staging. If a version is staged between the two halves of
  \<open>record_healthy_beat\<close>, and the state it had read was stable, then \<open>current\<close> links to the new version but
  \<open>state.json\<close> is the old state again: the old version as current, the old sequence (so the same release is
  accepted once more), and stable. The next boot therefore does not watch the new version, however often it
  crashes: it is never rolled back.\<close>

theorem beat_in_flight_undoes_a_staging:
  assumes "\<forall>x. faithful_state (en_platform env) x" and "uc_install_root (co_config co) = r"
    and "load_state (en_platform env) (state_path r) w = (Inr s, w1)" and "st_status s = Stable"
    and "stage env co version channel target_arch variant w1 = (Inr su, co', w2)"
    and "beat_half (en_platform env) r s w2 = (Inr (), w3)"
  shows "with_gap (load_state (en_platform env) (state_path r)) (stage_beside env co version channel target_arch variant)
       (beat_half (en_platform env) r) w = w3
    \<and> node_at (w_fs w3) (current_link r) = Some (LinkNode (version_dir r version))
    \<and> holds_state (en_platform env) (state_path r) (w_fs w3) s
    \<and> (\<forall>cfg w4 x w5. uc_install_root cfg = r \<and> w_fs w4 = w_fs w3
         \<and> run_boot_watchdog (en_platform env) (Some cfg) w4 = (Inr x, w5) \<longrightarrow> x = Returned WatchdogContinue)"
proof -
  have gap: "with_gap (load_state (en_platform env) (state_path r)) (stage_beside env co version channel target_arch variant)
      (beat_half (en_platform env) r) w = w3"
    using assms(3,5,6) by (simp add: with_gap_def stage_beside_def)
  have save: "save_state (en_platform env) (state_path r) s w2 = (Inr (), w3)"
    using assms(4,6) by (simp add: beat_half_def bindIO_def ret_def)
  have undone: "holds_state (en_platform env) (state_path r) (w_fs w3) s"
    "node_at (w_fs w3) (current_link r) = Some (LinkNode (version_dir r version))"
    using write_back_undoes [OF assms(1,5,2) save refl] by simp_all
  then show ?thesis using gap stable_boot_continues [OF _ assms(4)] by (metis (no_types))
qed

theorem beat_in_flight_undoes_a_staging_witness:
  "let w3 = with_gap (load_state (plain_platform 1) (state_path [''r'']))
       (stage_beside sample_env sample_coordinator ''1.2.0'' ''stable'' None None)
       (beat_half (plain_platform 1) [''r'']) (calm_world settled_fs) in
   node_at (w_fs w3) [''r'', ''current''] = Some (LinkNode [''r'', ''versions'', ''1.2.0''])
     \<and> holds_state (plain_platform 1) [''r'', ''state.json''] (w_fs w3) settled_state"
proof -
  have env: "en_platform sample_env = plain_platform 1" "uc_install_root (co_config sample_coordinator) = [''r'']"
    by (simp_all add: sample_env_def sample_coordinator_def coordinator_new_def sample_config_def)
  have f: "\<forall>x. faithful_state (en_platform sample_env) x" by (simp add: sample_env_def)
  have st: "st_status settled_state = Stable" by (simp add: settled_state_def)
  obtain su co' where run: "stage sample_env sample_coordinator ''1.2.0'' ''stable'' None None gap_world
      = (Inr su, co', snd gap_staging)"
    by (rule gap_run)
  obtain w3 where half: "beat_half (en_platform sample_env) [''r''] settled_state (snd gap_staging) = (Inr (), w3)"
    using gap_saved by (cases "beat_half (plain_platform 1) [''r''] settled_state (snd gap_staging)")
      (auto simp: env is_ok_iff simp del: One_nat_def)
  from beat_in_flight_undoes_a_staging [OF f env(2) gap_loaded [folded env(1)] st run half] show ?thesis
    by (simp add: Let_def env state_path_def current_link_def version_dir_def del: One_nat_def)
qed

end
