(* ===== verification/SerialServer.thy ===== *)
theory SerialServer
  imports Commands
begin

section \<open>What the command workers promise: one serial server\<close>

text \<open>
  The abstract specification of the command workers: a server with a line of commands that may still start,
  at most one command running, the commands done with how they ended, and the outbound channel with what it
  took. The server takes a command into its line, starts the first, finishes the running one and sends its
  answer, forgets its line, or closes for good, with nothing left in its line. No session, worker, turn or queue occurs in it. The pool of workers implements it.
\<close>

record server =
  sv_line :: "(nat \<times> queued_command) list"
  sv_running :: "(nat \<times> queued_command) option"
  sv_done :: "(nat \<times> queued_command \<times> task_end \<times> outbound) list"
  sv_sent :: "(string \<times> json) list"
  sv_outbound :: outbound

definition server_new :: server where
  "server_new = \<lparr>sv_line = [], sv_running = None, sv_done = [], sv_sent = [], sv_outbound = OutOpen\<rparr>"

inductive server_step :: "wire \<Rightarrow> server \<Rightarrow> server \<Rightarrow> bool" for w :: wire where
  server_takes: "sv_outbound s = OutOpen \<Longrightarrow> server_step w s (s\<lparr>sv_line := sv_line s @ [x]\<rparr>)"
| server_starts: "sv_running s = None \<Longrightarrow> sv_line s = x # xs \<Longrightarrow>
     server_step w s (s\<lparr>sv_running := Some x, sv_line := xs\<rparr>)"
| server_finishes: "sv_running s = Some (k, c) \<Longrightarrow>
     server_step w s (s\<lparr>sv_running := None, sv_done := sv_done s @ [(k, c, e, sv_outbound s)],
       sv_sent := sv_sent s @ fst (see_out w c (e, sv_outbound s))\<rparr>)"
| server_forgets: "server_step w s (s\<lparr>sv_line := []\<rparr>)"
| server_closes: "sv_outbound s = OutOpen \<Longrightarrow> sv_line s = [] \<Longrightarrow> sv_running s = None \<longrightarrow> n = 0 \<Longrightarrow>
     server_step w s (s\<lparr>sv_outbound := ClosedAfter n\<rparr>)"

subsection \<open>The abstraction\<close>

text \<open>Only the last session's queue counts, and only until that session is over.\<close>

definition startable :: "pool \<Rightarrow> (nat \<times> queued_command) list" where
  "startable p =
     (if po_workers p \<noteq> [] \<and> wk_over (po_workers p ! last_session p) then [] else waiting p)"

definition server_of :: "pool \<Rightarrow> server" where
  "server_of p = \<lparr>sv_line = startable p, sv_running = (case in_hand p of [] \<Rightarrow> None | x # _ \<Rightarrow> Some x),
     sv_done = po_finished p, sv_sent = po_sent p, sv_outbound = po_outbound p\<rparr>"

lemma startable_set:
  assumes "k < length (po_workers p)" and "wk_over wk = wk_over (po_workers p ! k)"
    and "ch_items (wk_queue wk) = ch_items (wk_queue (po_workers p ! k))"
    and "po_workers q = (po_workers p)[k := wk]"
  shows "startable q = startable p"
  using assms by (auto simp: startable_def waiting_def nth_list_update)

lemma startable_over:
  assumes "turn_inv p" and "k < length (po_workers p)" and "wk_over (po_workers p ! k)"
    and "po_workers q = (po_workers p)[k := wk]" and "wk_over wk"
  shows "startable q = startable p"
  using assms by (auto simp: startable_def waiting_def nth_list_update)

lemma startable_stop_over:
  assumes "turn_inv p" and "k < length (po_workers p)" and "wk_over (po_workers p ! k)"
  shows "startable (stop_worker k p) = startable p"
  by (rule startable_over [OF assms, of _ "(drop_queue (po_workers p ! k))\<lparr>wk_phase := Stopped\<rparr>"])
    (simp_all add: stop_worker_def assms(3))

lemma startable_stop: 
  assumes "k < length (po_workers p)"
  shows "startable (stop_worker k p) = (if k = last_session p then [] else startable p)"
  using assms by (auto simp: startable_def waiting_def stop_worker_def nth_list_update)

lemma startable_logs [simp]:
  "startable (p\<lparr>po_started := a\<rparr>) = startable p" "startable (p\<lparr>po_accepted := a\<rparr>) = startable p"
  "startable (p\<lparr>po_finished := b, po_sent := d\<rparr>) = startable p"
  by (simp_all add: startable_def)

text \<open>Two pools that only differ in what the server does not see.\<close>

lemma server_same:
  assumes "startable q = startable p" and "in_hand q = in_hand p" and "po_finished q = po_finished p"
    and "po_sent q = po_sent p" and "po_outbound q = po_outbound p"
  shows "server_of q = server_of p"
  using assms by (simp add: server_of_def)

lemma server_poll_turn:
  assumes "turn_inv p" and "k < length (po_workers p)" and "wk_phase (po_workers p ! k) \<in> {Spawned, InLine}"
  shows "server_of (poll_turn k p) = server_of p"
proof -
  have k: "po_turn p \<noteq> Some k" "command_in_hand (wk_phase (po_workers p ! k)) = []"
    using assms by (auto simp: turn_inv_def)
  show ?thesis
  proof (cases rule: poll_turn_cases [of k p])
    case stop
    then show ?thesis
      by (intro server_same) (simp_all add: startable_stop_over [OF assms(1,2)] in_hand_stop [OF assms(1,2)] k)
  next
    case (take l)
    have "in_hand (poll_turn k p) = []" using take(1) assms(2) by (simp add: in_hand_def)
    moreover have "in_hand p = []" by (simp add: in_hand_def take(2))
    moreover have "startable (poll_turn k p) = startable p"
      by (rule startable_set [OF assms(2), of "(po_workers p ! k)\<lparr>wk_phase := Idle\<rparr>"]) (simp_all add: take(1))
    ultimately show ?thesis using take(1) by (intro server_same) simp_all
  next
    case (join l)
    have "in_hand (poll_turn k p) = in_hand (set_worker k ((po_workers p ! k)\<lparr>wk_phase := InLine\<rparr>) p)"
      by (simp add: join in_hand_def split: option.split)
    moreover have "startable (poll_turn k p) = startable p"
      by (rule startable_set [OF assms(2), of "(po_workers p ! k)\<lparr>wk_phase := InLine\<rparr>"]) (simp_all add: join)
    ultimately show ?thesis using join k assms(1) by (intro server_same) (simp_all add: in_hand_set)
  qed simp
qed

lemma server_poll_next:
  assumes "turn_inv p" and "k < length (po_workers p)" and "wk_phase (po_workers p ! k) = Idle"
  shows "(server_step w)\<^sup>*\<^sup>* (server_of p) (server_of (poll_next k p))"
proof -
  have h: "po_turn p = Some k" "in_hand p = []" using in_hand_holder [OF assms(1,2)] assms(3) by simp_all
  have stopped: "server_of (stop_worker k p) = (server_of p)\<lparr>sv_line := startable (stop_worker k p)\<rparr>"
    using h in_hand_stop [OF assms(1,2)] by (simp add: server_of_def)
  show ?thesis
  proof (cases rule: poll_next_cases [of k p])
    case stop
    have "startable (stop_worker k p) = [] \<or> startable (stop_worker k p) = startable p"
      using startable_stop [OF assms(2)] by auto
    then show ?thesis
    proof
      assume "startable (stop_worker k p) = []"
      then show ?thesis using server_forgets [of w "server_of p"] stopped stop by simp
    next
      assume "startable (stop_worker k p) = startable p"
      then show ?thesis using stopped stop by (simp add: server_of_def)
    qed
  next
    case (start c q)
    have k: "k = last_session p" "po_workers p \<noteq> []" using not_over_last [OF assms(1,2) start(1)] assms(2) by auto
    have items: "ch_items (wk_queue (po_workers p ! k)) = c # ch_items q"
      using mpsc.pop_contents start(2) by (fastforce simp: recv_Got_iff)
    then have line: "startable p = (k, c) # map (Pair k) (ch_items q)"
      using k start(1) by (auto simp: startable_def waiting_def)
    moreover have "startable (poll_next k p) = map (Pair k) (ch_items q)"
      using k start(1,3) assms(2) by (auto simp: startable_def waiting_def)
    moreover have "in_hand (poll_next k p) = [(k, c)]"
      using h(1) assms(2) start(3) by (simp add: in_hand_def)
    ultimately have "server_of (poll_next k p)
        = (server_of p)\<lparr>sv_running := Some (k, c), sv_line := map (Pair k) (ch_items q)\<rparr>"
      using start(3) by (simp add: server_of_def)
    then show ?thesis
      using server_starts [of "server_of p" "(k, c)" "map (Pair k) (ch_items q)" w] line h(2)
      by (simp add: server_of_def)
  qed simp
qed

lemma server_joined:
  assumes "turn_inv p" and "k < length (po_workers p)" and "wk_phase (po_workers p ! k) \<in> {Running c, Draining c}"
  shows "(server_step w)\<^sup>*\<^sup>* (server_of p) (server_of (command_joined w k c e p))"
proof -
  let ?q = "p\<lparr>po_finished := po_finished p @ [(k, c, e, po_outbound p)],
      po_sent := po_sent p @ fst (see_out w c (e, po_outbound p))\<rparr>"
  let ?s = "(server_of p)\<lparr>sv_running := None, sv_done := po_finished p @ [(k, c, e, po_outbound p)],
      sv_sent := po_sent p @ fst (see_out w c (e, po_outbound p))\<rparr>"
  have h: "po_turn p = Some k" "in_hand p = [(k, c)]" using in_hand_holder [OF assms(1,2)] assms(3) by auto
  then have fin: "server_step w (server_of p) ?s"
    using server_finishes [of "server_of p" k c w e] by (simp add: server_of_def)
  have "turn_inv ?q" using assms(1) by simp
  then have "in_hand (stop_worker k ?q) = []" using in_hand_stop [of ?q k] assms(2) h by simp
  then have stop: "server_of (stop_worker k ?q) = ?s\<lparr>sv_line := startable (stop_worker k ?q)\<rparr>"
    by (simp add: server_of_def)
  have idle: "server_of (set_worker k ((po_workers p ! k)\<lparr>wk_phase := Idle\<rparr>) ?q) = ?s"
  proof -
    have "in_hand (set_worker k ((po_workers p ! k)\<lparr>wk_phase := Idle\<rparr>) ?q) = []"
      using h assms(2) by (simp add: in_hand_def)
    moreover have "startable (set_worker k ((po_workers p ! k)\<lparr>wk_phase := Idle\<rparr>) ?q) = startable ?q"
      by (rule startable_set [of k _ "(po_workers p ! k)\<lparr>wk_phase := Idle\<rparr>"]) (simp_all add: assms(2))
    ultimately show ?thesis by (simp add: server_of_def)
  qed
  have "(server_step w)\<^sup>*\<^sup>* (server_of p) (server_of (stop_worker k ?q))"
    using fin server_forgets [of w ?s] stop startable_stop [of k ?q] assms(2)
    by (cases "k = last_session ?q")
      (auto simp: server_of_def intro: rtranclp.rtrancl_into_rtrancl [OF r_into_rtranclp])
  then show ?thesis using fin idle by (auto simp: command_joined_def Let_def split_beta)
qed

lemma server_refines:
  assumes "pool_step w p p'" and "turn_inv p" and "out_inv p"
  shows "(server_step w)\<^sup>*\<^sup>* (server_of p) (server_of p')"
  using assms
proof (induction rule: pool_step.induct)
  case (step_spawn p)
  then have "startable p = []" "startable (p\<lparr>po_workers := po_workers p @ [worker_new]\<rparr>) = []"
    by (auto simp: startable_def waiting_def worker_new_def chan_new_def)
  moreover have "in_hand (p\<lparr>po_workers := po_workers p @ [worker_new]\<rparr>) = in_hand p"
    using step_spawn(3) by (auto simp: in_hand_def turn_inv_def nth_append split: option.splits)
  ultimately have "server_of (p\<lparr>po_workers := po_workers p @ [worker_new]\<rparr>) = server_of p"
    by (intro server_same) simp_all
  then show ?case by simp
next
  case (step_accept p k i f wk)
  let ?c = "\<lparr>qc_id = i, qc_frame = f, qc_held = permit_cost (length f)\<rparr>"
  let ?p = "(set_worker k wk p)\<lparr>po_accepted := po_accepted p @ [(k, ?c)]\<rparr>"
  note wk = queue_command_accepted [OF step_accept(4)]
  have "startable ?p = startable p @ [(k, ?c)]"
    using step_accept(1-3) wk by (simp add: startable_def waiting_def)
  moreover have "in_hand ?p = in_hand p" using step_accept(5) wk(2) by (simp add: in_hand_set)
  ultimately have "server_of ?p = (server_of p)\<lparr>sv_line := sv_line (server_of p) @ [(k, ?c)]\<rparr>"
    by (simp add: server_of_def)
  moreover have "po_outbound p = OutOpen"
    by (rule closed_over [OF step_accept(6), of k]) (use step_accept(1-3) in simp_all)
  then have "sv_outbound (server_of p) = OutOpen" by (simp add: server_of_def)
  ultimately show ?case using server_takes [of "server_of p" w "(k, ?c)"] by simp
next
  case (step_loop_ended p k)
  let ?wk = "(po_workers p ! k)\<lparr>wk_queue := drop_tx (wk_queue (po_workers p ! k))\<rparr>"
  have "startable (set_worker k ?wk p) = startable p"
    by (rule startable_set [of k _ ?wk]) (use step_loop_ended in \<open>simp_all add: drop_tx_def\<close>)
  then have "server_of (set_worker k ?wk p) = server_of p"
    using step_loop_ended(4) by (intro server_same) (simp_all add: in_hand_set)
  then show ?case by simp
next
  case (step_session_over p k)
  let ?wk = "(po_workers p ! k)\<lparr>wk_queue := drop_tx (wk_queue (po_workers p ! k)), wk_over := True\<rparr>"
  have "startable (set_worker k ?wk p) = []"
    using step_session_over(1,2) by (simp add: startable_def)
  then have "server_of (set_worker k ?wk p) = (server_of p)\<lparr>sv_line := []\<rparr>"
    using step_session_over(4) by (simp add: server_of_def in_hand_set)
  then show ?case using server_forgets [of w "server_of p"] by simp
next
  case (step_see_over k p c)
  have "startable (see_over k c p) = startable p"
    by (rule startable_over [OF step_see_over(4,1,3), of _ "(drop_queue (po_workers p ! k))\<lparr>wk_phase := Draining c\<rparr>"])
      (simp_all add: see_over_def step_see_over(3))
  moreover have "in_hand (see_over k c p) = in_hand p"
    using step_see_over(2,4) by (simp add: see_over_def in_hand_set)
  ultimately have "server_of (see_over k c p) = server_of p"
    by (intro server_same) (simp_all add: see_over_def)
  then show ?case by simp
next
  case (step_poll_turn k p)
  then show ?case using server_poll_turn by simp
next
  case (step_close p n)
  have "startable p = []" using step_close(2) by (auto simp: startable_def waiting_def)
  moreover have "startable (close_outbound n p) = startable p" by (simp add: startable_def)
  ultimately have "server_of (close_outbound n p) = (server_of p)\<lparr>sv_outbound := ClosedAfter n\<rparr>"
    "sv_line (server_of p) = []"
    by (simp_all add: server_of_def)
  moreover have "sv_outbound (server_of p) = OutOpen" "sv_running (server_of p) = None \<longrightarrow> n = 0"
    using step_close(1,3) by (auto simp: server_of_def split: list.splits)
  ultimately show ?case using server_closes [of "server_of p" n w] by simp
qed (simp_all add: server_poll_next server_joined)

interpretation serial: step_refinement "\<lambda>p. p = pool_new" "pool_step w" "pool_inv w" "\<lambda>s. s = server_new" "server_step w" server_of
  for w
proof unfold_locales
  show "server_of p = server_new" if "p = pool_new" for p
    using that by (simp add: server_of_def server_new_def pool_new_def startable_def waiting_def in_hand_def)
  show "(server_step w)\<^sup>*\<^sup>* (server_of p) (server_of p')" if "pool_inv w p" "pool_step w p p'" for p p'
    using that server_refines by (simp add: pool_inv_def)
qed

subsection \<open>Properties\<close>

text \<open>C6: the command workers implement one serial server. A pool that has just been made is an idle server,
  every reachable pool is a state the server can reach, and whatever steps the pool takes from there, with
  sessions ending and beginning, workers waiting for the turn and queues being dropped, are steps of the
  server: it takes commands in, starts the first in its line when nothing runs, finishes the running one and
  sends its answer while the outbound channel is open, forgets its line, or closes, after which it takes nothing
  in.\<close>

theorem workers_implement_a_serial_server:
  assumes "reachable (\<lambda>p. p = pool_new) (pool_step w) p"
  shows "server_of pool_new = server_new
    \<and> reachable (\<lambda>s. s = server_new) (server_step w) (server_of p)
    \<and> (\<forall>p'. (pool_step w)\<^sup>*\<^sup>* p p' \<longrightarrow> (server_step w)\<^sup>*\<^sup>* (server_of p) (server_of p'))"
  using serial.refines_init serial.reachable_refines [OF assms] serial.steps_refine [of w p]
    pools.reachable_inv [OF assms] by blast

theorem workers_implement_a_serial_server_witness:
  "reachable (\<lambda>s. s = server_new) (server_step mute_wire)
     \<lparr>sv_line = [(0, sample_command)], sv_running = None, sv_done = [], sv_sent = [], sv_outbound = OutOpen\<rparr>"
proof -
  have "server_of sample_pool = \<lparr>sv_line = [(0, sample_command)], sv_running = None, sv_done = [], sv_sent = [], sv_outbound = OutOpen\<rparr>"
    by (simp add: server_of_def startable_def waiting_def in_hand_def sample_pool_def pool_new_def worker_new_def)
  then show ?thesis using workers_implement_a_serial_server [OF sample_pool_reachable] by metis
qed

end
