(* ===== verification/Link.thy ===== *)
theory Link
  imports Session SerialServer
begin

section \<open>Reader, loop and workers together (src/ws_client.rs)\<close>

text \<open>
  \<open>run_session\<close> joins three parts: the reader, the loop that routes what the reader hands over, and the
  command worker of the session; the client runs one session after another. Here they are one step system:
  the reader of the session at hand, the pool of the workers of all sessions, and what the sessions before
  have read. It implements the pool, so what holds of the workers holds of it, and it shows what no part
  shows alone: which frames of the manager a command that runs comes from.
\<close>

record link =
  ln_reader :: reader
  ln_pool :: pool
  ln_past :: "(nat \<times> string) list"

definition link_new :: "instant \<Rightarrow> link" where
  "link_new t = \<lparr>ln_reader = reader_new t, ln_pool = pool_new, ln_past = []\<rparr>"

text \<open>The reader and the loop run until the loop returns, which drops the worker's sender, or the session is
  cancelled.\<close>

definition in_session :: "pool \<Rightarrow> bool" where
  "in_session p = (po_workers p \<noteq> [] \<and> \<not> wk_over (po_workers p ! last_session p)
     \<and> ch_tx_open (wk_queue (po_workers p ! last_session p)))"

text \<open>A text taken by the loop is routed at once; what the worker's queue took is logged.\<close>

definition route_text :: "wire \<Rightarrow> string \<Rightarrow> pool \<Rightarrow> pool" where
  "route_text w frame p =
     (let k = last_session p; wk = po_workers p ! k; wk' = snd (route_inbound w frame wk)
      in (set_worker k wk' p)\<lparr>po_accepted := po_accepted p
           @ map (Pair k) (drop (length (ch_items (wk_queue wk))) (ch_items (wk_queue wk')))\<rparr>)"

definition take_in :: "wire \<Rightarrow> link \<Rightarrow> link" where
  "take_in w s =
     (case recv (rd_inbound (ln_reader s)) of
        Got (InText frame n) c \<Rightarrow> s\<lparr>ln_reader := on_take (ln_reader s), ln_pool := route_text w frame (ln_pool s)\<rparr>
      | _ \<Rightarrow> s\<lparr>ln_reader := on_take (ln_reader s)\<rparr>)"

subsection \<open>What was read\<close>

fun text_read :: "ws_read \<Rightarrow> string list" where
  "text_read (ReadText t) = [t]"
| "text_read _ = []"

fun text_in :: "inbound \<Rightarrow> string list" where
  "text_in (InText t _) = [t]"
| "text_in _ = []"

definition texts_read :: "reader \<Rightarrow> string list" where
  "texts_read r = concat (map text_read (rd_reads r))"

definition texts_taken :: "reader \<Rightarrow> string list" where
  "texts_taken r = concat (map text_in (rd_taken r))"

text \<open>Every text read from the manager, with the session that read it, in the order they were read.\<close>

definition link_read :: "link \<Rightarrow> (nat \<times> string) list" where
  "link_read s = ln_past s @ map (Pair (last_session (ln_pool s))) (texts_read (ln_reader s))"

subsection \<open>The steps\<close>

text \<open>The reader reads, waits or judges silence; the loop takes and routes; the workers move, the loop ends or
  the session does; once every session is over the next one begins with a reader and a worker of its own,
  unless the client's loop has ended.\<close>

inductive link_step :: "wire \<Rightarrow> link \<Rightarrow> link \<Rightarrow> bool" for w :: wire where
  link_reader: "in_session (ln_pool s) \<Longrightarrow> reader_step (ln_reader s) r \<Longrightarrow> rd_taken r = rd_taken (ln_reader s) \<Longrightarrow>
     link_step w s (s\<lparr>ln_reader := r\<rparr>)"
| link_loop: "in_session (ln_pool s) \<Longrightarrow> rd_routing (ln_reader s) = 0 \<Longrightarrow> link_step w s (take_in w s)"
| link_workers: "pool_step w (ln_pool s) p \<Longrightarrow> po_accepted p = po_accepted (ln_pool s) \<Longrightarrow>
     length (po_workers p) = length (po_workers (ln_pool s)) \<Longrightarrow> link_step w s (s\<lparr>ln_pool := p\<rparr>)"
| link_session: "po_outbound (ln_pool s) = OutOpen \<Longrightarrow> \<forall>wk\<in>set (po_workers (ln_pool s)). wk_over wk \<Longrightarrow>
     link_step w s \<lparr>ln_reader = reader_new t,
       ln_pool = (ln_pool s)\<lparr>po_workers := po_workers (ln_pool s) @ [worker_new]\<rparr>, ln_past = link_read s\<rparr>"

subsection \<open>Routing is the pool's accepting\<close>

text \<open>A command the queue took is one of the manager's: the frame says so and carries its id.\<close>

definition command_of :: "wire \<Rightarrow> queued_command \<Rightarrow> bool" where
  "command_of w c =
     (case parse_incoming w (qc_frame c) of
        None \<Rightarrow> False
      | Some m \<Rightarrow> im_type m = ''command''
          \<and> qc_id c = (case get_str (im_payload m) ''command_id'' of Some i \<Rightarrow> i | None \<Rightarrow> []))"

lemma set_worker_same [simp]: "set_worker k (po_workers p ! k) p = p"
  by (simp add: set_worker_def)

lemma accepted_same [simp]: "po_accepted p = a \<Longrightarrow> p\<lparr>po_accepted := a\<rparr> = p"
  by auto

lemma route_text_cases [consumes 1, case_names nothing accepted]:
  assumes "in_session p"
  obtains "route_text w frame p = p"
  | c where "pool_step w p (route_text w frame p)" "po_accepted (route_text w frame p) = po_accepted p @ [(last_session p, c)]"
      "qc_frame c = frame" "command_of w c" "length (po_workers (route_text w frame p)) = length (po_workers p)"
proof (cases "snd (route_inbound w frame (po_workers p ! last_session p)) = po_workers p ! last_session p")
  case True
  then have "route_text w frame p = p" by (simp add: route_text_def Let_def)
  then show thesis by (rule that(1))
next
  case False
  let ?k = "last_session p"
  let ?id = "\<lambda>m. case get_str (im_payload m) ''command_id'' of Some i \<Rightarrow> i | None \<Rightarrow> []"
  from False obtain m wk where m: "parse_incoming w frame = Some m" "im_type m = ''command''"
    and q: "queue_command (?id m) frame (po_workers p ! ?k) = Accepted wk"
    and r: "snd (route_inbound w frame (po_workers p ! ?k)) = wk"
    by (auto simp: route_inbound_def Let_def split: option.splits if_splits queueing.splits)
  let ?c = "\<lparr>qc_id = ?id m, qc_frame = frame, qc_held = permit_cost (length frame)\<rparr>"
  have p': "route_text w frame p = (set_worker ?k wk p)\<lparr>po_accepted := po_accepted p @ [(?k, ?c)]\<rparr>"
    unfolding route_text_def Let_def r by (simp add: queue_command_accepted(1) [OF q])
  have "pool_step w p (route_text w frame p)"
    unfolding p' using assms q by (intro step_accept) (simp_all add: in_session_def)
  then show thesis by (rule that(2) [of ?c]) (simp_all add: p' command_of_def m)
qed

subsection \<open>The invariant\<close>

definition accepted_frames :: "pool \<Rightarrow> (nat \<times> string) list" where
  "accepted_frames p = map (\<lambda>(k, c). (k, qc_frame c)) (po_accepted p)"

lemma accepted_frames_new: "accepted_frames pool_new = []" "po_accepted pool_new = []"
  by (simp_all add: accepted_frames_def pool_new_def)

definition link_inv :: "wire \<Rightarrow> link \<Rightarrow> bool" where
  "link_inv w s =
     (pool_inv w (ln_pool s) \<and> reader_inv (ln_reader s)
      \<and> subseq (accepted_frames (ln_pool s))
          (ln_past s @ map (Pair (last_session (ln_pool s))) (texts_taken (ln_reader s)))
      \<and> list_all (\<lambda>(k, c). command_of w c) (po_accepted (ln_pool s)))"

lemma texts_taken_new [simp]: "texts_taken (reader_new t) = []"
  by (simp add: texts_taken_def reader_new_def)

lemma texts_not_ping: "concat (map text_in (filter not_ping xs)) = concat (map text_in xs)"
proof (induction xs)
  case (Cons x xs)
  then show ?case by (cases x) simp_all
qed simp

lemma texts_wanted: "concat (map text_in (concat (map wanted rs))) = concat (map text_read rs)"
proof (induction rs)
  case (Cons r rs)
  then show ?case by (cases r) simp_all
qed simp

text \<open>What the loop has taken is the front of what was read.\<close>

lemma texts_read_split:
  assumes "reader_inv r"
  shows "texts_read r = texts_taken r @ concat (map text_in (ch_items (rd_inbound r) @ pending (rd_phase r)))"
proof -
  have "filter not_ping (rd_taken r @ ch_items (rd_inbound r)) @ pending (rd_phase r) = concat (map wanted (rd_reads r))"
    using assms by (simp add: reader_inv_def all_wanted_def)
  from arg_cong [OF this, of "\<lambda>xs. concat (map text_in xs)"] show ?thesis
    by (simp add: texts_wanted texts_not_ping texts_read_def texts_taken_def)
qed

lemma accepted_in_read:
  assumes "link_inv w s"
  shows "subseq (accepted_frames (ln_pool s)) (link_read s)"
proof -
  let ?tag = "map (Pair (last_session (ln_pool s)))"
  have "reader_inv (ln_reader s)" using assms by (simp add: link_inv_def)
  then obtain ts where "texts_read (ln_reader s) = texts_taken (ln_reader s) @ ts"
    using texts_read_split by blast
  then have "link_read s = (ln_past s @ ?tag (texts_taken (ln_reader s))) @ ?tag ts" by (simp add: link_read_def)
  moreover have "subseq (accepted_frames (ln_pool s)) (ln_past s @ ?tag (texts_taken (ln_reader s)))"
    using assms by (simp add: link_inv_def)
  ultimately show ?thesis by (simp only: subseq_rev_drop_many)
qed

lemma link_inv_take:
  assumes "link_inv w s" and "in_session (ln_pool s)" and "rd_routing (ln_reader s) = 0"
  shows "link_inv w (take_in w s)"
proof -
  have rd: "reader_inv (on_take (ln_reader s))"
    using assms(1,3) by (simp add: link_inv_def reader_inv_take)
  show ?thesis
  proof (cases "recv (rd_inbound (ln_reader s))")
    case (Got h c)
    have taken: "texts_taken (on_take (ln_reader s)) = texts_taken (ln_reader s) @ text_in h"
      by (simp add: texts_taken_def on_take_def Got)
    show ?thesis
    proof (cases h)
      case (InText frame n)
      have s': "take_in w s = s\<lparr>ln_reader := on_take (ln_reader s), ln_pool := route_text w frame (ln_pool s)\<rparr>"
        by (simp add: take_in_def Got InText)
      from assms(2) show ?thesis
      proof (cases rule: route_text_cases [of "ln_pool s" w frame])
        case nothing
        then show ?thesis
          using assms(1) rd subseq_rev_drop_many [of _ _ "[(last_session (ln_pool s), frame)]"]
          by (simp add: s' link_inv_def taken InText flip: append_assoc)
      next
        case (accepted q)
        then show ?thesis
          using assms(1) rd pool_inv_step [OF _ accepted(1)]
          by (simp add: s' link_inv_def taken InText accepted_frames_def flip: append_assoc)
      qed
    qed (use assms(1) rd taken in \<open>simp_all add: take_in_def Got link_inv_def\<close>)
  qed (use assms(1) in \<open>simp_all add: take_in_def link_inv_def on_take_def\<close>)
qed

lemma link_inv_step: "link_step w s s' \<Longrightarrow> link_inv w s \<Longrightarrow> link_inv w s'"
proof (induction rule: link_step.induct)
  case (link_reader s r)
  then show ?case using reader_inv_step by (auto simp: link_inv_def texts_taken_def)
next
  case (link_loop s)
  then show ?case by (intro link_inv_take)
next
  case (link_workers s p)
  then show ?case using pool_inv_step by (auto simp: link_inv_def accepted_frames_def)
next
  case (link_session s t)
  have "pool_inv w ((ln_pool s)\<lparr>po_workers := po_workers (ln_pool s) @ [worker_new]\<rparr>)"
    using link_session pool_inv_step [OF _ step_spawn] by (simp add: link_inv_def)
  then show ?case
    using link_session accepted_in_read [OF link_session(3)]
    by (simp add: link_inv_def reader_inv_new accepted_frames_def)
qed

lemma link_refines_pool: "link_step w s s' \<Longrightarrow> (pool_step w)\<^sup>*\<^sup>* (ln_pool s) (ln_pool s')"
proof (induction rule: link_step.induct)
  case (link_loop s)
  have "(pool_step w)\<^sup>*\<^sup>* (ln_pool s) (route_text w frame (ln_pool s))" for frame
    using link_loop(1) by (cases rule: route_text_cases [of "ln_pool s" w frame]) auto
  then show ?case by (auto simp: take_in_def split: received.splits inbound.splits)
next
  case (link_session s t)
  then show ?case using step_spawn by auto
qed auto

interpretation linked: step_refinement "\<lambda>s. \<exists>t. s = link_new t" "link_step w" "link_inv w" "\<lambda>p. p = pool_new" "pool_step w" ln_pool
  for w
proof unfold_locales
  show "link_inv w s" if "\<exists>t. s = link_new t" for s
    using that pool_inv_new by (auto simp: link_inv_def link_new_def reader_inv_new accepted_frames_new)
qed (auto simp: link_new_def intro: link_inv_step link_refines_pool)

subsection \<open>One command through the whole link\<close>

text \<open>A wire on which every text is the command \<open>c1\<close>, and the link after the manager sent one.\<close>

definition command_wire :: wire where
  "command_wire = \<lparr>w_to_text = (\<lambda>_. []), w_of_text = (\<lambda>_. Inr (json_obj [(''type'', JStr ''command''),
     (''payload'', json_obj [(''command_id'', JStr ''c1'')])]))\<rparr>"

definition session_link :: link where
  "session_link = \<lparr>ln_reader = reader_new 0, ln_pool = pool_new\<lparr>po_workers := [worker_new]\<rparr>, ln_past = []\<rparr>"

definition read_link :: link where
  "read_link = session_link\<lparr>ln_reader := on_room 3 (InText ''{}'' 2) (on_budget ''{}''
     (on_read 2 (ReadText ''{}'') (reader_new 0)))\<rparr>"

definition running_link :: link where
  "running_link = (let s = take_in command_wire read_link
     in s\<lparr>ln_pool := poll_next 0 (poll_turn 0 (ln_pool s))\<rparr>)"

lemma read_link_reader: "ln_reader read_link = \<lparr>rd_cadence = on_frame 3 (on_frame 2 (cadence_new 0)), rd_phase = Reading,
    rd_inbound = (chan_new inbound_channel_size)\<lparr>ch_items := [InText ''{}'' 2]\<rparr>, rd_budget = inbound_budget_bytes - 2,
    rd_routing = 0, rd_reads = [ReadText ''{}''], rd_taken = []\<rparr>"
  by (simp add: read_link_def session_link_def reader_new_def on_read_def on_budget_def on_room_def try_send_def
      try_acquire_def permit_cost_def inbound_budget_bytes_def max_inbound_ws_bytes_def chan_new_def inbound_channel_size_def)

lemma taken_link: "take_in command_wire read_link = read_link\<lparr>ln_reader := on_take (ln_reader read_link), ln_pool := sample_pool\<rparr>"
proof -
  have "snd (route_inbound command_wire ''{}'' worker_new) = worker_new\<lparr>wk_queue := (chan_new 64)\<lparr>ch_items := [sample_command]\<rparr>,
      wk_budget := command_queue_bytes - 2\<rparr>"
    by (simp add: route_inbound_def parse_incoming_def command_wire_def queue_command_def try_acquire_def permit_cost_def
        worker_new_def try_send_def chan_new_def command_queue_size_def command_queue_bytes_def max_inbound_ws_bytes_def
        sample_command_def)
  then have "route_text command_wire ''{}'' (pool_new\<lparr>po_workers := [worker_new]\<rparr>) = sample_pool"
    by (simp add: route_text_def Let_def sample_pool_def set_worker_def pool_new_def worker_new_def chan_new_def)
  then show ?thesis
    by (simp add: take_in_def read_link_reader recv_def) (simp add: read_link_def session_link_def)
qed

lemma reader_moves:
  assumes "reachable init (link_step w) s" and "in_session (ln_pool s)" and "reader_step (ln_reader s) r"
    and "rd_taken r = rd_taken (ln_reader s)" and "t = s\<lparr>ln_reader := r\<rparr>"
  shows "reachable init (link_step w) t"
  using reach_step [OF assms(1) link_reader [OF assms(2-4)]] assms(5) by simp

lemma workers_move:
  assumes "reachable init (link_step w) s" and "pool_step w (ln_pool s) p" and "po_accepted p = po_accepted (ln_pool s)"
    and "length (po_workers p) = length (po_workers (ln_pool s))" and "t = s\<lparr>ln_pool := p\<rparr>"
  shows "reachable init (link_step w) t"
  using reach_step [OF assms(1) link_workers [OF assms(2-4)]] assms(5) by simp

lemma read_link_reachable: "reachable (\<lambda>s. \<exists>t. s = link_new t) (link_step w) read_link"
proof -
  let ?r1 = "on_read 2 (ReadText ''{}'') (reader_new 0)"
  let ?r2 = "on_budget ''{}'' ?r1"
  have on: "in_session (ln_pool (session_link\<lparr>ln_reader := r\<rparr>))" "in_session (ln_pool session_link)" for r
    by (simp_all add: in_session_def session_link_def worker_new_def chan_new_def)
  have r0: "rd_phase (reader_new 0) = Reading" "rd_taken (reader_new 0) = []" by (simp_all add: reader_new_def)
  have r1: "rd_phase ?r1 = WantBudget ''{}''" "rd_taken ?r1 = []"
    by (simp_all add: on_read_def reader_new_def)
  have r2: "rd_phase ?r2 = WantRoom (InText ''{}'' 2)" "rd_taken ?r2 = []"
    by (simp_all add: on_read_def reader_new_def on_budget_def try_acquire_def permit_cost_def inbound_budget_bytes_def
        max_inbound_ws_bytes_def)
  have room: "rd_taken (on_room 3 (InText ''{}'' 2) ?r2) = []"
    using read_link_reader by (simp add: read_link_def)
  have "link_step w (link_new 0) session_link"
    using link_session [of "link_new 0" w 0]
    by (simp add: link_new_def session_link_def pool_new_def link_read_def texts_read_def reader_new_def)
  then have "reachable (\<lambda>s. \<exists>t. s = link_new t) (link_step w) session_link"
    by (rule reach_step [rotated]) (rule reach_init, rule exI, rule refl)
  then have "reachable (\<lambda>s. \<exists>t. s = link_new t) (link_step w) (session_link\<lparr>ln_reader := ?r1\<rparr>)"
    by (rule reader_moves [OF _ on(2)]) (simp_all only: link.simps, simp_all add: rs_read r0 r1 session_link_def)
  then have "reachable (\<lambda>s. \<exists>t. s = link_new t) (link_step w) (session_link\<lparr>ln_reader := ?r2\<rparr>)"
    by (rule reader_moves [OF _ on(1)]) (simp_all add: rs_budget r1 r2)
  then show ?thesis
    by (rule reader_moves [OF _ on(1), where r = "on_room 3 (InText ''{}'' 2) ?r2"])
      (simp_all add: rs_room r2 room read_link_def)
qed

lemma running_link_reachable: "reachable (\<lambda>s. \<exists>t. s = link_new t) (link_step command_wire) running_link"
proof -
  let ?s = "take_in command_wire read_link"
  have "link_step command_wire read_link ?s"
    by (rule link_loop) (simp_all add: read_link_reader, simp add: read_link_def session_link_def in_session_def worker_new_def chan_new_def)
  then have s: "reachable (\<lambda>s. \<exists>t. s = link_new t) (link_step command_wire) ?s"
    by (rule reach_step [OF read_link_reachable])
  have pool: "ln_pool ?s = sample_pool" by (simp add: taken_link)
  have idle: "poll_turn 0 sample_pool = sample_pool\<lparr>po_workers := [(po_workers sample_pool ! 0)\<lparr>wk_phase := Idle\<rparr>], po_turn := Some 0\<rparr>"
    by (simp add: poll_turn_def sample_pool_def worker_new_def pool_new_def set_worker_def)
  have step1: "pool_step command_wire sample_pool (poll_turn 0 sample_pool)"
    by (rule step_poll_turn) (simp_all add: sample_pool_def worker_new_def)
  have step2: "pool_step command_wire (poll_turn 0 sample_pool) (poll_next 0 (poll_turn 0 sample_pool))"
    by (rule step_poll_next) (simp_all add: idle)
  have len: "length (po_workers (poll_turn 0 sample_pool)) = length (po_workers sample_pool)"
    "po_accepted (poll_turn 0 sample_pool) = po_accepted sample_pool"
    "length (po_workers (poll_next 0 (poll_turn 0 sample_pool))) = length (po_workers (poll_turn 0 sample_pool))"
    "po_accepted (poll_next 0 (poll_turn 0 sample_pool)) = po_accepted (poll_turn 0 sample_pool)"
    unfolding idle by (simp_all add: sample_pool_def worker_new_def poll_next_def recv_def)
  have "reachable (\<lambda>s. \<exists>t. s = link_new t) (link_step command_wire) (?s\<lparr>ln_pool := poll_turn 0 sample_pool\<rparr>)"
    by (rule workers_move [OF s _ _ _ refl]) (simp_all add: pool step1 len)
  then show ?thesis
    by (rule workers_move [where p = "poll_next 0 (poll_turn 0 sample_pool)"])
      (simp_all add: step2 len, simp add: running_link_def pool)
qed

subsection \<open>Properties\<close>

text \<open>C5: what runs is what the manager sent, in the order it sent it, reader, loop and workers taken together
  and over all sessions. The commands started come from text frames read from the manager, each from a frame
  of its own, in the order the frames were read and in the session that read them; every one of those frames
  is a command and carries the id it runs under; and the commands run, are answered and are forgotten as by
  the one serial server.\<close>

theorem commands_run_in_wire_order:
  assumes "reachable (\<lambda>s. \<exists>t. s = link_new t) (link_step w) s"
  shows "subseq (map (\<lambda>(k, c). (k, qc_frame c)) (po_started (ln_pool s))) (link_read s)
    \<and> list_all (\<lambda>(k, c). command_of w c) (po_started (ln_pool s))
    \<and> reachable (\<lambda>v. v = server_new) (server_step w) (server_of (ln_pool s))"
proof -
  have inv: "link_inv w s" by (rule linked.reachable_inv [OF assms])
  then have "order_inv (ln_pool s)" by (simp add: link_inv_def pool_inv_def)
  then have sub: "subseq (po_started (ln_pool s)) (po_accepted (ln_pool s))"
    unfolding order_inv_def by (rule list_emb_appendD [THEN exE]) auto
  have "subseq (map (\<lambda>(k, c). (k, qc_frame c)) (po_started (ln_pool s))) (accepted_frames (ln_pool s))"
    unfolding accepted_frames_def by (rule subseq_map [OF sub])
  then have "subseq (map (\<lambda>(k, c). (k, qc_frame c)) (po_started (ln_pool s))) (link_read s)"
    by (rule subseq_order.trans [OF _ accepted_in_read [OF inv]])
  moreover have "set (po_started (ln_pool s)) \<subseteq> set (po_accepted (ln_pool s))"
    using sub by (auto elim: list_emb_set)
  then have "list_all (\<lambda>(k, c). command_of w c) (po_started (ln_pool s))"
    using inv unfolding link_inv_def list_all_iff by (elim conjE) (rule ballI, erule bspec, erule subsetD)
  moreover have "reachable (\<lambda>v. v = server_new) (server_step w) (server_of (ln_pool s))"
    by (rule serial.reachable_refines [OF linked.reachable_refines [OF assms]])
  ultimately show ?thesis by (intro conjI)
qed

theorem commands_run_in_wire_order_witness:
  "map (\<lambda>(k, c). (k, qc_frame c)) (po_started (ln_pool running_link)) = [(0, ''{}'')]
    \<and> subseq [(0, ''{}'')] (link_read running_link)"
proof -
  have "map (\<lambda>(k, c). (k, qc_frame c)) (po_started (ln_pool running_link)) = [(0, ''{}'')]"
    by (simp add: running_link_def taken_link poll_turn_def poll_next_def sample_pool_def worker_new_def pool_new_def
        set_worker_def recv_def sample_command_def)
  then show ?thesis using commands_run_in_wire_order [OF running_link_reachable] by simp
qed

end
