(* ===== verification/CredentialFile.thy ===== *)
theory CredentialFile
  imports FsLogic Auth
begin

section \<open>The credential file (src/auth.rs)\<close>

text \<open>
  \<open>PersistedCredentials\<close>, \<open>load_credentials\<close>, \<open>persist_credentials\<close> and \<open>CredentialStore\<close>, one system
  call at a time over the file system of \<open>Fs\<close>. The JSON text and its UTF-8 check are a codec, an
  argument. A path is absolute, so only the root has no parent.
\<close>

record persisted_credentials =
  pc_node_id :: "string option"
  pc_node_secret :: "string option"
  pc_registration_token :: "string option"

definition persisted_default :: persisted_credentials where
  "persisted_default = \<lparr>pc_node_id = None, pc_node_secret = None, pc_registration_token = None\<rparr>"

definition persisted_has_credentials :: "persisted_credentials \<Rightarrow> bool" where
  "persisted_has_credentials c = (pc_node_id c \<noteq> None \<and> pc_node_secret c \<noteq> None)"

record 'c cred_codec =
  cc_enc :: "persisted_credentials \<Rightarrow> string + 'c"
  cc_utf8 :: "'c \<Rightarrow> bool"
  cc_dec :: "'c \<Rightarrow> string + persisted_credentials"
  cc_empty :: 'c

definition show_path :: "path \<Rightarrow> string" where
  "show_path p = (if p = [] then ''/'' else concat (map (\<lambda>c. CHR ''/'' # c) p))"

text \<open>The text of a system call's error, and the error the code makes of it.\<close>

fun os_error :: "anyhow \<Rightarrow> string" where
  "os_error (Source e # _) = e"
| "os_error _ = []"

definition credentials_io :: "string \<Rightarrow> path \<Rightarrow> string \<Rightarrow> sdk_error" where
  "credentials_io what p e = CredentialsIo (what @ '' '' @ show_path p @ '': '' @ e)"

definition cred_call :: "string \<Rightarrow> path \<Rightarrow> ('a, 'c) io \<Rightarrow> (sdk_error, 'a, 'c) prog" where
  "cred_call what p m = ioS (\<lambda>e. credentials_io what p (os_error e)) m"

text \<open>\<open>File::create\<close>: an existing file is cut to nothing and keeps its mode, a new one gets 0644, which is 0666 under
  the usual umask of 022.\<close>

definition sys_create :: "path \<Rightarrow> 'c \<Rightarrow> (unit, 'c) io" where
  "sys_create p c = syscall (\<lambda>fs t.
     case resolve fs p of
       None \<Rightarrow> Inl ''Too many levels of symbolic links''
     | Some q \<Rightarrow>
         (case node_at fs q of
            Some (FileNode m _) \<Rightarrow> Inr ((), put_node t q (FileNode m c) fs)
          | None \<Rightarrow> if parent_is_dir fs q
                     then Inr ((), touch t (butlast q) (put_node t q (FileNode 420 c) fs))
                     else Inl ''No such file or directory''
          | Some _ \<Rightarrow> Inl ''Is a directory''))"

text \<open>\<open>std::fs::write\<close>\<close>

definition fs_write :: "path \<Rightarrow> 'c \<Rightarrow> 'c \<Rightarrow> (unit, 'c) io" where
  "fs_write p blank c = bindIO (sys_create p blank) (\<lambda>_. sys_write p c)"

definition load_credentials :: "'c cred_codec \<Rightarrow> path \<Rightarrow> (sdk_error, persisted_credentials, 'c) prog" where
  "load_credentials cc p =
     bindS (cred_call ''stat'' p (path_exists p)) (\<lambda>there.
     if \<not> there then pureS (Inr persisted_default)
     else
       bindS (cred_call ''read'' p (sys_read p)) (\<lambda>text.
       bindS (pureS (if cc_utf8 cc text then Inr ()
                     else Inl (credentials_io ''read'' p ''stream did not contain valid UTF-8''))) (\<lambda>_.
       pureS (map_err Json (cc_dec cc text)))))"

definition persist_credentials :: "'c cred_codec \<Rightarrow> path \<Rightarrow> persisted_credentials \<Rightarrow> (sdk_error, unit, 'c) prog" where
  "persist_credentials cc p creds =
     bindS (if p = [] then pureS (Inr ()) else cred_call ''mkdir'' (butlast p) (sys_create_dir_all (butlast p))) (\<lambda>_.
     bindS (pureS (map_err Json (cc_enc cc creds))) (\<lambda>json.
     bindS (cred_call ''write'' p (fs_write p (cc_empty cc) json)) (\<lambda>_.
     cred_call ''chmod'' p (sys_chmod p 384))))"

record credential_store =
  cst_path :: path

definition credential_store_new :: "path \<Rightarrow> credential_store" where
  "credential_store_new p = \<lparr>cst_path = p\<rparr>"

definition store_load :: "'c cred_codec \<Rightarrow> credential_store \<Rightarrow> (sdk_error, persisted_credentials, 'c) prog" where
  "store_load cc s = load_credentials cc (cst_path s)"

definition store_save :: "'c cred_codec \<Rightarrow> credential_store \<Rightarrow> persisted_credentials \<Rightarrow> (sdk_error, unit, 'c) prog" where
  "store_save cc s creds = persist_credentials cc (cst_path s) creds"

subsection \<open>A file behind links\<close>

lemma resolve_n_not_link: "resolve_n n fs p = Some q \<Longrightarrow> node_at fs q \<noteq> Some (LinkNode r)"
  by (induction n fs p rule: resolve_n.induct) (auto split: option.splits node.splits)

lemma resolve_n_put_file:
  "resolve_n n fs p = Some q \<Longrightarrow> q \<noteq> [] \<Longrightarrow> resolve_n n (put_node t q (FileNode m c) fs) p = Some q"
proof (induction n arbitrary: p)
  case (Suc n)
  show ?case
  proof (cases "\<exists>r. node_at fs p = Some (LinkNode r)")
    case True
    then obtain r where r: "node_at fs p = Some (LinkNode r)" ..
    then have "resolve_n n fs r = Some q" using Suc.prems(1) by simp
    moreover have "p \<noteq> q" using r resolve_n_not_link [OF Suc.prems(1)] by auto
    ultimately show ?thesis using Suc.IH [of r] Suc.prems(2) r by (simp add: nodes.node_put)
  next
    case False
    then have "p = q" using Suc.prems(1) by (auto split: option.splits node.splits)
    then show ?thesis using Suc.prems(2) by (simp add: nodes.node_put)
  qed
qed simp

lemma resolve_n_cong: "(\<And>q. node_at fs' q = node_at fs q) \<Longrightarrow> resolve_n n fs' p = resolve_n n fs p"
  by (induction n arbitrary: p) (auto split: option.splits node.splits)

lemma followed_put_file:
  assumes "resolve fs p = Some q" and "q \<noteq> []"
    and "\<And>r. node_at fs' r = node_at (put_node t q (FileNode m c) fs) r"
  shows "resolve fs' p = Some q" "node_at fs' q = Some (FileNode m c)"
  using assms resolve_n_put_file [of 41 fs p q t m c] resolve_n_cong [of fs' "put_node t q (FileNode m c) fs" 41 p]
  by (simp_all add: resolve_def nodes.node_put)

subsection \<open>Successful calls\<close>

lemma cred_call_ok: "cred_call what p m w = (Inr x, w') \<longleftrightarrow> m w = (Inr x, w')"
  by (simp add: cred_call_def ioS_ok)

lemmas cred_ok = bindS_ok pureS_iff cred_call_ok

lemma create_ok:
  assumes "sys_create p c w = (Inr u, w')"
  shows "\<exists>q m. w_trail w' = w_trail w @ [w_fs w'] \<and> q \<noteq> [] \<and> resolve (w_fs w') p = Some q
     \<and> node_at (w_fs w') q = Some (FileNode m c) \<and> (node_at (w_fs w) p = None \<longrightarrow> m = 420)"
proof -
  obtain fs' where f: "(case resolve (w_fs w) p of
       None \<Rightarrow> Inl ''Too many levels of symbolic links''
     | Some q \<Rightarrow>
         (case node_at (w_fs w) q of
            Some (FileNode m _) \<Rightarrow> Inr ((), put_node (w_time w (w_calls w)) q (FileNode m c) (w_fs w))
          | None \<Rightarrow> if parent_is_dir (w_fs w) q
                     then Inr ((), touch (w_time w (w_calls w)) (butlast q)
                       (put_node (w_time w (w_calls w)) q (FileNode 420 c) (w_fs w)))
                     else Inl ''No such file or directory''
          | Some _ \<Rightarrow> Inl ''Is a directory'')) = Inr ((), fs')"
    and w': "w' = w\<lparr>w_calls := Suc (w_calls w), w_fs := fs', w_trail := w_trail w @ [fs']\<rparr>"
    using assms unfolding sys_create_def syscall_ok by auto
  obtain q m t where q: "resolve (w_fs w) p = Some q" "q \<noteq> []"
      "\<forall>r. node_at fs' r = node_at (put_node t q (FileNode m c) (w_fs w)) r" "node_at (w_fs w) q = None \<longrightarrow> m = 420"
    using f by (fastforce simp: parent_is_dir_def node_at_def [of _ "[]"] split: option.splits node.splits if_splits)
  have "node_at (w_fs w) p = None \<longrightarrow> m = 420" using q(1,4) resolve_none [of "w_fs w" p] by auto
  then show ?thesis using followed_put_file [OF q(1,2), of fs' t m c] q w' by auto
qed

lemma write_ok:
  assumes "sys_write p c w = (Inr u, w')" and "resolve (w_fs w) p = Some q" and "q \<noteq> []"
    and "node_at (w_fs w) q = Some (FileNode m d)"
  shows "w_trail w' = w_trail w @ [w_fs w'] \<and> resolve (w_fs w') p = Some q \<and> node_at (w_fs w') q = Some (FileNode m c)"
  using assms followed_put_file [OF assms(2,3)] by (auto simp: sys_write_def syscall_ok)

lemma chmod_ok:
  assumes "sys_chmod p mode w = (Inr u, w')" and "resolve (w_fs w) p = Some q" and "q \<noteq> []"
    and "node_at (w_fs w) q = Some (FileNode m c)"
  shows "w_trail w' = w_trail w @ [w_fs w'] \<and> resolve (w_fs w') p = Some q \<and> node_at (w_fs w') q = Some (FileNode mode c)"
  using assms followed_put_file [OF assms(2,3)] by (auto simp: sys_chmod_def syscall_ok)

lemma create_dir_all_ok:
  assumes "sys_create_dir_all d w = (Inr u, w')" and "\<And>n. p \<noteq> take n d"
  shows "\<exists>ts. w_trail w' = w_trail w @ ts" "node_at (w_fs w') p = node_at (w_fs w) p"
proof -
  let ?ps = "map (\<lambda>n. take n d) [1..<Suc (length d)]"
  obtain fs' t where m: "make_dirs t ?ps (w_fs w) = Inr fs'"
    and w': "w_fs w' = fs'" "w_trail w' = w_trail w @ [fs']"
    using assms(1) by (auto simp: sys_create_dir_all_def syscall_ok result_simps)
  have "\<forall>q\<in>set ?ps. q \<noteq> []" "p \<notin> set ?ps" using assms(2) by auto
  then show "node_at (w_fs w') p = node_at (w_fs w) p" using make_dirs_nodes [OF m] w' by blast
  show "\<exists>ts. w_trail w' = w_trail w @ ts" using w' by blast
qed

lemma persist_ok:
  assumes "persist_credentials cc p creds w = (Inr u, w')" and "cc_enc cc creds = Inr json"
  shows "\<exists>ts fs1 fs2 m. followed (w_fs w') p = Some (FileNode 384 json)
     \<and> w_trail w' = w_trail w @ ts @ [fs1, fs2, w_fs w']
     \<and> followed fs1 p = Some (FileNode m (cc_empty cc)) \<and> followed fs2 p = Some (FileNode m json)
     \<and> (node_at (w_fs w) p = None \<longrightarrow> m = 420)"
proof -
  obtain w1 w2 w3 where mk: "p = [] \<and> w1 = w \<or> p \<noteq> [] \<and> sys_create_dir_all (butlast p) w = (Inr (), w1)"
    and cr: "sys_create p (cc_empty cc) w1 = (Inr (), w2)" and wr: "sys_write p json w2 = (Inr (), w3)"
    and ch: "sys_chmod p 384 w3 = (Inr (), w')"
    using assms by (auto simp: persist_credentials_def cred_ok fs_write_def bindIO_ok map_err_def split: if_splits)
  have ne: "p \<noteq> take n (butlast p)" if "p \<noteq> []" for n
  proof
    assume eq: "p = take n (butlast p)"
    have "length (take n (butlast p)) < length p" using that by (cases p) auto
    from this [folded eq] show False by simp
  qed
  have mkdir: "(\<exists>ts. w_trail w1 = w_trail w @ ts) \<and> node_at (w_fs w1) p = node_at (w_fs w) p" if "p \<noteq> []"
  proof -
    have "sys_create_dir_all (butlast p) w = (Inr (), w1)" using mk that by simp
    from create_dir_all_ok [OF this ne [OF that]] show ?thesis by (rule conjI)
  qed
  then have t: "\<exists>ts. w_trail w1 = w_trail w @ ts" using mk by (cases "p = []") auto
  have p: "p \<noteq> [] \<Longrightarrow> node_at (w_fs w1) p = node_at (w_fs w) p" using mkdir by blast
  obtain q m where "w_trail w2 = w_trail w1 @ [w_fs w2] \<and> q \<noteq> [] \<and> resolve (w_fs w2) p = Some q
      \<and> node_at (w_fs w2) q = Some (FileNode m (cc_empty cc)) \<and> (node_at (w_fs w1) p = None \<longrightarrow> m = 420)"
    using create_ok [OF cr] by (elim exE)
  then have q: "w_trail w2 = w_trail w1 @ [w_fs w2]" "q \<noteq> []" "resolve (w_fs w2) p = Some q"
      "node_at (w_fs w2) q = Some (FileNode m (cc_empty cc))" "node_at (w_fs w1) p = None \<longrightarrow> m = 420"
    by simp_all
  have "node_at (w_fs w) [] = Some DirNode" by (simp add: node_at_def)
  then have m: "node_at (w_fs w) p = None \<longrightarrow> m = 420" using q(5) p by (cases "p = []") simp_all
  have 3: "w_trail w3 = w_trail w2 @ [w_fs w3]" "resolve (w_fs w3) p = Some q" "node_at (w_fs w3) q = Some (FileNode m json)"
    using write_ok [OF wr q(3,2,4)] by simp_all
  moreover have "w_trail w' = w_trail w3 @ [w_fs w']" "resolve (w_fs w') p = Some q" "node_at (w_fs w') q = Some (FileNode 384 json)"
    using chmod_ok [OF ch 3(2) q(2) 3(3)] by simp_all
  moreover obtain ts where "w_trail w1 = w_trail w @ ts" using t by blast
  ultimately have "w_trail w' = w_trail w @ ts @ [w_fs w2, w_fs w3, w_fs w']"
    "followed (w_fs w') p = Some (FileNode 384 json)" "followed (w_fs w2) p = Some (FileNode m (cc_empty cc))"
    "followed (w_fs w3) p = Some (FileNode m json)"
    using 3 q by (simp_all add: followed_def)
  with m show ?thesis
    by (intro exI [of _ ts] exI [of _ "w_fs w2"] exI [of _ "w_fs w3"] exI [of _ m] conjI) assumption+
qed

lemma load_file:
  assumes "load_credentials cc p w = (Inr got, w')" and "followed (w_fs w) p = Some (FileNode m c)"
    and "\<not> w_fault w (w_calls w)"
  shows "cc_dec cc c = Inr got"
proof -
  obtain there w1 where e: "path_exists p w = (Inr there, w1)" by (simp add: path_exists_def query_def)
  then have there: "there" "w_fs w1 = w_fs w" using assms(2,3) by (auto simp: path_exists_def query_def)
  then obtain buf w2 where r: "sys_read p w1 = (Inr buf, w2)" and d: "cc_dec cc buf = Inr got"
    using assms(1) e by (auto simp: load_credentials_def cred_ok result_simps split: if_splits)
  have "buf = c" using r there(2) assms(2) by (auto simp: sys_read_def syscall_ok)
  then show ?thesis using d by simp
qed

subsection \<open>Properties\<close>

text \<open>C30: saved credentials are loaded back, from a file that ends with mode 0600 but does not begin with it.
  After a successful save to a file, through links or not, a load of that tree that succeeds gives exactly the
  saved credentials. On the way the file is on the disk cut to nothing, and then with its full contents under the
  mode of the old file, or 0644 if it is new, before its mode becomes 0600.\<close>

theorem saved_credentials_are_loaded_back:
  assumes "store_save cc s creds w = (Inr (), w')" and "cc_enc cc creds = Inr json"
    and "cc_dec cc json = Inr creds" and "store_load cc s v = (Inr got, v')" and "w_fs v = w_fs w'"
    and "\<not> w_fault v (w_calls v)"
  shows "got = creds \<and> followed (w_fs w') (cst_path s) = Some (FileNode 384 json)
    \<and> (\<exists>ts fs1 fs2 m. w_trail w' = w_trail w @ ts @ [fs1, fs2, w_fs w']
         \<and> followed fs1 (cst_path s) = Some (FileNode m (cc_empty cc))
         \<and> followed fs2 (cst_path s) = Some (FileNode m json)
         \<and> (node_at (w_fs w) (cst_path s) = None \<longrightarrow> m = 420))"
proof -
  note persisted = persist_ok [OF assms(1) [unfolded store_save_def] assms(2)]
  then have f: "followed (w_fs w') (cst_path s) = Some (FileNode 384 json)" by auto
  then have "cc_dec cc json = Inr got"
    using load_file [OF assms(4) [unfolded store_load_def]] assms(5,6) by simp
  then show ?thesis using persisted f assms(3) by auto
qed

text \<open>A codec whose text is the credentials themselves, a file-less tree, and a world without faults.\<close>

definition plain_codec :: "persisted_credentials option cred_codec" where
  "plain_codec = \<lparr>cc_enc = (\<lambda>c. Inr (Some c)), cc_utf8 = (\<lambda>_. True),
     cc_dec = (\<lambda>t. case t of Some c \<Rightarrow> Inr c | None \<Rightarrow> Inl ''EOF''), cc_empty = None\<rparr>"

definition quiet_world :: "'c fs \<Rightarrow> 'c world" where
  "quiet_world fs = \<lparr>w_fs = fs, w_trail = [], w_calls = 0, w_fault = (\<lambda>_. False), w_time = (\<lambda>_. 0),
     w_events = chan_new 1\<rparr>"

theorem saved_credentials_are_loaded_back_witness:
  "let s = credential_store_new [''c'']; creds = persisted_default\<lparr>pc_node_id := Some ''n''\<rparr>;
       (r, w') = store_save plain_codec s creds (quiet_world [])
   in r = Inr () \<and> fst (store_load plain_codec s (quiet_world (w_fs w'))) = Inr creds"
proof -
  let ?s = "credential_store_new [''c'']" and ?creds = "persisted_default\<lparr>pc_node_id := Some ''n''\<rparr>"
  obtain w' where save: "store_save plain_codec ?s ?creds (quiet_world []) = (Inr (), w')"
      "w_fs w' = [([''c''], 0, FileNode 384 (Some ?creds))]"
    by (simp add: store_save_def persist_credentials_def bindS_def pureS_def cred_call_def ioS_def map_err_def
        sys_create_dir_all_def fs_write_def bindIO_def sys_create_def sys_write_def sys_chmod_def syscall_def Let_def
        credential_store_new_def quiet_world_def plain_codec_def bindR_def resolve_none resolve_file node_at_def
        put_node_def touch_def parent_is_dir_def mtime_at_def)
  obtain got v' where load: "store_load plain_codec ?s (quiet_world (w_fs w')) = (Inr got, v')"
    by (simp add: save(2) store_load_def load_credentials_def bindS_def pureS_def cred_call_def ioS_def map_err_def
        path_exists_def query_def sys_read_def syscall_def Let_def credential_store_new_def quiet_world_def
        plain_codec_def followed_def resolve_file node_at_def)
  have "got = ?creds"
    using saved_credentials_are_loaded_back [OF save(1) _ _ load, of "Some ?creds"]
    by (simp add: plain_codec_def quiet_world_def)
  then show ?thesis using save(1) load by simp
qed

end
