(* ===== verification/Serde.thy ===== *)
theory Serde
  imports Externals "HOL-Library.Monad_Syntax"
begin

section \<open>Derived serialisation of structs\<close>

text \<open>
  The pieces of which the derived writers and readers of the program's structs are made, one for each serde
  attribute the source uses, at the level of JSON values: a member written always or left out for \<open>None\<close>,
  a member that must be there, may be null, or has a default, and the types of members with their ranges.
  Reading is of JSON objects (the positional arrays serde also reads for a struct are left out, nothing
  writes them); unknown members are passed over. \<open>usize\<close> has 64 bits.
\<close>

type_synonym i64 = "64 word"

subsection \<open>Writing\<close>

text \<open>\<open>skip_serializing_if = "Option::is_none"\<close>\<close>

definition skip_none :: "string \<Rightarrow> ('a \<Rightarrow> json) \<Rightarrow> 'a option \<Rightarrow> (string \<times> json) list" where
  "skip_none k f x = (case x of None \<Rightarrow> [] | Some v \<Rightarrow> [(k, f v)])"

definition of_i64 :: "i64 \<Rightarrow> json" where "of_i64 x = JNum (NInt (sint x))"
definition of_usize :: "u64 \<Rightarrow> json" where "of_usize x = JNum (NInt (uint x))"

subsection \<open>Reading\<close>

fun as_bool :: "json \<Rightarrow> bool option" where
  "as_bool (JBool b) = Some b"
| "as_bool _ = None"

fun as_i64 :: "json \<Rightarrow> i64 option" where
  "as_i64 (JNum (NInt i)) = (if - (2 ^ 63) \<le> i \<and> i < 2 ^ 63 then Some (word_of_int i) else None)"
| "as_i64 _ = None"

fun as_usize :: "json \<Rightarrow> u64 option" where
  "as_usize (JNum (NInt i)) = (if 0 \<le> i \<and> i < 2 ^ 64 then Some (word_of_int i) else None)"
| "as_usize _ = None"

fun as_list :: "(json \<Rightarrow> 'a option) \<Rightarrow> json \<Rightarrow> 'a list option" where
  "as_list f (JArr js) = those (map f js)"
| "as_list f _ = None"

fun is_null :: "json \<Rightarrow> bool" where
  "is_null JNull = True"
| "is_null _ = False"

text \<open>A member that must be there, one of an \<open>Option\<close> type, which may be absent or null, and one with
  \<open>#[serde(default)]\<close>.\<close>

definition member :: "(json \<Rightarrow> 'a option) \<Rightarrow> json \<Rightarrow> string \<Rightarrow> 'a option" where
  "member f v k = (case jget v k of None \<Rightarrow> None | Some j \<Rightarrow> f j)"

definition member_opt :: "(json \<Rightarrow> 'a option) \<Rightarrow> json \<Rightarrow> string \<Rightarrow> 'a option option" where
  "member_opt f v k =
     (case jget v k of None \<Rightarrow> Some None | Some j \<Rightarrow> if is_null j then Some None else map_option Some (f j))"

definition member_or :: "'a \<Rightarrow> (json \<Rightarrow> 'a option) \<Rightarrow> json \<Rightarrow> string \<Rightarrow> 'a option" where
  "member_or d f v k = (case jget v k of None \<Rightarrow> Some d | Some j \<Rightarrow> f j)"

subsection \<open>What is read back\<close>

lemma of_i64_read [simp]: "as_i64 (of_i64 x) = Some x"
  using sint_greater_eq [of x] sint_less [of x] by (simp add: of_i64_def)

lemma of_usize_read [simp]: "as_usize (of_usize x) = Some x"
  using uint_lt2p [of x] by (simp add: of_usize_def)

lemma not_null [simp]: "\<not> is_null (of_i64 x)" "\<not> is_null (of_usize y)" "\<not> is_null (JStr s)"
  by (simp_all add: of_i64_def of_usize_def)

lemma those_map: "(\<And>x. x \<in> set xs \<Longrightarrow> f (g x) = Some x) \<Longrightarrow> those (map f (map g xs)) = Some xs"
  by (induction xs) simp_all

lemma those_Some_iff: "(\<exists>ys. those (map f xs) = Some ys) \<longleftrightarrow> list_all (\<lambda>x. \<exists>y. f x = Some y) xs"
  by (induction xs) (auto split: option.splits)

lemma strings_read [simp]: "those (map (as_str \<circ> JStr) xs) = Some xs"
  using those_map [of xs as_str JStr] by simp

text \<open>An option that is left out or written, and read back.\<close>

lemma map_of_skip_none [simp]:
  "map_of (skip_none k f x) k' = (if k' = k then map_option f x else None)"
  by (simp add: skip_none_def split: option.split)

lemma option_read:
  "jget v k = map_option f x \<Longrightarrow> (\<And>y. \<not> is_null (f y)) \<Longrightarrow> (\<And>y. g (f y) = Some y) \<Longrightarrow> member_opt g v k = Some x"
  by (cases x) (simp_all add: member_opt_def)

lemma usize_read: "jget v k = map_option of_usize x \<Longrightarrow> member_opt as_usize v k = Some x"
  by (erule option_read) simp_all

lemma i64_read: "jget v k = map_option of_i64 x \<Longrightarrow> member_opt as_i64 v k = Some x"
  by (erule option_read) simp_all

lemma str_read: "jget v k = map_option JStr x \<Longrightarrow> member_opt as_str v k = Some x"
  by (erule option_read) simp_all

lemmas options_read = usize_read i64_read str_read

text \<open>A read fails exactly when one of its parts does.\<close>

lemma bind_None_iff: "Option.bind x f = None \<longleftrightarrow> x = None \<or> f (the x) = None"
  by (cases x) simp_all

end
