(* ===== verification/Serialised.thy ===== *)
theory Serialised
  imports InstallState CredentialFile GwConfig Utf8 Serde Envelope
begin

section \<open>The serialised forms: install state, credentials, configuration\<close>

text \<open>
  What \<open>state.json\<close> (src/upgrade/state.rs), the credential file (src/auth.rs) and a gateway's configuration
  (src/config.rs) look like as JSON values, by the serde attributes on the structs, and the codecs that
  \<open>InstallState\<close> and \<open>CredentialFile\<close> take as arguments, built from them. The text of a JSON value and the
  RFC 3339 text of a date stay arguments.
\<close>

subsection \<open>The install state\<close>

record date_codec =
  dc_show :: "utc \<Rightarrow> string"
  dc_parse :: "string \<Rightarrow> utc option"

fun status_str :: "upgrade_status \<Rightarrow> string" where
  "status_str Stable = ''stable''"
| "status_str PendingHealth = ''pending_health''"
| "status_str RolledBack = ''rolled_back''"
| "status_str StagedManual = ''staged_manual''"

definition as_status :: "json \<Rightarrow> upgrade_status option" where
  "as_status v = do { s \<leftarrow> as_str v;
     map_of [(''stable'', Stable), (''pending_health'', PendingHealth), (''rolled_back'', RolledBack),
       (''staged_manual'', StagedManual)] s }"

fun as_u32 :: "json \<Rightarrow> u32 option" where
  "as_u32 (JNum (NInt i)) = (if 0 \<le> i \<and> i < 2 ^ 32 then Some (word_of_int i) else None)"
| "as_u32 _ = None"

definition of_u32 :: "u32 \<Rightarrow> json" where "of_u32 x = JNum (NInt (uint x))"

definition of_date :: "date_codec \<Rightarrow> utc \<Rightarrow> json" where "of_date dc t = JStr (dc_show dc t)"

definition as_date :: "date_codec \<Rightarrow> json \<Rightarrow> utc option" where
  "as_date dc v = do { s \<leftarrow> as_str v; dc_parse dc s }"

definition state_json :: "date_codec \<Rightarrow> install_state \<Rightarrow> json" where
  "state_json dc s = json_obj ([(''current_version'', JStr (st_current_version s))]
     @ skip_none ''previous_version'' JStr (st_previous_version s)
     @ [(''channel'', JStr (st_channel s)), (''variant'', JStr (st_variant s)), (''arch'', JStr (st_arch s)),
        (''status'', JStr (status_str (st_status s))), (''boot_attempts'', of_u32 (st_boot_attempts s)),
        (''staged_at'', of_date dc (st_staged_at s))]
     @ skip_none ''last_health_at'' (of_date dc) (st_last_health_at s)
     @ [(''last_sequence'', of_usize (st_last_sequence s))])"

definition read_state :: "date_codec \<Rightarrow> json \<Rightarrow> install_state option" where
  "read_state dc v = do {
     cv \<leftarrow> member as_str v ''current_version''; pv \<leftarrow> member_opt as_str v ''previous_version'';
     ch \<leftarrow> member as_str v ''channel''; va \<leftarrow> member as_str v ''variant''; ar \<leftarrow> member as_str v ''arch'';
     st \<leftarrow> member as_status v ''status''; ba \<leftarrow> member_or 0 as_u32 v ''boot_attempts'';
     sa \<leftarrow> member (as_date dc) v ''staged_at''; lh \<leftarrow> member_opt (as_date dc) v ''last_health_at'';
     sq \<leftarrow> member_or 0 as_usize v ''last_sequence'';
     Some \<lparr>st_current_version = cv, st_previous_version = pv, st_channel = ch, st_variant = va, st_arch = ar,
       st_status = st, st_boot_attempts = ba, st_staged_at = sa, st_last_health_at = lh, st_last_sequence = sq\<rparr> }"

subsection \<open>The credentials\<close>

text \<open>No attribute skips an absent member here: \<open>None\<close> is written as null.\<close>

definition or_null :: "string option \<Rightarrow> json" where
  "or_null x = (case x of None \<Rightarrow> JNull | Some s \<Rightarrow> JStr s)"

definition credentials_json :: "persisted_credentials \<Rightarrow> json" where
  "credentials_json c = json_obj [(''node_id'', or_null (pc_node_id c)), (''node_secret'', or_null (pc_node_secret c)),
     (''registration_token'', or_null (pc_registration_token c))]"

definition read_credentials :: "json \<Rightarrow> persisted_credentials option" where
  "read_credentials v = (case v of JObj _ \<Rightarrow> do {
       i \<leftarrow> member_opt as_str v ''node_id''; s \<leftarrow> member_opt as_str v ''node_secret'';
       t \<leftarrow> member_opt as_str v ''registration_token'';
       Some \<lparr>pc_node_id = i, pc_node_secret = s, pc_registration_token = t\<rparr> }
     | _ \<Rightarrow> None)"

subsection \<open>The configuration\<close>

text \<open>A text of Unicode scalars as the bytes of a JSON string.\<close>

definition of_text :: "ustring \<Rightarrow> json" where
  "of_text s = JStr (map (\<lambda>b. char_of (unat b)) (utf8_encode s))"

definition as_text :: "json \<Rightarrow> ustring option" where
  "as_text v = do { s \<leftarrow> as_str v; from_utf8 (map (\<lambda>c. word_of_nat (of_char c)) s) }"

text \<open>\<open>serde_duration_secs\<close>: whole seconds.\<close>

definition of_secs :: "duration \<Rightarrow> json" where
  "of_secs d = JNum (NInt (int (as_secs d)))"

definition as_duration :: "json \<Rightarrow> duration option" where
  "as_duration v = map_option (\<lambda>s. secs (unat s)) (as_usize v)"

definition backoff_json :: "reconnect_backoff \<Rightarrow> json" where
  "backoff_json b = json_obj [(''steps_secs'', JArr (map of_usize (steps_secs b)))]"

definition read_backoff :: "json \<Rightarrow> reconnect_backoff option" where
  "read_backoff v = do { ss \<leftarrow> member (as_list as_usize) v ''steps_secs''; Some \<lparr>steps_secs = ss\<rparr> }"

definition config_json :: "gateway_config \<Rightarrow> json" where
  "config_json c = json_obj ([(''manager_urls'', JArr (map JStr (cfg_manager_urls c))),
      (''device_type'', JStr (cfg_device_type c)), (''software_version'', JStr (cfg_software_version c))]
     @ skip_none ''node_id'' JStr (cfg_node_id c) @ skip_none ''node_secret'' JStr (cfg_node_secret c)
     @ skip_none ''registration_token'' JStr (cfg_registration_token c)
     @ [(''accept_self_signed_cert'', JBool (cfg_accept_self_signed_cert c)),
        (''allow_plaintext_ws'', JBool (cfg_allow_plaintext_ws c))]
     @ skip_none ''cert_fingerprint'' of_text (cfg_cert_fingerprint c)
     @ [(''heartbeat_interval'', of_secs (cfg_heartbeat_interval c)),
        (''reconnect_backoff'', backoff_json (cfg_reconnect_backoff c))])"

definition read_config :: "json \<Rightarrow> gateway_config option" where
  "read_config v = do {
     us \<leftarrow> member (as_list as_str) v ''manager_urls''; dt \<leftarrow> member as_str v ''device_type'';
     sv \<leftarrow> member as_str v ''software_version''; ni \<leftarrow> member_opt as_str v ''node_id'';
     ns \<leftarrow> member_opt as_str v ''node_secret''; rt \<leftarrow> member_opt as_str v ''registration_token'';
     ss \<leftarrow> member_or False as_bool v ''accept_self_signed_cert'';
     pw \<leftarrow> member_or False as_bool v ''allow_plaintext_ws''; fp \<leftarrow> member_opt as_text v ''cert_fingerprint'';
     hb \<leftarrow> member_or default_heartbeat as_duration v ''heartbeat_interval'';
     rb \<leftarrow> member_or reconnect_backoff_default read_backoff v ''reconnect_backoff'';
     Some \<lparr>cfg_manager_urls = us, cfg_device_type = dt, cfg_software_version = sv, cfg_node_id = ni,
       cfg_node_secret = ns, cfg_registration_token = rt, cfg_accept_self_signed_cert = ss,
       cfg_allow_plaintext_ws = pw, cfg_cert_fingerprint = fp, cfg_heartbeat_interval = hb,
       cfg_reconnect_backoff = rb\<rparr> }"

subsection \<open>The codecs\<close>

definition of_json :: "wire \<Rightarrow> (json \<Rightarrow> 'a option) \<Rightarrow> string \<Rightarrow> string + 'a" where
  "of_json w f t = bindR (w_of_text w t) (\<lambda>v. ok_or ''invalid data'' (f v))"

definition json_platform :: "wire \<Rightarrow> date_codec \<Rightarrow> nat \<Rightarrow> string platform" where
  "json_platform w dc pid = \<lparr>pf_enc = (\<lambda>s. Inr (w_to_text w (state_json dc s))),
     pf_dec = of_json w (read_state dc), pf_empty = [], pf_pid = pid\<rparr>"

definition json_credentials :: "wire \<Rightarrow> string cred_codec" where
  "json_credentials w = \<lparr>cc_enc = (\<lambda>c. Inr (w_to_text w (credentials_json c))), 
     cc_utf8 = (\<lambda>t. from_utf8 (map (\<lambda>c. word_of_nat (of_char c)) t) \<noteq> None),
     cc_dec = of_json w read_credentials, cc_empty = []\<rparr>"

subsection \<open>What is read back\<close>

lemma status_read [simp]: "as_status (JStr (status_str x)) = Some x"
  by (cases x) (simp_all add: as_status_def)

lemma u32_read [simp]: "as_u32 (of_u32 x) = Some x"
  using uint_lt2p [of x] by (simp add: of_u32_def)

lemma usizes_read [simp]: "those (map (as_usize \<circ> of_usize) xs) = Some xs"
  using those_map [of xs as_usize of_usize] by simp

lemma text_read: "list_all is_scalar s \<Longrightarrow> as_text (of_text s) = Some s"
proof -
  assume "list_all is_scalar s"
  then have "from_utf8 (utf8_encode s) = Some s" by (intro from_utf8_encode) (simp add: list_all_iff)
  moreover have "map (\<lambda>c. word_of_nat (of_char c)) (map (\<lambda>b. char_of (unat b)) bs) = bs" for bs :: bytes
  proof (induction bs)
    case (Cons b bs)
    have "unat b < 256" using unsigned_less [of b, where ?'a = nat] by simp
    with Cons show ?case by simp
  qed simp
  ultimately show ?thesis by (simp add: as_text_def of_text_def)
qed

lemma secs_read: "as_secs d < 2 ^ 64 \<Longrightarrow> as_duration (of_secs d) = Some (secs (as_secs d))"
proof -
  assume d: "as_secs d < 2 ^ 64"
  then have "int (as_secs d) < 2 ^ 64" by (metis of_nat_less_iff of_nat_numeral of_nat_power)
  moreover have "unat (word_of_int (int (as_secs d)) :: u64) = as_secs d"
    using d by (simp add: unsigned_of_nat take_bit_nat_eq_self)
  ultimately show ?thesis by (simp add: as_duration_def of_secs_def)
qed

lemma backoff_read [simp]: "read_backoff (backoff_json b) = Some b"
  by (simp add: read_backoff_def backoff_json_def member_def)

lemma null_read: "jget v k = Some (or_null x) \<Longrightarrow> member_opt as_str v k = Some x"
  by (cases x) (simp_all add: member_opt_def or_null_def)

lemma credentials_read: "read_credentials (credentials_json c) = Some c"
  by (simp add: read_credentials_def credentials_json_def json_obj_def null_read)

definition dates_read_back :: "date_codec \<Rightarrow> install_state \<Rightarrow> bool" where
  "dates_read_back dc s = list_all (\<lambda>t. dc_parse dc (dc_show dc t) = Some t)
     (st_staged_at s # (case st_last_health_at s of None \<Rightarrow> [] | Some t \<Rightarrow> [t]))"

text \<open>A state, and one written before the two counters were.\<close>

definition older_json :: "date_codec \<Rightarrow> install_state \<Rightarrow> json" where
  "older_json dc s = (case state_json dc s of
      JObj m \<Rightarrow> JObj (m(''boot_attempts'' := None, ''last_sequence'' := None)) | v \<Rightarrow> v)"

lemma state_members:
  assumes "jget v = (jget (state_json dc s))(''boot_attempts'' := ba, ''last_sequence'' := sq)"
    and "dates_read_back dc s" and "(case ba of None \<Rightarrow> Some 0 | Some j \<Rightarrow> as_u32 j) = Some a"
    and "(case sq of None \<Rightarrow> Some 0 | Some j \<Rightarrow> as_usize j) = Some q"
  shows "read_state dc v = Some (s\<lparr>st_boot_attempts := a, st_last_sequence := q\<rparr>)"
  using assms(2-4)
  by (cases "st_previous_version s"; cases "st_last_health_at s"; cases ba; cases sq)
    (simp_all add: read_state_def member_def member_opt_def member_or_def assms(1) state_json_def skip_none_def
      dates_read_back_def as_date_def of_date_def)

lemma config_read:
  assumes "as_secs (cfg_heartbeat_interval c) < 2 ^ 64"
    and "list_all is_scalar (case cfg_cert_fingerprint c of None \<Rightarrow> [] | Some s \<Rightarrow> s)"
  shows "read_config (config_json c) = Some (c\<lparr>cfg_heartbeat_interval := secs (as_secs (cfg_heartbeat_interval c))\<rparr>)"
proof -
  have "\<not> is_null (of_text s)" for s by (simp add: of_text_def)
  then show ?thesis
    using assms
    by (cases "cfg_node_id c"; cases "cfg_node_secret c"; cases "cfg_registration_token c"; cases "cfg_cert_fingerprint c")
      (simp_all add: read_config_def member_def member_opt_def member_or_def config_json_def skip_none_def
        text_read secs_read)
qed

lemma state_read: "dates_read_back dc s \<Longrightarrow> read_state dc (state_json dc s) = Some s"
proof -
  assume d: "dates_read_back dc s"
  have "jget (state_json dc s) = (jget (state_json dc s))(''boot_attempts'' := Some (of_u32 (st_boot_attempts s)),
      ''last_sequence'' := Some (of_usize (st_last_sequence s)))"
    by (simp add: fun_eq_iff state_json_def skip_none_def split: option.split)
  then show ?thesis using state_members [OF _ d] by simp
qed

lemma older_read:
  assumes "dates_read_back dc s"
  shows "read_state dc (older_json dc s) = Some (s\<lparr>st_boot_attempts := 0, st_last_sequence := 0\<rparr>)"
proof -
  obtain m where m: "state_json dc s = JObj m" by (simp add: state_json_def json_obj_def)
  have "jget (older_json dc s) = (jget (state_json dc s))(''boot_attempts'' := None, ''last_sequence'' := None)"
    by (simp add: fun_eq_iff older_json_def m)
  then show ?thesis by (rule state_members [OF _ assms]) simp_all
qed

lemma validate_whole_seconds:
  "validate_config parse e (c\<lparr>cfg_heartbeat_interval := secs (as_secs (cfg_heartbeat_interval c))\<rparr>) = validate_config parse e c"
  unfolding validate_config_def Let_def by (simp cong: if_cong split del: if_split)

subsection \<open>Properties\<close>

text \<open>C25: the files are read back as they were written. With a JSON printer and parser and a date format that
  read back what they print, \<open>state.json\<close> and the credential file meet what the properties of \<open>InstallState\<close>,
  \<open>Watchdog\<close> and \<open>CredentialFile\<close> ask of their codecs: every state and all credentials, absent parts
  included, come back. And a \<open>state.json\<close> from before the two counters were is still read: it counts as
  booted zero times and installed with sequence 0, which every later manifest exceeds.\<close>

theorem stored_files_read_back:
  assumes "reads_back w (state_json dc s)" and "dates_read_back dc s" and "reads_back w (credentials_json c)"
  shows "faithful_state (json_platform w dc pid) s
    \<and> (\<exists>t. cc_enc (json_credentials w) c = Inr t \<and> cc_dec (json_credentials w) t = Inr c)
    \<and> read_state dc (older_json dc s) = Some (s\<lparr>st_boot_attempts := 0, st_last_sequence := 0\<rparr>)"
  using assms(1,3) state_read [OF assms(2)] older_read [OF assms(2)] credentials_read
  by (simp add: faithful_state_def json_platform_def json_credentials_def of_json_def reads_back_def)

text \<open>A wire that knows the two texts, and dates in unary.\<close>

definition two_text_wire :: wire where
  "two_text_wire = \<lparr>w_to_text = (\<lambda>v. if get_str v ''channel'' = None then ''c'' else ''s''),
     w_of_text = (\<lambda>t. Inr (if t = ''c'' then credentials_json persisted_default
        else state_json \<lparr>dc_show = (\<lambda>n. replicate (nat n) CHR ''I''), dc_parse = (\<lambda>s. Some (int (length s)))\<rparr> sample_state))\<rparr>"

theorem stored_files_read_back_witness:
  "let dc = \<lparr>dc_show = (\<lambda>n. replicate (nat n) CHR ''I''), dc_parse = (\<lambda>s. Some (int (length s)))\<rparr> in
   faithful_state (json_platform two_text_wire dc 1) sample_state
     \<and> read_state dc (older_json dc sample_state) = Some (sample_state\<lparr>st_last_sequence := 0\<rparr>)"
proof -
  let ?dc = "\<lparr>dc_show = (\<lambda>n. replicate (nat n) CHR ''I''), dc_parse = (\<lambda>s. Some (int (length s)))\<rparr>"
  have s: "reads_back two_text_wire (state_json ?dc sample_state)"
    by (simp add: reads_back_def two_text_wire_def state_json_def skip_none_def sample_state_def)
  have c: "reads_back two_text_wire (credentials_json persisted_default)"
    by (simp add: reads_back_def two_text_wire_def credentials_json_def)
  have d: "dates_read_back ?dc sample_state" by (simp add: dates_read_back_def sample_state_def)
  show ?thesis using stored_files_read_back [OF s d c, of 1] by (simp add: sample_state_def)
qed

text \<open>C35: a configuration survives its serialised form. What is written for a configuration reads back as that
  configuration with its heartbeat in whole seconds, the fingerprint's characters of any script included; and
  \<open>validate\<close> accepts the one if and only if it accepts the other.\<close>

theorem config_survives_serialisation:
  assumes "as_secs (cfg_heartbeat_interval c) < 2 ^ 64"
    and "list_all is_scalar (case cfg_cert_fingerprint c of None \<Rightarrow> [] | Some s \<Rightarrow> s)"
  shows "\<exists>c'. read_config (config_json c) = Some c'
    \<and> c' = c\<lparr>cfg_heartbeat_interval := secs (as_secs (cfg_heartbeat_interval c))\<rparr>
    \<and> (validate_config parse e c' = Inr () \<longleftrightarrow> validate_config parse e c = Inr ())"
  using config_read [OF assms] validate_whole_seconds [of parse e c] by simp

theorem config_survives_serialisation_witness:
  "read_config (config_json (minimal_config ''wss://m'' ''d'' ''1''\<lparr>cfg_heartbeat_interval := millis 15900\<rparr>))
     = Some (minimal_config ''wss://m'' ''d'' ''1'')"
proof -
  let ?c = "minimal_config ''wss://m'' ''d'' ''1''\<lparr>cfg_heartbeat_interval := millis 15900\<rparr>"
  have "as_secs (cfg_heartbeat_interval ?c) = 15" by (simp add: as_secs_def millis_def)
  moreover have "list_all is_scalar (case cfg_cert_fingerprint ?c of None \<Rightarrow> [] | Some s \<Rightarrow> s)"
    by (simp add: minimal_config_def)
  ultimately show ?thesis
    using config_survives_serialisation [of ?c "\<lambda>_. Inl []" "\<lambda>_. None"]
    by (simp add: minimal_config_def default_heartbeat_def)
qed

end
