(* ===== verification/ReleaseJson.thy ===== *)
theory ReleaseJson
  imports Serialised Upgrade
begin

section \<open>The serialised forms of the self-upgrade: manifests and the upgrade policy\<close>

text \<open>
  What a release manifest (src/upgrade/manifest.rs) and an \<open>UpgradeConfig\<close> (src/upgrade/mod.rs) look like as JSON
  values, by the serde attributes on the structs. No member of a manifest has a default; every member of the
  policy has one. How a path is written is an argument.
\<close>

subsection \<open>Manifests\<close>

definition artefact_json :: "artefact \<Rightarrow> json" where
  "artefact_json a = json_obj [(''arch'', JStr (ma_arch a)), (''variant'', JStr (ma_variant a)),
     (''url'', JStr (ma_url a)), (''sha256'', JStr (ma_sha256 a))]"

definition read_artefact :: "json \<Rightarrow> artefact option" where
  "read_artefact v = do {
     ar \<leftarrow> member as_str v ''arch''; va \<leftarrow> member as_str v ''variant'';
     u \<leftarrow> member as_str v ''url''; sh \<leftarrow> member as_str v ''sha256'';
     Some \<lparr>ma_arch = ar, ma_variant = va, ma_url = u, ma_sha256 = sh\<rparr> }"

definition manifest_json :: "manifest \<Rightarrow> json" where
  "manifest_json m = json_obj [(''version'', JStr (mf_version m)), (''device_type'', JStr (mf_device_type m)),
     (''channel'', JStr (mf_channel m)), (''released_at'', JStr (mf_released_at m)),
     (''sequence'', of_usize (mf_sequence m)), (''artefacts'', JArr (map artefact_json (mf_artefacts m)))]"

definition read_manifest :: "json \<Rightarrow> manifest option" where
  "read_manifest v = do {
     ve \<leftarrow> member as_str v ''version''; dt \<leftarrow> member as_str v ''device_type'';
     ch \<leftarrow> member as_str v ''channel''; ra \<leftarrow> member as_str v ''released_at'';
     sq \<leftarrow> member as_usize v ''sequence''; as \<leftarrow> member (as_list read_artefact) v ''artefacts'';
     Some \<lparr>mf_version = ve, mf_device_type = dt, mf_channel = ch, mf_released_at = ra, mf_sequence = sq,
       mf_artefacts = as\<rparr> }"

text \<open>\<open>serde_json::from_slice\<close> on the fetched bytes, with a parser of JSON text.\<close>

definition manifest_of_bytes :: "(bytes \<Rightarrow> string + json) \<Rightarrow> bytes \<Rightarrow> string + manifest" where
  "manifest_of_bytes parse bs = bindR (parse bs) (\<lambda>v. ok_or ''invalid data'' (read_manifest v))"

subsection \<open>The upgrade policy\<close>

record path_codec =
  pc_show :: "path \<Rightarrow> string"
  pc_parse :: "string \<Rightarrow> path"

definition of_path :: "path_codec \<Rightarrow> path \<Rightarrow> json" where "of_path pc p = JStr (pc_show pc p)"

definition as_path :: "path_codec \<Rightarrow> json \<Rightarrow> path option" where
  "as_path pc v = map_option (pc_parse pc) (as_str v)"

definition upgrade_config_json :: "path_codec \<Rightarrow> upgrade_config \<Rightarrow> json" where
  "upgrade_config_json pc c = json_obj ([(''enabled'', JBool (uc_enabled c)),
      (''allowed_channels'', JArr (map JStr (uc_allowed_channels c)))]
     @ skip_none ''min_version'' JStr (uc_min_version c)
     @ [(''rollback_grace'', of_u32 (uc_rollback_grace c)), (''install_root'', of_path pc (uc_install_root c)),
        (''boot_health_window_secs'', of_u32 (uc_boot_health_window_secs c)),
        (''max_boot_attempts'', of_u32 (uc_max_boot_attempts c)), (''manual_only'', JBool (uc_manual_only c))])"

definition read_upgrade_config :: "path_codec \<Rightarrow> json \<Rightarrow> upgrade_config option" where
  "read_upgrade_config pc v = (case v of JObj _ \<Rightarrow> do {
     en \<leftarrow> member_or False as_bool v ''enabled'';
     ch \<leftarrow> member_or [''stable''] (as_list as_str) v ''allowed_channels'';
     mv \<leftarrow> member_opt as_str v ''min_version''; rg \<leftarrow> member_or 1 as_u32 v ''rollback_grace'';
     ro \<leftarrow> member_or [''opt'', ''bilbycast'', ''gateway''] (as_path pc) v ''install_root'';
     hw \<leftarrow> member_or 120 as_u32 v ''boot_health_window_secs''; mb \<leftarrow> member_or 3 as_u32 v ''max_boot_attempts'';
     mo \<leftarrow> member_or False as_bool v ''manual_only'';
     Some \<lparr>uc_enabled = en, uc_allowed_channels = ch, uc_min_version = mv, uc_rollback_grace = rg, uc_install_root = ro,
       uc_boot_health_window_secs = hw, uc_max_boot_attempts = mb, uc_manual_only = mo\<rparr> } | _ \<Rightarrow> None)"

subsection \<open>What is read back\<close>

fun without_member :: "string \<Rightarrow> json \<Rightarrow> json" where
  "without_member k (JObj m) = JObj (m(k := None))"
| "without_member k v = v"

lemma jget_without [simp]: "jget (without_member k (json_obj kvs)) j = (if j = k then None else map_of kvs j)"
  by (simp add: json_obj_def)

lemma artefacts_read: "those (map (read_artefact \<circ> artefact_json) as) = Some as"
  using those_map [of as read_artefact artefact_json]
  by (simp add: read_artefact_def artefact_json_def member_def)

lemma manifest_read: "read_manifest (manifest_json m) = Some m"
  by (simp add: read_manifest_def manifest_json_def member_def artefacts_read)

definition manifest_members :: "string list" where
  "manifest_members = [''version'', ''device_type'', ''channel'', ''released_at'', ''sequence'', ''artefacts'']"

lemma manifest_needs_all:
  "list_all (\<lambda>k. read_manifest (without_member k (manifest_json m)) = None) manifest_members"
  by (simp add: manifest_members_def read_manifest_def manifest_json_def member_def bind_None_iff)

lemma upgrade_config_read:
  assumes "pc_parse pc (pc_show pc (uc_install_root c)) = uc_install_root c"
  shows "read_upgrade_config pc (upgrade_config_json pc c) = Some c"
proof -
  have "\<exists>m. upgrade_config_json pc c = JObj m" by (simp add: upgrade_config_json_def json_obj_def)
  then have obj: "(case upgrade_config_json pc c of JObj _ \<Rightarrow> x | _ \<Rightarrow> y) = x" for x y :: "'z" by auto
  show ?thesis
    unfolding read_upgrade_config_def obj
    by (cases "uc_min_version c")
      (simp_all add: upgrade_config_json_def member_def member_opt_def member_or_def skip_none_def as_path_def of_path_def assms)
qed

subsection \<open>The property\<close>

text \<open>C27: manifests and policies are read as they were written, and only manifests are complete. Every manifest comes
  back from its JSON; if any one of its members is missing it is not read at all, the sequence included, which so
  never falls back on 0. Every policy comes back, and one with no members is the documented default: upgrades
  off, the stable channel, one grace version, 120 s of health and three boots.\<close>

theorem release_documents_read_back:
  assumes "pc_parse pc (pc_show pc (uc_install_root c)) = uc_install_root c" and "parse bs = Inr (manifest_json m)"
  shows "manifest_of_bytes parse bs = Inr m
    \<and> list_all (\<lambda>k. \<not> is_ok (manifest_of_bytes (\<lambda>_. Inr (without_member k (manifest_json m))) bs)) manifest_members
    \<and> read_upgrade_config pc (upgrade_config_json pc c) = Some c
    \<and> read_upgrade_config pc (json_obj []) = Some upgrade_config_default"
proof -
  have "read_upgrade_config pc (json_obj []) = Some upgrade_config_default"
    by (simp add: read_upgrade_config_def json_obj_def member_or_def member_opt_def upgrade_config_default_def)
  moreover have "list_all (\<lambda>k. \<not> is_ok (manifest_of_bytes (\<lambda>_. Inr (without_member k (manifest_json m))) bs)) manifest_members"
    using manifest_needs_all [of m] by (auto simp: list_all_iff manifest_of_bytes_def ok_or_def)
  ultimately show ?thesis
    using upgrade_config_read [OF assms(1)] assms(2) by (simp add: manifest_of_bytes_def manifest_read ok_or_def)
qed

theorem release_documents_read_back_witness:
  "let m = \<lparr>mf_version = ''1.2.0'', mf_device_type = ''dev'', mf_channel = ''stable'', mf_released_at = ''now'',
       mf_sequence = 8, mf_artefacts = [\<lparr>ma_arch = ''a'', ma_variant = ''default'', ma_url = ''u'', ma_sha256 = ''0''\<rparr>]\<rparr>;
     pc = \<lparr>pc_show = (\<lambda>p. case p of [s] \<Rightarrow> s | _ \<Rightarrow> []), pc_parse = (\<lambda>s. [s])\<rparr>;
     c = upgrade_config_default\<lparr>uc_install_root := [''r'']\<rparr> in
   manifest_of_bytes (\<lambda>_. Inr (manifest_json m)) [] = Inr m \<and> read_upgrade_config pc (upgrade_config_json pc c) = Some c"
proof -
  let ?pc = "\<lparr>pc_show = (\<lambda>p. case p of [s] \<Rightarrow> s | _ \<Rightarrow> []), pc_parse = (\<lambda>s. [s])\<rparr>"
  have "pc_parse ?pc (pc_show ?pc (uc_install_root (upgrade_config_default\<lparr>uc_install_root := [''r'']\<rparr>)))
      = uc_install_root (upgrade_config_default\<lparr>uc_install_root := [''r'']\<rparr>)" by simp
  from release_documents_read_back [OF this refl] show ?thesis by (simp add: Let_def)
qed

end
