(* ===== verification/LinkTests.thy ===== *)
theory LinkTests
  imports Client
begin

section \<open>The unit tests of the manager link, replayed on the model\<close>

text \<open>
  The tests the repository keeps in src/config.rs, src/tls.rs and src/ws_client.rs that need no network, each as
  a bool-valued definition with the same inputs and the same checks, and a lemma that the model passes it. They
  compare the model with what its authors expect of the code. Where a test looks for a piece of a message, the
  definition names the message's constructor; where it lets time pass or tasks run, the definition gives the
  instants and the steps; \<open>Url::parse\<close>, the environment and the handler are the values the test gives them.
\<close>

subsection \<open>Configuration\<close>

definition parsed_url :: "string \<Rightarrow> url_host \<Rightarrow> string \<Rightarrow> u16 \<Rightarrow> url" where
  "parsed_url scheme host host_str port = \<lparr>url_scheme = scheme, url_host_of = Some host, url_host_str = Some host_str,
     url_port_or_known_default = Some port\<rparr>"

text \<open>\<open>Url::parse\<close> on the URLs of the tests.\<close>

definition test_parser :: url_parser where
  "test_parser u =
     (case map_of [(''wss://manager.example.com'', parsed_url ''wss'' (Domain ''manager.example.com'') ''manager.example.com'' 443),
         (''wss://manager.example.com/ws/node'', parsed_url ''wss'' (Domain ''manager.example.com'') ''manager.example.com'' 443),
         (''ws://manager.test/ws/node'', parsed_url ''ws'' (Domain ''manager.test'') ''manager.test'' 80),
         (''wss://manager.test/ws/node'', parsed_url ''wss'' (Domain ''manager.test'') ''manager.test'' 443),
         (''ws://127.0.0.1:9/ws/node'', parsed_url ''ws'' (Ipv4 ''127.0.0.1'') ''127.0.0.1'' 9),
         (''ws://127.0.0.1/ws/node'', parsed_url ''ws'' (Ipv4 ''127.0.0.1'') ''127.0.0.1'' 80),
         (''wss://[2001:db8::1]:8443/ws/node'', parsed_url ''wss'' (Ipv6 ''2001:db8::1'') ''[2001:db8::1]'' 8443)] u
      of Some v \<Rightarrow> Inr v | None \<Rightarrow> Inl ''relative URL without a base'')"

definition with_plaintext_env :: "bool \<Rightarrow> (env \<Rightarrow> 'a) \<Rightarrow> 'a" where
  "with_plaintext_env b f = f (\<lambda>k. if b \<and> k = ''BILBYCAST_SDK_ALLOW_PLAINTEXT_WS'' then Some ''1'' else None)"

definition with_registration_token :: "string \<Rightarrow> gateway_config \<Rightarrow> gateway_config" where
  "with_registration_token token cfg = cfg\<lparr>cfg_registration_token := Some token\<rparr>"

definition base_cfg :: gateway_config where
  "base_cfg = with_registration_token ''rt-123'' (minimal_config ''wss://manager.example.com'' ''test'' ''0.0.1'')"

definition plaintext_cfg :: "bool \<Rightarrow> gateway_config" where
  "plaintext_cfg allow_field = base_cfg\<lparr>cfg_manager_urls := [''ws://127.0.0.1:9/ws/node''], cfg_allow_plaintext_ws := allow_field\<rparr>"

definition beating :: "nat \<Rightarrow> sdk_error + unit" where
  "beating n = with_plaintext_env False (\<lambda>e. validate_config test_parser e (base_cfg\<lparr>cfg_heartbeat_interval := secs n\<rparr>))"

definition heartbeat_default_is_in_bounds :: bool where
  "heartbeat_default_is_in_bounds = with_plaintext_env False (\<lambda>e. is_ok (validate_config test_parser e base_cfg))"

definition heartbeat_too_small_rejected :: bool where
  "heartbeat_too_small_rejected = (beating 0 = Inl (Config (HeartbeatOutOfRange 0)) \<and> \<not> is_ok (beating 4))"

definition heartbeat_too_large_rejected :: bool where
  "heartbeat_too_large_rejected = (beating 301 = Inl (Config (HeartbeatOutOfRange 301)) \<and> \<not> is_ok (beating 3600))"

definition heartbeat_at_boundaries_accepted :: bool where
  "heartbeat_at_boundaries_accepted = (is_ok (beating 5) \<and> is_ok (beating 300))"

text \<open>The refusal of the first URL for its scheme, with the half that is missing.\<close>

definition refused_plaintext :: "string \<Rightarrow> tls_hint \<Rightarrow> sdk_error + unit" where
  "refused_plaintext u hint = Inl (Config (UrlNotTls 0 u hint))"

definition plaintext_ws_is_refused_without_the_config_key :: bool where
  "plaintext_ws_is_refused_without_the_config_key = with_plaintext_env False (\<lambda>e.
     let cfg = minimal_config ''ws://manager.test/ws/node'' ''t'' ''0.0.1'' in
     \<not> cfg_allow_plaintext_ws cfg
     \<and> validate_config test_parser e cfg = refused_plaintext ''ws://manager.test/ws/node'' BothHalvesMissing)"

definition wss_is_accepted_regardless_of_the_plaintext_keys :: bool where
  "wss_is_accepted_regardless_of_the_plaintext_keys = with_plaintext_env False (\<lambda>e.
     is_ok (validate_config test_parser e
       ((minimal_config ''wss://manager.test/ws/node'' ''t'' ''0.0.1'')\<lparr>cfg_registration_token := Some ''token''\<rparr>)))"

definition the_error_names_which_half_is_missing :: bool where
  "the_error_names_which_half_is_missing = with_plaintext_env False (\<lambda>e.
     validate_config test_parser e
       ((minimal_config ''ws://manager.test/ws/node'' ''t'' ''0.0.1'')\<lparr>cfg_allow_plaintext_ws := True\<rparr>)
     = refused_plaintext ''ws://manager.test/ws/node'' EnvHalfMissing)"

definition the_env_var_alone_does_not_permit_plaintext_ws :: bool where
  "the_env_var_alone_does_not_permit_plaintext_ws = with_plaintext_env True (\<lambda>e.
     validate_config test_parser e (plaintext_cfg False) = refused_plaintext ''ws://127.0.0.1:9/ws/node'' ConfigHalfMissing)"

definition the_config_field_alone_does_not_permit_plaintext_ws :: bool where
  "the_config_field_alone_does_not_permit_plaintext_ws = with_plaintext_env False (\<lambda>e.
     validate_config test_parser e (plaintext_cfg True) = refused_plaintext ''ws://127.0.0.1:9/ws/node'' EnvHalfMissing)"

definition both_keys_together_permit_plaintext_ws :: bool where
  "both_keys_together_permit_plaintext_ws = with_plaintext_env True (\<lambda>e.
     is_ok (validate_config test_parser e (plaintext_cfg True)))"

definition neither_key_refuses_and_says_how_to_opt_in :: bool where
  "neither_key_refuses_and_says_how_to_opt_in = with_plaintext_env False (\<lambda>e.
     validate_config test_parser e (plaintext_cfg False) = refused_plaintext ''ws://127.0.0.1:9/ws/node'' BothHalvesMissing)"

definition wss_is_unaffected_by_either_key :: bool where
  "wss_is_unaffected_by_either_key = list_all (\<lambda>env. list_all (\<lambda>field. with_plaintext_env env (\<lambda>e.
     is_ok (validate_config test_parser e (base_cfg\<lparr>cfg_allow_plaintext_ws := field\<rparr>)))) [True, False]) [True, False]"

lemmas config_test_defs = with_plaintext_env_def validate_config_def base_cfg_def plaintext_cfg_def with_registration_token_def
  minimal_config_def default_heartbeat_def plaintext_ws_env_set_def env_is_1_def test_parser_def beating_def
  refused_plaintext_def starts_with_def as_secs_def secs_def is_ok_def Let_def

lemma configuration_tests_pass:
  "heartbeat_default_is_in_bounds"
  "heartbeat_too_small_rejected"
  "heartbeat_too_large_rejected"
  "heartbeat_at_boundaries_accepted"
  "plaintext_ws_is_refused_without_the_config_key"
  "wss_is_accepted_regardless_of_the_plaintext_keys"
  "the_error_names_which_half_is_missing"
  "the_env_var_alone_does_not_permit_plaintext_ws"
  "the_config_field_alone_does_not_permit_plaintext_ws"
  "both_keys_together_permit_plaintext_ws"
  "neither_key_refuses_and_says_how_to_opt_in"
  "wss_is_unaffected_by_either_key"
  by (simp_all add: config_test_defs heartbeat_default_is_in_bounds_def heartbeat_too_small_rejected_def heartbeat_too_large_rejected_def heartbeat_at_boundaries_accepted_def plaintext_ws_is_refused_without_the_config_key_def wss_is_accepted_regardless_of_the_plaintext_keys_def the_error_names_which_half_is_missing_def the_env_var_alone_does_not_permit_plaintext_ws_def the_config_field_alone_does_not_permit_plaintext_ws_def both_keys_together_permit_plaintext_ws_def neither_key_refuses_and_says_how_to_opt_in_def wss_is_unaffected_by_either_key_def)

subsection \<open>Fingerprints\<close>

definition fingerprint_normalisation_accepts_either_form :: bool where
  "fingerprint_normalisation_accepts_either_form =
     (let colons = ''ab:cd:ef:01:23:45:67:89:ab:cd:ef:01:23:45:67:89:ab:cd:ef:01:23:45:67:89:ab:cd:ef:01:23:45:67:89'';
          plain = ''abcdef0123456789abcdef0123456789abcdef0123456789abcdef0123456789'' in
      normalise_fingerprint (ustr colons) = Inr colons \<and> normalise_fingerprint (ustr plain) = Inr colons)"

definition fingerprint_normalisation_rejects_bad_length :: bool where
  "fingerprint_normalisation_rejects_bad_length = (\<not> is_ok (normalise_fingerprint (ustr ''deadbeef'')))"

text \<open>Both spellings of the test are four times the same eight bytes.\<close>

lemma eight_bytes:
  "fp_clean (ustr ''ab:cd:ef:01:23:45:67:89'') = ustr ''abcdef0123456789''"
  "fp_clean (ustr ''abcdef0123456789'') = ustr ''abcdef0123456789''"
  "map ascii_lower (ascii_of (ustr ''abcdef0123456789'')) = ''abcdef0123456789''"
  "list_all is_hexdigit_u (ustr ''abcdef0123456789'')"
proof -
  show "fp_clean (ustr ''ab:cd:ef:01:23:45:67:89'') = ustr ''abcdef0123456789''"
    "fp_clean (ustr ''abcdef0123456789'') = ustr ''abcdef0123456789''"
    by (simp_all add: fp_clean_def ustr_def is_ws_def)
  show "map ascii_lower (ascii_of (ustr ''abcdef0123456789'')) = ''abcdef0123456789''" by code_simp
  show "list_all is_hexdigit_u (ustr ''abcdef0123456789'')" by code_simp
qed

lemma fp_clean_append: "fp_clean (s @ t) = fp_clean s @ fp_clean t" by (simp add: fp_clean_def)

lemma fp_clean_colon: "fp_clean (ustr '':'') = []" by (simp add: fp_clean_def ustr_def)

lemma four: "concat (replicate 4 x) = x @ x @ x @ x" by (simp add: eval_nat_numeral)

lemma four_times:
  assumes clean: "fp_clean input = concat (replicate 4 (ustr ''abcdef0123456789''))"
  shows "normalise_fingerprint input
    = Inr ''ab:cd:ef:01:23:45:67:89:ab:cd:ef:01:23:45:67:89:ab:cd:ef:01:23:45:67:89:ab:cd:ef:01:23:45:67:89''"
proof -
  have len: "length (ustr ''abcdef0123456789'') = 16" by (simp add: ustr_def)
  have "map ascii_lower (ascii_of (a @ b)) = map ascii_lower (ascii_of a) @ map ascii_lower (ascii_of b)" for a b
    by (simp add: ascii_of_def)
  then have "fp_hex input = ''abcdef0123456789abcdef0123456789abcdef0123456789abcdef0123456789''"
    unfolding fp_hex_def clean four by (simp only: eight_bytes(3) append_Cons append_Nil)
  moreover have "length (fp_clean input) = 64"
    unfolding clean four length_append len by simp
  moreover have "list_all is_hexdigit_u (fp_clean input)"
    unfolding clean four list_all_append using eight_bytes(4) by (intro conjI)
  ultimately show ?thesis by (simp add: normalise_ok_iff)
qed

lemma fingerprint_tests_pass:
  "fingerprint_normalisation_accepts_either_form" "fingerprint_normalisation_rejects_bad_length"
proof -
  let ?c = "''ab:cd:ef:01:23:45:67:89''" and ?p = "''abcdef0123456789''"
  have colons: "ustr ''ab:cd:ef:01:23:45:67:89:ab:cd:ef:01:23:45:67:89:ab:cd:ef:01:23:45:67:89:ab:cd:ef:01:23:45:67:89''
      = ustr ?c @ ustr '':'' @ ustr ?c @ ustr '':'' @ ustr ?c @ ustr '':'' @ ustr ?c"
    and plain: "ustr ''abcdef0123456789abcdef0123456789abcdef0123456789abcdef0123456789'' = ustr ?p @ ustr ?p @ ustr ?p @ ustr ?p"
    unfolding ustr_def map_append [symmetric] append_Cons append_Nil by (rule refl)+
  show fingerprint_normalisation_accepts_either_form
    unfolding fingerprint_normalisation_accepts_either_form_def Let_def colons plain
    by (intro conjI four_times)
      (simp_all only: fp_clean_append fp_clean_colon eight_bytes(1,2) append_Nil four)
  have "length (fp_clean (ustr ''deadbeef'')) \<noteq> 64" by (simp add: fp_clean_def ustr_def is_ws_def)
  then show fingerprint_normalisation_rejects_bad_length
    unfolding fingerprint_normalisation_rejects_bad_length_def is_ok_iff normalise_ok_iff by simp
qed

subsection \<open>The link flag\<close>

text \<open>A clone of the handle is the same record; the clock of the test shows \<open>now\<close>, a time after the epoch.\<close>

definition connection_state_starts_disconnected :: bool where
  "connection_state_starts_disconnected =
     (let s = connection_state_new in \<not> is_connected s \<and> last_connect_epoch s = None)"

definition connection_state_tracks_up_then_down :: "u64 \<Rightarrow> bool" where
  "connection_state_tracks_up_then_down now =
     (let s = set_connected (Some now) connection_state_new; s' = set_disconnected s in
      is_connected s \<and> last_connect_epoch s \<noteq> None
      \<and> \<not> is_connected s' \<and> last_connect_epoch s' = last_connect_epoch s)"

lemma connection_state_tests_pass:
  "connection_state_starts_disconnected" "now \<noteq> 0 \<Longrightarrow> connection_state_tracks_up_then_down now"
  by (simp_all add: connection_state_starts_disconnected_def connection_state_tracks_up_then_down_def Let_def
      is_connected_def last_connect_epoch_def connection_state_new_def set_connected_def set_disconnected_def)

end
