(* ===== verification/SessionTests.thy ===== *)
theory SessionTests
  imports LinkTests
begin

section \<open>The unit tests of the session, replayed on the model\<close>

text \<open>
  The tests of src/ws_client.rs on the silence watchdog, the reader, the command worker and the dial, in the form
  \<open>LinkTests\<close> describes. \<open>Instant::now()\<close> of a test is its \<open>t0\<close>.
\<close>

subsection \<open>The silence watchdog\<close>

definition pings :: "instant \<Rightarrow> nat list \<Rightarrow> inbound_cadence" where
  "pings t0 ats = fold (\<lambda>at. on_ping (t0 + secs at)) ats (cadence_new t0)"

definition the_watchdog_is_unarmed_until_the_first_ping :: "instant \<Rightarrow> bool" where
  "the_watchdog_is_unarmed_until_the_first_ping t0 =
     (let c = cadence_new t0 in silence_limit c = None \<and> dead_for (t0 + secs 3600) c = None)"

definition the_first_ping_arms_the_watchdog :: "instant \<Rightarrow> bool" where
  "the_first_ping_arms_the_watchdog t0 =
     (let c = pings t0 [60] in
      silence_limit c = Some (secs 240) \<and> dead_for (t0 + secs 60 + secs 239) c = None
      \<and> dead_for (t0 + secs 60 + secs 241) c \<noteq> None)"

definition a_fast_cadence_is_held_to_the_floor :: "instant \<Rightarrow> bool" where
  "a_fast_cadence_is_held_to_the_floor t0 =
     (let c = pings t0 [15, 30] in
      silence_limit c = Some silence_floor \<and> dead_for (t0 + secs 30 + secs 89) c = None
      \<and> dead_for (t0 + secs 30 + secs 91) c \<noteq> None)"

definition back_to_back_pings_do_not_shrink_the_limit_below_the_floor :: "instant \<Rightarrow> bool" where
  "back_to_back_pings_do_not_shrink_the_limit_below_the_floor t0 =
     (silence_limit (pings t0 (replicate ping_gaps_kept 0)) = Some silence_floor)"

definition the_median_ignores_one_long_gap :: "instant \<Rightarrow> bool" where
  "the_median_ignores_one_long_gap t0 = (silence_limit (pings t0 [15, 30, 115, 130, 145]) = Some silence_floor)"

definition a_slow_cadence_scales_the_limit :: "instant \<Rightarrow> bool" where
  "a_slow_cadence_scales_the_limit t0 =
     (let c = pings t0 [300, 600] in
      silence_limit c = Some (secs 1200) \<and> dead_for (t0 + secs 600 + secs 1199) c = None)"

definition a_gap_counts_for_at_most_the_longest_keepalive :: "instant \<Rightarrow> bool" where
  "a_gap_counts_for_at_most_the_longest_keepalive t0 =
     (silence_limit (pings t0 [1000, 2000, 3000]) = Some (secs 1200))"

definition only_the_most_recent_gaps_count :: "instant \<Rightarrow> bool" where
  "only_the_most_recent_gaps_count t0 =
     (silence_limit (pings t0 (300 # map (\<lambda>i. 300 + 15 * (i + 1)) [0..<ping_gaps_kept])) = Some silence_floor)"

definition any_frame_resets_the_silence :: "instant \<Rightarrow> bool" where
  "any_frame_resets_the_silence t0 =
     (let c = on_frame (t0 + secs 80) (pings t0 [15]) in
      dead_for (t0 + secs 80 + secs 90) c = None \<and> dead_for (t0 + secs 80 + secs 91) c \<noteq> None)"

lemmas cadence_test_defs = pings_def silence_limit_def dead_for_def on_ping_def on_frame_def cadence_new_def secs_def
  silence_floor_def silence_pings_def ping_gaps_kept_def max_ping_gap_def duration_max_def upt_rec eval_nat_numeral(3)

lemma eight_zeros: "replicate ping_gaps_kept 0 = ([0, 0, 0, 0, 0, 0, 0, 0] :: nat list)"
  by (simp add: ping_gaps_kept_def eval_nat_numeral)

lemma cadence_tests_pass:
  "the_watchdog_is_unarmed_until_the_first_ping t0" "the_first_ping_arms_the_watchdog t0"
  "a_fast_cadence_is_held_to_the_floor t0" "back_to_back_pings_do_not_shrink_the_limit_below_the_floor t0"
  "the_median_ignores_one_long_gap t0" "a_slow_cadence_scales_the_limit t0"
  "a_gap_counts_for_at_most_the_longest_keepalive t0" "only_the_most_recent_gaps_count t0"
  "any_frame_resets_the_silence t0"
  unfolding the_watchdog_is_unarmed_until_the_first_ping_def the_first_ping_arms_the_watchdog_def
    a_fast_cadence_is_held_to_the_floor_def back_to_back_pings_do_not_shrink_the_limit_below_the_floor_def
    the_median_ignores_one_long_gap_def a_slow_cadence_scales_the_limit_def
    a_gap_counts_for_at_most_the_longest_keepalive_def only_the_most_recent_gaps_count_def any_frame_resets_the_silence_def
    eight_zeros
  by (simp_all add: cadence_test_defs Let_def min_def max_def del: eval_nat_numeral(3))

subsection \<open>The reader\<close>

definition text_frame :: "nat \<Rightarrow> ws_read" where
  "text_frame len = ReadText (replicate len (CHR ''x''))"

text \<open>What the reader's task does when it is polled while it waits for budget or room, and with its next frame.\<close>

definition poll_reader :: "instant \<Rightarrow> reader \<Rightarrow> reader" where
  "poll_reader now s =
     (case rd_phase s of WantBudget t \<Rightarrow> on_budget t s | WantRoom h \<Rightarrow> on_room now h s | _ \<Rightarrow> s)"

definition read_and_poll :: "instant \<Rightarrow> ws_read \<Rightarrow> reader \<Rightarrow> reader" where
  "read_and_poll now fr s = poll_reader now (poll_reader now (on_read now fr s))"

fun is_text :: "inbound \<Rightarrow> bool" where
  "is_text (InText _ _) = True"
| "is_text _ = False"

definition the_reader_waits_once_its_byte_budget_is_handed_over :: bool where
  "the_reader_waits_once_its_byte_budget_is_handed_over =
     (let s = (reader_new 0)\<lparr>rd_budget := 1500\<rparr>;
          s1 = on_take (read_and_poll 0 (text_frame 1000) (read_and_poll 0 (text_frame 1000) s));
          s2 = poll_reader (secs 60) (poll_reader (secs 60) s1);
          s3 = on_take (poll_reader (secs 60) (poll_reader (secs 60) (on_routed s2)))
      in list_all is_text (rd_taken s1) \<and> length (rd_taken s1) = 1
         \<and> recv (rd_inbound s2) = Empty
         \<and> list_all is_text (rd_taken s3) \<and> length (rd_taken s3) = 2)"

definition waiting_for_the_loop_is_not_silence :: bool where
  "waiting_for_the_loop_is_not_silence =
     (let s = (reader_new 0)\<lparr>rd_budget := 1000\<rparr>;
          s1 = read_and_poll 0 (text_frame 1000) (read_and_poll 0 (text_frame 1000) (on_read 0 (ReadPing []) s));
          s2 = on_take (on_take s1);
          s3 = poll_reader (secs 200) (poll_reader (secs 200) (on_routed s2));
          s4 = on_check (secs 210) (on_take (on_check (secs 200) s3))
      in map is_text (rd_taken s2) = [False, True]
         \<and> map is_text (rd_taken s4) = [False, True, True] \<and> rd_phase s4 = Reading)"

text \<open>A text on a reader that waits for nothing: handed over when its bytes fit, waiting for them otherwise.\<close>

lemma text_read_and_polled:
  assumes "length (ch_items (rd_inbound s)) < ch_cap (rd_inbound s)" and "ch_rx_open (rd_inbound s)" and "len < 2 ^ 32"
  shows "read_and_poll now (text_frame len) s =
    (let s1 = s\<lparr>rd_reads := rd_reads s @ [text_frame len], rd_cadence := on_frame now (on_frame now (rd_cadence s))\<rparr>;
         t = replicate len (CHR ''x'') in
     if len \<le> rd_budget s then
       s1\<lparr>rd_budget := rd_budget s - len, rd_phase := Reading,
         rd_inbound := (rd_inbound s)\<lparr>ch_items := ch_items (rd_inbound s) @ [InText t len]\<rparr>\<rparr>
     else s1\<lparr>rd_cadence := on_frame now (rd_cadence s), rd_phase := WantBudget t\<rparr>)"
  using assms
  by (simp add: read_and_poll_def poll_reader_def on_read_def on_budget_def on_room_def text_frame_def try_acquire_def
      permit_cost_def try_send_def Let_def)

lemmas reader_eval = on_take_def recv_def poll_reader_def on_budget_def try_acquire_def permit_cost_def on_routed_def
  release_def on_room_def try_send_def

lemma budget_test_passes: the_reader_waits_once_its_byte_budget_is_handed_over
proof -
  define t where "t = replicate 1000 (CHR ''x'')"
  have len: "length t = 1000" by (simp add: t_def)
  define s0 where "s0 = (reader_new 0)\<lparr>rd_budget := 1500\<rparr>"
  have s0: "rd_inbound s0 = chan_new 256" "rd_budget s0 = 1500" "rd_taken s0 = []"
    by (simp_all add: s0_def reader_new_def inbound_channel_size_def)
  define s1 where "s1 = on_take (read_and_poll 0 (text_frame 1000) (read_and_poll 0 (text_frame 1000) s0))"
  have s1: "rd_phase s1 = WantBudget t" "rd_budget s1 = 500" "rd_inbound s1 = chan_new 256" "rd_routing s1 = 1000"
    "rd_taken s1 = [InText t 1000]"
    unfolding s1_def by (simp_all add: text_read_and_polled s0 chan_new_def on_take_def recv_def t_def)
  define s2 where "s2 = poll_reader (secs 60) (poll_reader (secs 60) s1)"
  have s2: "s2 = s1" unfolding s2_def by (simp add: reader_eval s1 len)
  define s3 where "s3 = on_take (poll_reader (secs 60) (poll_reader (secs 60) (on_routed s2)))"
  have s3: "rd_taken s3 = [InText t 1000, InText t 1000]"
    unfolding s3_def s2 by (simp add: reader_eval s1 len chan_new_def)
  show ?thesis
    unfolding the_reader_waits_once_its_byte_budget_is_handed_over_def Let_def
      s0_def [symmetric] s1_def [symmetric] s2_def [symmetric] s3_def [symmetric]
    by (simp add: s1 s2 s3 recv_def chan_new_def)
qed

lemma silence_test_passes: waiting_for_the_loop_is_not_silence
proof -
  define t where "t = replicate 1000 (CHR ''x'')"
  have len: "length t = 1000" by (simp add: t_def)
  define s0 where "s0 = on_read 0 (ReadPing []) ((reader_new 0)\<lparr>rd_budget := 1000\<rparr>)"
  have s0: "rd_inbound s0 = (chan_new 256)\<lparr>ch_items := [InPing []]\<rparr>" "rd_budget s0 = 1000" "rd_taken s0 = []"
    "ic_gaps (rd_cadence s0) = [0]"
    by (simp_all add: s0_def on_read_def reader_new_def inbound_channel_size_def chan_new_def try_send_def cadence_test_defs)
  define s1 where "s1 = read_and_poll 0 (text_frame 1000) (read_and_poll 0 (text_frame 1000) s0)"
  have s1: "rd_phase s1 = WantBudget t" "rd_budget s1 = 0" "rd_taken s1 = []" "ic_gaps (rd_cadence s1) = [0]"
    "rd_inbound s1 = (chan_new 256)\<lparr>ch_items := [InPing [], InText t 1000]\<rparr>"
    unfolding s1_def by (simp_all add: text_read_and_polled s0 chan_new_def on_frame_def t_def)
  define s2 where "s2 = on_take (on_take s1)"
  have s2: "rd_phase s2 = WantBudget t" "rd_budget s2 = 0" "rd_inbound s2 = chan_new 256" "rd_routing s2 = 1000"
    "rd_taken s2 = [InPing [], InText t 1000]" "ic_gaps (rd_cadence s2) = [0]"
    unfolding s2_def by (simp_all add: on_take_def recv_def s1 chan_new_def)
  define s3 where "s3 = poll_reader (secs 200) (poll_reader (secs 200) (on_routed s2))"
  have s3: "rd_phase s3 = Reading" "ic_gaps (rd_cadence s3) = [0]" "ic_last_frame (rd_cadence s3) = secs 200"
    "rd_inbound s3 = (chan_new 256)\<lparr>ch_items := [InText t 1000]\<rparr>" "rd_taken s3 = [InPing [], InText t 1000]"
    unfolding s3_def by (simp_all add: reader_eval s2 len chan_new_def on_frame_def)
  have check: "on_check (secs n) s = s"
    if "ic_gaps (rd_cadence s) = [0]" "ic_last_frame (rd_cadence s) = secs 200" "n \<le> 210" for n s
    using that by (simp add: on_check_def dead_for_def silence_limit_def silence_floor_def secs_def Let_def)
  show ?thesis
    unfolding waiting_for_the_loop_is_not_silence_def Let_def
      s0_def [symmetric] s1_def [symmetric] s2_def [symmetric] s3_def [symmetric]
    by (simp add: check s2 s3 on_take_def recv_def chan_new_def)
qed

subsection \<open>Dialling\<close>

definition v6 :: "128 word \<Rightarrow> socket_addr" where "v6 n = V6 (0x20010DB8000000000000000000000000 + n) 443"

definition v4 :: "u32 \<Rightarrow> socket_addr" where "v4 n = V4 (0xC0000200 + n) 443"

definition the_dial_target_comes_from_the_url :: bool where
  "the_dial_target_comes_from_the_url =
     (manager_host_port test_parser ''wss://manager.example.com/ws/node'' = Inr (''manager.example.com'', 443)
      \<and> manager_host_port test_parser ''ws://127.0.0.1/ws/node'' = Inr (''127.0.0.1'', 80)
      \<and> manager_host_port test_parser ''wss://[2001:db8::1]:8443/ws/node'' = Inr (''2001:db8::1'', 8443))"

definition address_families_alternate_starting_with_the_first :: bool where
  "address_families_alternate_starting_with_the_first =
     (interleave_families [v6 1, v6 2, v4 1, v4 2] = [v6 1, v4 1, v6 2, v4 2]
      \<and> interleave_families [v4 1, v6 1, v6 2] = [v4 1, v6 1, v6 2]
      \<and> interleave_families [v4 1, v4 2] = [v4 1, v4 2]
      \<and> interleave_families [] = [])"

text \<open>A race on the events a test's attempts and clock give it; \<open>None\<close> when one of them could not happen.\<close>

fun race_on :: "('s, 'e) raced \<Rightarrow> ('s, 'e) race_event list \<Rightarrow> ('s, 'e) raced option" where
  "race_on x [] = Some x"
| "race_on (Racing r) (ev # evs) = (if race_enabled r ev then race_on (on_race_event r ev) evs else None)"
| "race_on x (ev # evs) = None"

fun racing_since :: "('s, 'e) raced option \<Rightarrow> duration option" where
  "racing_since (Some (Racing r)) = Some (r_elapsed r)"
| "racing_since _ = None"

fun tried :: "('s, 'e) raced option \<Rightarrow> nat" where
  "tried (Some (Racing r)) = r_started r"
| "tried _ = 0"

definition live :: socket_addr where "live = V4 0x7F000001 50000"

definition a_silent_first_address_does_not_hold_up_the_second :: bool where
  "a_silent_first_address_does_not_hold_up_the_second =
     (let dial = race_start [v4 1, live] :: (string, string) raced in
      race_on dial [Stagger, Finished 1 1 (Inr ''tcp'')] = Some (Connected ''tcp'' live [v4 1])
      \<and> (case racing_since (race_on dial [Stagger]) of Some t \<Rightarrow> t + 1 < secs 2 | None \<Rightarrow> False))"

definition a_quick_first_address_is_not_raced :: bool where
  "a_quick_first_address_is_not_raced =
     (let dial = race_start [v4 1, v4 2] :: (socket_addr, string) raced in
      race_on dial [Finished (connect_attempt_delay div 2) 0 (Inr (v4 1))] = Some (Connected (v4 1) (v4 1) [])
      \<and> tried (race_on dial []) = 1)"

definition a_failed_attempt_starts_the_next_at_once :: bool where
  "a_failed_attempt_starts_the_next_at_once =
     (let dial = race_start [v4 1, v4 2] :: (socket_addr, string) raced; refused = Finished 0 0 (Inl ''refused'') in
      race_on dial [refused, Finished 0 1 (Inr (v4 2))] = Some (Connected (v4 2) (v4 2) [])
      \<and> racing_since (race_on dial [refused]) = Some 0)"

definition every_address_failing_reports_the_last_failure :: bool where
  "every_address_failing_reports_the_last_failure =
     (let dial = race_start [v4 1, v4 2] :: (unit, string) raced in
      case race_on dial [Finished 0 0 (Inl ''refused by a''), Finished 0 1 (Inl ''refused by b'')] of
        Some x \<Rightarrow> connect_result ''resolved to no addresses'' x = Some (Inl ''refused by b'')
      | None \<Rightarrow> False)"

lemma dial_tests_pass:
  "the_dial_target_comes_from_the_url" "address_families_alternate_starting_with_the_first"
  "a_silent_first_address_does_not_hold_up_the_second" "a_quick_first_address_is_not_raced"
  "a_failed_attempt_starts_the_next_at_once" "every_address_failing_reports_the_last_failure"
  unfolding the_dial_target_comes_from_the_url_def address_families_alternate_starting_with_the_first_def
    a_silent_first_address_does_not_hold_up_the_second_def a_quick_first_address_is_not_raced_def
    a_failed_attempt_starts_the_next_at_once_def every_address_failing_reports_the_last_failure_def
  by (simp_all add: manager_host_port_def test_parser_def parsed_url_def interleave_families_def v4_def v6_def live_def
      race_start_def begin_pass_def connect_attempt_delay_def millis_def secs_def connect_result_def Let_def)

subsection \<open>The command worker\<close>

text \<open>The frames are what \<open>envelope\<close> writes, with any printer that is read back; the held handler answers or panics
  once it is released.\<close>

definition test_command :: "wire \<Rightarrow> string \<Rightarrow> queued_command" where
  "test_command w i = (let frame = envelope w ''now'' ''command'' (json_obj [(''command_id'', JStr i), (''action'', JObj Map.empty)])
     in \<lparr>qc_id = i, qc_frame = frame, qc_held = permit_cost (length frame)\<rparr>)"

definition queued :: "wire \<Rightarrow> string \<Rightarrow> pool \<Rightarrow> pool" where
  "queued w i p =
     (case queue_command i (qc_frame (test_command w i)) (po_workers p ! 0) of
        Accepted wk \<Rightarrow> set_worker 0 wk p | _ \<Rightarrow> p)"

definition a_command_running :: "wire \<Rightarrow> pool" where
  "a_command_running w = poll_next 0 (queued w ''second'' (queued w ''first''
     (poll_turn 0 (pool_new\<lparr>po_workers := [worker_new]\<rparr>))))"

definition session_over :: "pool \<Rightarrow> pool" where
  "session_over p = set_worker 0 ((po_workers p ! 0)\<lparr>wk_over := True\<rparr>) p"

definition held_handler :: "bool \<Rightarrow> handler_answers" where
  "held_handler panics = \<lparr>ha_config = Some JNull, ha_command = (if panics then None else Some (Inr JNull))\<rparr>"

definition ended_mid_command :: "wire \<Rightarrow> pool" where
  "ended_mid_command w = see_over 0 (test_command w ''first'') (session_over (a_command_running w))"

definition released :: "wire \<Rightarrow> bool \<Rightarrow> pool" where
  "released w panics = command_joined w 0 (test_command w ''first'') (Answered (held_handler panics)) (ended_mid_command w)"

definition started_ids :: "pool \<Rightarrow> string list" where
  "started_ids p = map (qc_id \<circ> snd) (po_started p)"

definition a_session_that_ends_mid_command_lets_its_queue_go :: "wire \<Rightarrow> bool" where
  "a_session_that_ends_mid_command_lets_its_queue_go w =
     (let p = ended_mid_command w; p' = released w False in
      \<not> ch_rx_open (wk_queue (po_workers p ! 0)) \<and> wk_budget (po_workers p ! 0) = command_queue_bytes
      \<and> po_turn p = Some 0
      \<and> wk_phase (po_workers p' ! 0) = Stopped \<and> po_turn p' = None
      \<and> map fst (po_sent p') = [''command_ack'']
      \<and> list_all (\<lambda>(t, a). jget a ''command_id'' = Some (JStr ''first'') \<and> jget a ''success'' = Some (JBool True)) (po_sent p')
      \<and> started_ids p' = [''first''])"

definition a_panic_after_the_session_ended_is_still_acked :: "wire \<Rightarrow> bool" where
  "a_panic_after_the_session_ended_is_still_acked w =
     (let p = ended_mid_command w; p' = released w True in
      \<not> ch_rx_open (wk_queue (po_workers p ! 0)) \<and> wk_phase (po_workers p' ! 0) = Stopped
      \<and> map fst (po_sent p') = [''command_ack'']
      \<and> list_all (\<lambda>(t, a). jget a ''command_id'' = Some (JStr ''first'')
          \<and> jget a ''error_code'' = Some (JStr ''handler_panicked'')) (po_sent p')
      \<and> started_ids p' = [''first''])"

text \<open>A wire that carries the test's frames: it reads back the first one, and both fit the budget together.\<close>

definition carries_test_frames :: "wire \<Rightarrow> bool" where
  "carries_test_frames w =
     (reads_back w (envelope_value ''now'' ''command'' (json_obj [(''command_id'', JStr ''first''), (''action'', JObj Map.empty)]))
      \<and> qc_held (test_command w ''first'') + qc_held (test_command w ''second'') \<le> command_queue_bytes)"

text \<open>Such a wire: it writes nothing, and reads the first frame.\<close>

lemma a_wire_carries_them:
  "carries_test_frames \<lparr>w_to_text = (\<lambda>_. []),
     w_of_text = (\<lambda>_. Inr (envelope_value ''now'' ''command''
       (json_obj [(''command_id'', JStr ''first''), (''action'', JObj Map.empty)])))\<rparr>"
  by (simp add: carries_test_frames_def reads_back_def test_command_def envelope_def permit_cost_def Let_def)

lemma queued_accepted:
  assumes "qc_held (test_command w i) \<le> wk_budget (po_workers p ! 0)" and "ch_rx_open (wk_queue (po_workers p ! 0))"
    and "length (ch_items (wk_queue (po_workers p ! 0))) < ch_cap (wk_queue (po_workers p ! 0))"
  shows "queued w i p = set_worker 0 ((po_workers p ! 0)
    \<lparr>wk_queue := (wk_queue (po_workers p ! 0))\<lparr>ch_items := ch_items (wk_queue (po_workers p ! 0)) @ [test_command w i]\<rparr>,
     wk_budget := wk_budget (po_workers p ! 0) - qc_held (test_command w i)\<rparr>) p"
proof -
  have held: "qc_held (test_command w i) = permit_cost (length (qc_frame (test_command w i)))"
    "test_command w i = \<lparr>qc_id = i, qc_frame = qc_frame (test_command w i), qc_held = qc_held (test_command w i)\<rparr>"
    by (simp_all add: test_command_def Let_def)
  show ?thesis
    using assms unfolding queued_def queue_command_def Let_def held(1) [symmetric] held(2) [symmetric]
    by (simp add: try_acquire_def try_send_def)
qed

lemma command_running:
  assumes "carries_test_frames w"
  shows "a_command_running w = pool_new\<lparr>po_turn := Some 0, po_started := [(0, test_command w ''first'')],
     po_workers := [worker_new\<lparr>wk_phase := Running (test_command w ''first''),
       wk_queue := (chan_new command_queue_size)\<lparr>ch_items := [test_command w ''second'']\<rparr>,
       wk_budget := command_queue_bytes - qc_held (test_command w ''second'')\<rparr>]\<rparr>"
proof -
  have room: "qc_held (test_command w ''first'') \<le> command_queue_bytes"
    "qc_held (test_command w ''second'') \<le> command_queue_bytes - qc_held (test_command w ''first'')"
    using assms unfolding carries_test_frames_def by linarith+
  have "poll_turn 0 (pool_new\<lparr>po_workers := [worker_new]\<rparr>)
      = pool_new\<lparr>po_workers := [worker_new\<lparr>wk_phase := Idle\<rparr>], po_turn := Some 0\<rparr>"
    by (simp add: poll_turn_def pool_new_def worker_new_def set_worker_def)
  then show ?thesis
    using room unfolding a_command_running_def
    by (simp add: queued_accepted worker_new_def chan_new_def command_queue_size_def set_worker_def poll_next_def recv_def
        release_def pool_new_def)
qed

lemma ended_command:
  assumes "carries_test_frames w"
  shows "ended_mid_command w = pool_new\<lparr>po_turn := Some 0, po_started := [(0, test_command w ''first'')],
     po_workers := [worker_new\<lparr>wk_phase := Draining (test_command w ''first''), wk_over := True,
       wk_queue := drop_rx (chan_new command_queue_size), wk_budget := command_queue_bytes\<rparr>]\<rparr>"
  using assms
  by (simp add: ended_mid_command_def command_running session_over_def see_over_def set_worker_def drop_queue_def drop_rx_def
      release_def worker_new_def chan_new_def carries_test_frames_def)

lemma test_action:
  assumes "carries_test_frames w"
  shows "\<not> action_is_get_config (command_action w (test_command w ''first''))"
  using assms
  by (simp add: carries_test_frames_def command_action_def test_command_def parse_envelope action_is_get_config_def
      json_obj_def get_str_def Let_def)

lemma command_seen_out:
  assumes "carries_test_frames w"
  shows "see_out w (test_command w ''first'') (Answered (held_handler panics), OutOpen) =
    ([(''command_ack'', command_ack_payload ''first'' (if panics then Inl handler_panicked else Inr JNull))], True)"
proof -
  have "qc_id (test_command w ''first'') = ''first''" by (simp add: test_command_def Let_def)
  then show ?thesis
    using test_action [OF assms] by (simp add: see_out_def run_command_def finish_command_def held_handler_def)
qed

lemma released_command:
  assumes "carries_test_frames w"
  shows "wk_phase (po_workers (released w panics) ! 0) = Stopped" and "po_turn (released w panics) = None"
    and "po_sent (released w panics) =
      [(''command_ack'', command_ack_payload ''first'' (if panics then Inl handler_panicked else Inr JNull))]"
    and "started_ids (released w panics) = [''first'']"
proof -
  have "qc_id (test_command w ''first'') = ''first''" by (simp add: test_command_def Let_def)
  then show "wk_phase (po_workers (released w panics) ! 0) = Stopped" and "po_turn (released w panics) = None"
    and "po_sent (released w panics) =
      [(''command_ack'', command_ack_payload ''first'' (if panics then Inl handler_panicked else Inr JNull))]"
    and "started_ids (released w panics) = [''first'']"
    unfolding released_def ended_command [OF assms]
    by (simp_all add: command_joined_def pool_new_def command_seen_out [OF assms] stop_worker_def started_ids_def)
qed

lemma worker_tests_pass:
  assumes "carries_test_frames w"
  shows "a_session_that_ends_mid_command_lets_its_queue_go w" "a_panic_after_the_session_ended_is_still_acked w"
proof -
  have ended: "\<not> ch_rx_open (wk_queue (po_workers (ended_mid_command w) ! 0))"
    "wk_budget (po_workers (ended_mid_command w) ! 0) = command_queue_bytes" "po_turn (ended_mid_command w) = Some 0"
    by (simp_all add: ended_command [OF assms] drop_rx_def)
  show "a_session_that_ends_mid_command_lets_its_queue_go w"
    unfolding a_session_that_ends_mid_command_lets_its_queue_go_def Let_def
    by (simp add: ended released_command [OF assms] command_ack_payload_def)
  show "a_panic_after_the_session_ended_is_still_acked w"
    unfolding a_panic_after_the_session_ended_is_still_acked_def Let_def
    by (simp add: ended released_command [OF assms] command_ack_payload_def handler_panicked_def command_error_new_def)
qed

end
