(* ===== verification/ShutdownOrder.thy ===== *)
theory ShutdownOrder
  imports SerialServer
begin

section \<open>Shutting down: the workers after the last session\<close>

text \<open>
  When \<open>run\<close> leaves its loop every session is over, and it waits for the command turn. This theory shows
  what still happens then: a \<open>closing_step\<close> is a step of the pool in which every session is over and none
  begins, the closing of the outbound channel being one of them.
\<close>

definition all_over :: "pool \<Rightarrow> bool" where
  "all_over p = list_all wk_over (po_workers p)"

definition closing_step :: "wire \<Rightarrow> pool \<Rightarrow> pool \<Rightarrow> bool" where
  "closing_step w p p' = (all_over p \<and> pool_step w p p' \<and> length (po_workers p') = length (po_workers p))"

text \<open>How many steps a worker has before it at most.\<close>

definition steps_left :: "worker_phase \<Rightarrow> nat" where
  "steps_left ph = (case ph of Stopped \<Rightarrow> 0 | Running _ \<Rightarrow> 3 | Draining _ \<Rightarrow> 2 | _ \<Rightarrow> 1)"

definition pool_steps_left :: "pool \<Rightarrow> nat" where
  "pool_steps_left p = sum_list (map (\<lambda>wk. steps_left (wk_phase wk)) (po_workers p))
     + (if po_outbound p = OutOpen then 1 else 0)"

lemma steps_left_simps [simp]:
  "steps_left Stopped = 0" "steps_left (Running c) = 3" "steps_left (Draining c) = 2" "steps_left Idle = 1"
  "steps_left Spawned = 1" "steps_left InLine = 1"
  by (simp_all add: steps_left_def)

lemma steps_left_bound:
  "pool_steps_left p \<le> 3 * length (po_workers p) + (if po_outbound p = OutOpen then 1 else 0)"
proof -
  have three: "steps_left ph \<le> 3" for ph by (cases ph) simp_all
  have "sum_list (map (\<lambda>wk. steps_left (wk_phase wk)) ws) \<le> 3 * length ws" for ws :: "worker list"
  proof (induction ws)
    case (Cons wk ws)
    then show ?case using three [of "wk_phase wk"] by simp
  qed simp
  then show ?thesis by (simp add: pool_steps_left_def)
qed

text \<open>A worker that moves on brings the sum down.\<close>

lemma steps_left_set:
  assumes "k < length (po_workers p)" and "po_workers q = (po_workers p)[k := wk]"
    and "steps_left (wk_phase wk) < steps_left (wk_phase (po_workers p ! k))" and "po_outbound q = po_outbound p"
  shows "pool_steps_left q < pool_steps_left p"
proof -
  have split: "po_workers p = take k (po_workers p) @ po_workers p ! k # drop (Suc k) (po_workers p)"
    by (rule id_take_nth_drop [OF assms(1)])
  have "pool_steps_left p = sum_list (map (\<lambda>wk. steps_left (wk_phase wk)) (take k (po_workers p)))
      + steps_left (wk_phase (po_workers p ! k))
      + sum_list (map (\<lambda>wk. steps_left (wk_phase wk)) (drop (Suc k) (po_workers p)))
      + (if po_outbound p = OutOpen then 1 else 0)"
    unfolding pool_steps_left_def by (subst split) simp
  then show ?thesis
    using assms by (simp add: pool_steps_left_def upd_conv_take_nth_drop)
qed

lemma all_over_set: "all_over p \<Longrightarrow> po_workers q = (po_workers p)[k := wk] \<Longrightarrow> wk_over wk \<Longrightarrow> all_over q"
  unfolding all_over_def list_all_iff by (rule over_set)

lemma stopping:
  assumes "all_over p" and "k < length (po_workers p)" and "wk_phase (po_workers p ! k) \<noteq> Stopped"
  shows "all_over (stop_worker k p) \<and> pool_steps_left (stop_worker k p) < pool_steps_left p"
proof
  have w: "po_workers (stop_worker k p) = (po_workers p)[k := (drop_queue (po_workers p ! k))\<lparr>wk_phase := Stopped\<rparr>]"
    by (simp add: stop_worker_def)
  show "all_over (stop_worker k p)"
    by (rule all_over_set [OF assms(1) w]) (use assms(1,2) in \<open>simp add: all_over_def list_all_length\<close>)
  show "pool_steps_left (stop_worker k p) < pool_steps_left p"
    by (rule steps_left_set [OF assms(2) w]) (use assms(3) in \<open>cases "wk_phase (po_workers p ! k)"; simp\<close>, simp)
qed

lemma closing_effect:
  assumes "closing_step w p p'"
  shows "all_over p' \<and> pool_steps_left p' < pool_steps_left p
    \<and> po_started p' = po_started p \<and> po_accepted p' = po_accepted p"
proof -
  have over: "all_over p" and step: "pool_step w p p'" and len: "length (po_workers p') = length (po_workers p)"
    using assms by (simp_all add: closing_step_def)
  have nth: "wk_over (po_workers p ! k)" if "k < length (po_workers p)" for k
    using over that by (simp add: all_over_def list_all_length)
  have last: "po_workers p \<noteq> [] \<Longrightarrow> wk_over (po_workers p ! last_session p)" by (rule nth) simp
  from step over len nth last show ?thesis
  proof (induction rule: pool_step.induct)
    case (step_poll_turn k p)
    then have "poll_turn k p = stop_worker k p" by (simp add: poll_turn_def)
    moreover have "wk_phase (po_workers p ! k) \<noteq> Stopped" using step_poll_turn(2) by auto
    ultimately show ?case using stopping [OF step_poll_turn(3,1)] by simp
  next
    case (step_poll_next k p)
    then have "poll_next k p = stop_worker k p" by (simp add: poll_next_def)
    then show ?case using stopping [OF step_poll_next(3,1)] step_poll_next(2) by simp
  next
    case (step_joined k p c e)
    let ?q = "p\<lparr>po_finished := po_finished p @ [(k, c, e, po_outbound p)],
        po_sent := po_sent p @ fst (see_out w c (e, po_outbound p))\<rparr>"
    have q: "all_over ?q" "pool_steps_left ?q = pool_steps_left p"
      using step_joined(3) by (simp_all add: all_over_def pool_steps_left_def)
    have stop: "all_over (stop_worker k ?q) \<and> pool_steps_left (stop_worker k ?q) < pool_steps_left p"
      using stopping [OF q(1), of k] q(2) step_joined(1,2) by auto
    have idle: "all_over (set_worker k ((po_workers p ! k)\<lparr>wk_phase := Idle\<rparr>) ?q)
        \<and> pool_steps_left (set_worker k ((po_workers p ! k)\<lparr>wk_phase := Idle\<rparr>) ?q) < pool_steps_left p"
      using all_over_set [OF step_joined(3)] steps_left_set [OF step_joined(1)] step_joined(1,2,5) by auto
    show ?case using stop idle by (simp add: command_joined_def Let_def split_beta)
  next
    case (step_see_over k p c)
    then show ?case
      using all_over_set [OF step_see_over(4), of "see_over k c p" k]
        steps_left_set [OF step_see_over(1), of "see_over k c p"]
      by (simp add: see_over_def)
  next
    case (step_close p n)
    then show ?case by (simp add: all_over_def pool_steps_left_def)
  qed simp_all
qed

definition closing_inv :: "wire \<Rightarrow> pool \<Rightarrow> bool" where
  "closing_inv w p = (pool_inv w p \<and> all_over p)"

interpretation closing: decreasing_steps "closing_inv w" "closing_step w" "closing_inv w" pool_steps_left for w
  by unfold_locales (auto simp: closing_inv_def closing_step_def pool_inv_step dest: closing_effect
      intro: closing_effect [THEN conjunct1] closing_effect [THEN conjunct2, THEN conjunct1])

text \<open>A pool at rest has let go of the turn.\<close>

lemma resting_pool:
  assumes "closing_inv w p" and "\<And>q. \<not> closing_step w p q" and "k < length (po_workers p)"
  shows "wk_phase (po_workers p ! k) = Stopped"
proof (rule ccontr)
  assume run: "wk_phase (po_workers p ! k) \<noteq> Stopped"
  have over: "all_over p" and ok: "wk_over (po_workers p ! k)"
    using assms(1,3) by (simp_all add: closing_inv_def all_over_def list_all_length)
  have len: "length (po_workers (stop_worker k p)) = length (po_workers p)"
    "length (po_workers (command_joined w k c e p)) = length (po_workers p)" for c e
    by (simp_all add: stop_worker_def command_joined_def Let_def split_beta)
  show False
  proof (cases "wk_phase (po_workers p ! k) \<in> {Spawned, InLine, Idle}")
    case True
    then have "pool_step w p (stop_worker k p)"
      using steps_aside [of w p k] assms(1,3) ok by (simp add: closing_inv_def)
    then show False using assms(2) over len by (simp add: closing_step_def)
  next
    case False
    then obtain c where "wk_phase (po_workers p ! k) \<in> {Running c, Draining c}"
      using run by (cases "wk_phase (po_workers p ! k)") auto
    then have "pool_step w p (command_joined w k c e p)" for e by (rule step_joined [OF assms(3)])
    then have "closing_step w p (command_joined w k c e p)" for e using over len(2) by (simp add: closing_step_def)
    then show False using assms(2) by blast
  qed
qed

text \<open>And it has been closed.\<close>

lemma resting_closed:
  assumes "closing_inv w p" and "\<And>q. \<not> closing_step w p q"
  shows "po_outbound p \<noteq> OutOpen"
proof
  assume "po_outbound p = OutOpen"
  moreover have "all_over p" using assms(1) by (simp add: closing_inv_def)
  ultimately have "closing_step w p (close_outbound 0 p)"
    using step_close [of p 0 w] by (simp add: closing_step_def all_over_def list_all_iff)
  then show False using assms(2) by blast
qed

lemma closing_logs: "(closing_step w ^^ n) p p' \<Longrightarrow> po_started p' = po_started p \<and> po_accepted p' = po_accepted p"
  by (induction n arbitrary: p') (auto dest!: closing_effect)

subsection \<open>Properties\<close>

text \<open>C22: at shutdown nothing new starts, and the workers come to rest. Once every session is over, however
  the workers go on without a new session, no command starts or is accepted any more, each worker takes at
  most three more steps (and \<open>run\<close> closes the outbound channel, once), and when nothing can take a step the
  channel is closed, all workers have returned and the command turn is free, which is what \<open>run\<close> waits for.\<close>

theorem shutdown_starts_nothing_and_frees_the_turn:
  assumes "reachable (\<lambda>p. p = pool_new) (pool_step w) p" and "all_over p" and "(closing_step w ^^ n) p p'"
  shows "po_started p' = po_started p \<and> po_accepted p' = po_accepted p
    \<and> n \<le> 3 * length (po_workers p) + (if po_outbound p = OutOpen then 1 else 0)
    \<and> ((\<forall>q. \<not> closing_step w p' q) \<longrightarrow> list_all (\<lambda>wk. wk_phase wk = Stopped) (po_workers p') \<and> po_turn p' = None
         \<and> po_outbound p' \<noteq> OutOpen)"
proof -
  have inv: "closing_inv w p" using pools.reachable_inv [OF assms(1)] assms(2) by (simp add: closing_inv_def)
  have inv': "closing_inv w p'"
    by (rule closing.steps_inv [OF relpowp_imp_rtranclp [OF assms(3)] inv])
  have "n \<le> 3 * length (po_workers p) + (if po_outbound p = OutOpen then 1 else 0)"
    using closing.steps_bounded [OF assms(3) inv] steps_left_bound [of p] by linarith
  moreover have "list_all (\<lambda>wk. wk_phase wk = Stopped) (po_workers p') \<and> po_turn p' = None \<and> po_outbound p' \<noteq> OutOpen"
    if rest: "\<forall>q. \<not> closing_step w p' q"
  proof -
    have stopped: "\<forall>k<length (po_workers p'). wk_phase (po_workers p' ! k) = Stopped"
      using resting_pool [OF inv'] rest by blast
    moreover have "turn_inv p'" using inv' by (simp add: closing_inv_def pool_inv_def)
    ultimately have "po_turn p' = None" by (cases "po_turn p'") (auto simp: turn_inv_def)
    then show ?thesis using stopped resting_closed [OF inv'] rest by (simp add: list_all_length)
  qed
  ultimately show ?thesis using closing_logs [OF assms(3)] by blast
qed

text \<open>One session that is over with a command still queued: its worker returns in one step, and the channel is
  closed in another.\<close>

definition ended_pool :: pool where
  "ended_pool = set_worker 0 ((po_workers sample_pool ! 0)\<lparr>wk_queue := drop_tx (wk_queue (po_workers sample_pool ! 0)),
     wk_over := True\<rparr>) sample_pool"

definition rested_pool :: pool where "rested_pool = close_outbound 0 (stop_worker 0 ended_pool)"

theorem shutdown_starts_nothing_and_frees_the_turn_witness:
  "po_started rested_pool = [] \<and> po_turn rested_pool = None"
proof -
  let ?stopped = "stop_worker 0 ended_pool"
  have "pool_step mute_wire sample_pool ended_pool"
    unfolding ended_pool_def by (rule step_session_over) (simp_all add: sample_pool_def worker_new_def)
  then have reach: "reachable (\<lambda>p. p = pool_new) (pool_step mute_wire) ended_pool"
    by (rule reach_step [where step = "pool_step mute_wire" and s = sample_pool, OF sample_pool_reachable])
  have over: "all_over ended_pool"
    by (simp add: all_over_def ended_pool_def sample_pool_def)
  have "pool_step mute_wire ended_pool ?stopped"
    using steps_aside [OF pools.reachable_inv [OF reach], of 0]
    by (simp add: ended_pool_def sample_pool_def worker_new_def)
  then have one: "closing_step mute_wire ended_pool ?stopped"
    using over by (simp add: closing_step_def stop_worker_def)
  have workers: "po_workers ?stopped = [(drop_queue (po_workers ended_pool ! 0))\<lparr>wk_phase := Stopped\<rparr>]"
    by (simp add: stop_worker_def ended_pool_def sample_pool_def)
  have "all_over ?stopped" using closing_effect [OF one] by blast
  moreover have "po_outbound ?stopped = OutOpen" by (simp add: ended_pool_def sample_pool_def pool_new_def)
  ultimately have two: "closing_step mute_wire ?stopped rested_pool"
    using step_close [of ?stopped 0 mute_wire] by (simp add: closing_step_def all_over_def list_all_iff rested_pool_def)
  have run: "(closing_step mute_wire ^^ 2) ended_pool rested_pool"
    using one two by (auto simp: numeral_2_eq_2)
  have "pool_steps_left rested_pool = 0" by (simp add: pool_steps_left_def rested_pool_def workers)
  then have rest: "\<forall>q. \<not> closing_step mute_wire rested_pool q"
    using closing_effect by fastforce
  show ?thesis
    using shutdown_starts_nothing_and_frees_the_turn [OF reach over run] rest
    by (simp add: ended_pool_def sample_pool_def pool_new_def)
qed

end
