(* ===== verification/UpgradeTests.thy ===== *)
theory UpgradeTests
  imports Download Verify InstallState
begin

section \<open>The unit tests of the self-upgrade, replayed on the model\<close>

text \<open>
  The tests the repository keeps under src/upgrade that need no certificate file, each as a bool-valued definition
  with the same inputs and checks, and lemmas that the model passes them. \<open>Url::parse\<close> and the parser of cosign
  bundles are the values the tests' inputs give; the temporary directory is an empty one, every call succeeds.
\<close>

subsection \<open>Hosts\<close>

definition release_url :: "string \<Rightarrow> string \<Rightarrow> url" where
  "release_url scheme host = \<lparr>url_scheme = scheme, url_host_of = Some (Domain host), url_host_str = Some host,
     url_port_or_known_default = Some (if scheme = ''https'' then 443 else 80)\<rparr>"

definition release_parser :: url_parser where
  "release_parser u =
     (case map_of [(''https://release-assets.githubusercontent.com/abc/def?sig=x'', release_url ''https'' ''release-assets.githubusercontent.com''),
         (''https://objects.githubusercontent.com/abc/def'', release_url ''https'' ''objects.githubusercontent.com''),
         (''https://github.com/Vendor/repo/releases/download/v1.0.0/x.tar.gz'', release_url ''https'' ''github.com''),
         (''https://github.com/Bilbycast/bilbycast-edge/releases/download/v0.0.0/x.tar.gz'', release_url ''https'' ''github.com''),
         (''https://evil.com/foo.tar.gz'', release_url ''https'' ''evil.com''),
         (''https://evil.com/foo'', release_url ''https'' ''evil.com''),
         (''http://github.com/foo'', release_url ''http'' ''github.com'')] u
      of Some v \<Rightarrow> Inr v | None \<Rightarrow> Inl ''relative URL without a base'')"

definition url_host_whitelist_accepts_release_assets_cdn :: bool where
  "url_host_whitelist_accepts_release_assets_cdn = list_all (\<lambda>u. is_ok (validate_url_host release_parser u))
     [''https://release-assets.githubusercontent.com/abc/def?sig=x'', ''https://objects.githubusercontent.com/abc/def'',
      ''https://github.com/Vendor/repo/releases/download/v1.0.0/x.tar.gz'']"

definition url_host_whitelist_rejects_other_hosts :: bool where
  "url_host_whitelist_rejects_other_hosts = list_all (\<lambda>u. \<not> is_ok (validate_url_host release_parser u))
     [''https://evil.com/foo.tar.gz'', ''http://github.com/foo'']"

definition redirect_host_allowed_covers_github_cdn_family :: bool where
  "redirect_host_allowed_covers_github_cdn_family =
     (list_all redirect_host_allowed
        [''github.com'', ''githubusercontent.com'', ''objects.githubusercontent.com'',
         ''release-assets.githubusercontent.com'', ''some-future-cdn.githubusercontent.com'']
      \<and> list_all (\<lambda>h. \<not> redirect_host_allowed h)
        [''evil.com'', ''evilgithubusercontent.com'', ''githubusercontent.com.evil.com'',
         ''raw.githubusercontent.com.evil.com'', ''''])"

lemma host_tests_pass:
  "url_host_whitelist_accepts_release_assets_cdn" "url_host_whitelist_rejects_other_hosts"
  by (simp_all add: url_host_whitelist_accepts_release_assets_cdn_def url_host_whitelist_rejects_other_hosts_def
      validate_url_host_def release_parser_def release_url_def allowed_url_hosts_def bail_if_def ok_or_def)

lemma redirect_test_passes: redirect_host_allowed_covers_github_cdn_family
  by code_simp

subsection \<open>Downloads\<close>

text \<open>Both are refused before anything is fetched, whatever the server would answer.\<close>

definition rejects_bad_host :: "http \<Rightarrow> bool" where
  "rejects_bad_host http =
     (fst (fetch_text release_parser (Inr ()) http ''https://evil.com/foo'')
      = Inl [Manifest (UrlHostNotListed ''https://evil.com/foo'' ''evil.com'')])"

definition rejects_bad_sha_format :: "(bytes \<Rightarrow> bytes) \<Rightarrow> http \<Rightarrow> bool" where
  "rejects_bad_sha_format sha256 http =
     (fst (fetch_with_sha256 release_parser (Inr ()) sha256 http
        ''https://github.com/Bilbycast/bilbycast-edge/releases/download/v0.0.0/x.tar.gz'' ''not-hex'')
      = Inl [Download (BadExpectedSha256 ''not-hex'')])"

lemma download_tests_pass: "rejects_bad_host http" "rejects_bad_sha_format sha256 http"
  by (simp_all add: rejects_bad_host_def rejects_bad_sha_format_def fetch_text_def fetch_with_sha256_def
      validate_url_host_def release_parser_def release_url_def allowed_url_hosts_def bail_if_def ok_or_def)

subsection \<open>Signers\<close>

definition ref_matches_glob_suffix :: bool where
  "ref_matches_glob_suffix =
     (ref_matches ''refs/tags/v*'' ''refs/tags/v0.45.4'' \<and> ref_matches ''refs/tags/v*'' ''refs/tags/v1.0.0''
      \<and> \<not> ref_matches ''refs/tags/v*'' ''refs/heads/main'' \<and> \<not> ref_matches ''refs/tags/v*'' ''refs/tags/foo'')"

definition ref_matches_exact :: bool where
  "ref_matches_exact =
     (ref_matches ''refs/tags/v0.45.4'' ''refs/tags/v0.45.4'' \<and> \<not> ref_matches ''refs/tags/v0.45.4'' ''refs/tags/v0.45.5'')"

definition edge_signer :: allowed_signer where
  "edge_signer = \<lparr>as_issuer = ''https://token.actions.githubusercontent.com'',
     as_repo = ''https://github.com/Bilbycast/bilbycast-edge'', as_ref_pattern = ''refs/tags/v*'',
     as_workflow = ''https://github.com/Bilbycast/bilbycast-edge/.github/workflows/nightly-release.yml''\<rparr>"

definition empty_allowlist_is_rejected :: "'k sigstore \<Rightarrow> bool" where
  "empty_allowlist_is_rejected sg = (\<not> is_ok (verify_manifest_bundle sg (str_bytes ''x'') (str_bytes ''{}'') []))"

definition malformed_bundle_json_is_rejected :: "'k sigstore \<Rightarrow> bool" where
  "malformed_bundle_json_is_rejected sg =
     (\<not> is_ok (verify_manifest_bundle sg (str_bytes ''manifest'') (str_bytes ''not-json'') [edge_signer]))"

definition identity_matches_exact_workflow_prefix_only :: bool where
  "identity_matches_exact_workflow_prefix_only =
     (let claims = \<lparr>ci_issuer = Some ''https://token.actions.githubusercontent.com'',
            ci_repo = Some ''https://github.com/Bilbycast/bilbycast-edge'',
            ci_workflow_uri = Some ''https://github.com/Bilbycast/bilbycast-edge/.github/workflows/nightly-release.yml@refs/tags/v0.45.4'',
            ci_ref_claim = Some ''refs/tags/v0.45.4''\<rparr> in
      identity_matches_allowlist claims [edge_signer]
      \<and> \<not> identity_matches_allowlist (claims\<lparr>ci_repo := Some ''https://github.com/attacker/bilbycast-edge''\<rparr>) [edge_signer]
      \<and> \<not> identity_matches_allowlist (claims\<lparr>ci_ref_claim := Some ''refs/heads/main''\<rparr>) [edge_signer]
      \<and> \<not> identity_matches_allowlist (claims\<lparr>ci_workflow_uri :=
           Some ''https://github.com/Bilbycast/bilbycast-edge/.github/workflows/evil.yml@refs/tags/v0.45.4''\<rparr>) [edge_signer]
      \<and> \<not> identity_matches_allowlist (claims\<lparr>ci_workflow_uri :=
           Some ''https://github.com/Bilbycast/bilbycast-edge/.github/workflows/nightly-release.yml.evil.yml@refs/tags/v0.45.4''\<rparr>)
         [edge_signer])"

lemma signer_tests_pass:
  "ref_matches_glob_suffix" "ref_matches_exact" "empty_allowlist_is_rejected sg"
  "sg_parse_bundle sg (str_bytes ''not-json'') = Inl e \<Longrightarrow> malformed_bundle_json_is_rejected sg"
  "identity_matches_exact_workflow_prefix_only"
  by (simp_all add: ref_matches_glob_suffix_def ref_matches_exact_def empty_allowlist_is_rejected_def
      malformed_bundle_json_is_rejected_def verify_manifest_bundle_def with_source_def bail_if_def
      identity_matches_exact_workflow_prefix_only_def identity_matches_allowlist_def signer_matches_def edge_signer_def
      ref_matches_def strip_suffix_def starts_with_def)

subsection \<open>The state file\<close>

definition sample_install_state :: install_state where
  "sample_install_state = \<lparr>st_current_version = ''0.45.4'', st_previous_version = Some ''0.45.3'', st_channel = ''stable'',
     st_variant = ''default'', st_arch = ''x86_64-linux'', st_status = PendingHealth, st_boot_attempts = 0,
     st_staged_at = 0, st_last_health_at = None, st_last_sequence = 142\<rparr>"

definition temp_dir :: "install_state option world" where "temp_dir = calm_world [([''tmp''], 0, DirNode)]"

definition temp_state :: path where "temp_state = state_path [''tmp'']"

definition roundtrip_save_load :: bool where
  "roundtrip_save_load =
     (let pf = plain_platform 1; w = snd (save_state pf temp_state sample_install_state temp_dir) in
      case fst (load_state pf temp_state w) of
        Inr got \<Rightarrow> st_current_version got = ''0.45.4'' \<and> st_last_sequence got = 142
      | Inl _ \<Rightarrow> False)"

definition bump_boot_attempts_increments :: bool where
  "bump_boot_attempts_increments =
     (let pf = plain_platform 1; w = snd (save_state pf temp_state sample_install_state temp_dir);
          (n1, w1) = bump_boot_attempts pf temp_state w; (n2, w2) = bump_boot_attempts pf temp_state w1
      in n1 = Inr 1 \<and> n2 = Inr 2)"

definition try_load_returns_none_when_absent :: bool where
  "try_load_returns_none_when_absent = (fst (try_load_state (plain_platform 1) [''tmp''] temp_dir) = Inr None)"

lemma state_tests_pass:
  "roundtrip_save_load" "bump_boot_attempts_increments" "try_load_returns_none_when_absent"
  by code_simp+

end
