(* ===== verification/VersionGc.thy ===== *)
theory VersionGc
  imports Apply
begin

section \<open>What the clean-up of old versions removes (src/upgrade/apply.rs)\<close>

text \<open>
  \<open>gc_versions\<close> runs after every staged version. Whatever system calls fail, it leaves alone everything but the
  other versions; when none fails it removes the left-overs of extractions and all but the newest other
  versions, by the modification times it found. Where \<open>previous\<close> points to plays no part in it.
\<close>

text \<open>The paths at and below a version other than the given one.\<close>

definition under_other_version :: "path \<Rightarrow> string \<Rightarrow> path \<Rightarrow> bool" where
  "under_other_version r v q =
     (take (length (versions_dir r)) q = versions_dir r
      \<and> (case drop (length (versions_dir r)) q of [] \<Rightarrow> False | n # _ \<Rightarrow> n \<noteq> v))"

definition others_kept :: "path \<Rightarrow> string \<Rightarrow> 'c fs \<Rightarrow> 'c fs \<Rightarrow> bool" where
  "others_kept r v fs0 fs = (\<forall>q. \<not> under_other_version r v q \<longrightarrow> node_at fs q = node_at fs0 q)"

text \<open>What the two filters leave: the versions with their times, and the left-overs.\<close>

definition is_partial :: "string \<Rightarrow> bool" where
  "is_partial n = ends_with ''.partial'' n"

definition gc_candidates :: "'c fs \<Rightarrow> path \<Rightarrow> string \<Rightarrow> string list \<Rightarrow> (path \<times> utc) list" where
  "gc_candidates fs dir v names =
     map (\<lambda>n. (dir @ [n], case mtime_at fs (dir @ [n]) of Some u \<Rightarrow> u | None \<Rightarrow> 0))
       (filter (\<lambda>n. n \<noteq> v \<and> \<not> is_partial n) names)"

definition gc_doomed :: "'c fs \<Rightarrow> path \<Rightarrow> string \<Rightarrow> nat \<Rightarrow> string list \<Rightarrow> path list" where
  "gc_doomed fs dir v keep names =
     map fst (drop keep (sort_key (\<lambda>(_, mtime). - mtime) (gc_candidates fs dir v names)))"

subsection \<open>Whatever fails\<close>

definition other_version :: "path \<Rightarrow> string \<Rightarrow> path \<Rightarrow> bool" where
  "other_version r v p = (p \<noteq> [] \<and> butlast p = versions_dir r \<and> last p \<noteq> v)"

lemma under_removed:
  assumes "other_version r v p" and "take (length p) q = p"
  shows "under_other_version r v q"
proof -
  have "p \<noteq> []" "butlast p = versions_dir r" and v: "last p \<noteq> v" using assms(1) by (simp_all add: other_version_def)
  then have p: "p = versions_dir r @ [last p]" using append_butlast_last_id [of p] by simp
  have "q = p @ drop (length p) q" using assms(2) append_take_drop_id [of "length p" q] by simp
  then have "q = versions_dir r @ last p # drop (length p) q" by (subst (asm) p) simp
  then obtain z where "q = versions_dir r @ last p # z" ..
  then show ?thesis using v by (simp add: under_other_version_def)
qed

lemma keep_remove:
  assumes "other_version r v p"
  shows "triple (others_kept r v fs0) (others_kept r v fs0) (sys_remove_dir_all p) (\<lambda>_. others_kept r v fs0) (others_kept r v fs0)"
  unfolding sys_remove_dir_all_def
proof (rule triple_syscall)
  have "p \<noteq> []" using assms by (simp add: other_version_def)
  fix fs :: "'a fs" and t x fs'
  assume fs: "others_kept r v fs0 fs"
    and call: "(case node_at fs p of
        Some DirNode \<Rightarrow> if p = [] then Inl ''Device or resource busy'' else Inr ((), touch t (butlast p) (del_tree p fs))
      | Some (LinkNode _) \<Rightarrow> Inr ((), touch t (butlast p) (del_node p fs))
      | Some (FileNode _ _) \<Rightarrow> Inl ''Not a directory''
      | None \<Rightarrow> Inl ''No such file or directory'') = Inr (x, fs')"
  have "node_at fs' q = node_at fs q" if "\<not> under_other_version r v q" for q
  proof -
    have "take (length p) q \<noteq> p" using under_removed [OF assms] that by blast
    then show ?thesis
      using call \<open>p \<noteq> []\<close> by (auto simp: nodes.node_del node_del_tree split: option.splits node.splits)
  qed
  then show "others_kept r v fs0 fs' \<and> others_kept r v fs0 fs'" using fs by (simp add: others_kept_def)
qed

lemma keep_remove_all:
  "list_all (other_version r v) ps \<Longrightarrow>
     triple (others_kept r v fs0) (others_kept r v fs0) (remove_all ps) (\<lambda>_. others_kept r v fs0) (others_kept r v fs0)"
proof (induction ps)
  case (Cons p ps)
  then show ?case using bind_keep [OF keep_ignore [OF keep_remove]] by fastforce
qed (simp add: keep_pure)

lemma keep_gc_entries:
  "triple (others_kept r v fs0) (others_kept r v fs0) (gc_entries (versions_dir r) v names)
     (\<lambda>es fs. others_kept r v fs0 fs \<and> list_all (other_version r v) (map fst es)) (others_kept r v fs0)"
proof (induction names)
  case Nil
  then show ?case by (simp add: triple_ret)
next
  case (Cons n names)
  have other: "other_version r v (versions_dir r @ [n])" if "n \<noteq> v" using that by (simp add: other_version_def)
  let ?K = "others_kept r v fs0"
  have m: "triple ?K ?K (attempt (sys_mtime p)) (\<lambda>_. ?K) ?K" for p
    by (rule keep_attempt, rule keep_calls) auto
  have rest: "triple ?K ?K (bindIO (gc_entries (versions_dir r) v names) (\<lambda>rest.
        ret (case m of Some u \<Rightarrow> (versions_dir r @ [n], u) # rest | None \<Rightarrow> rest)))
      (\<lambda>es fs. ?K fs \<and> list_all (other_version r v) (map fst es)) ?K" if "n \<noteq> v" for m
    by (rule triple_bind [OF Cons.IH], rule triple_ret) (use other [OF that] in \<open>auto split: option.split\<close>)
  have rm: "triple ?K ?K (ignore (sys_remove_dir_all (versions_dir r @ [n]))) (\<lambda>_. ?K) ?K" if "n \<noteq> v"
    by (rule keep_ignore, rule keep_remove, rule other [OF that])
  show ?case
    using Cons.IH by (simp) (intro conjI impI bind_keep [OF rm] bind_keep [OF m] rest; assumption)
qed

lemma gc_keeps:
  "triple (others_kept r v fs0) (others_kept r v fs0) (gc_versions r v keep) (\<lambda>_. others_kept r v fs0) (others_kept r v fs0)"
proof -
  let ?K = "others_kept r v fs0"
  have doomed: "triple ?K (\<lambda>fs. ?K fs \<and> list_all (other_version r v) (map fst es))
      (remove_all (map fst (drop keep (sort_key (\<lambda>(_, mtime). - mtime) es)))) (\<lambda>_. ?K) ?K" for es
  proof (cases "list_all (other_version r v) (map fst es)")
    case True
    then have "list_all (other_version r v) (map fst (drop keep (sort_key (\<lambda>(_, mtime). - mtime) es)))"
      by (auto simp: list_all_iff dest!: in_set_dropD)
    then show ?thesis by (intro triple_pre [OF _ keep_remove_all]) simp_all
  qed (simp add: triple_def)
  show ?thesis
    unfolding gc_versions_def Let_def
    by (rule bind_keep, rule keep_calls) (auto intro: triple_bind [OF keep_gc_entries doomed])
qed

subsection \<open>When nothing fails\<close>

text \<open>The tree without the entries \<open>X\<close> of a directory; the other entries keep their times.\<close>

definition without :: "path \<Rightarrow> 'c fs \<Rightarrow> string set \<Rightarrow> 'c fs \<Rightarrow> bool" where
  "without dir fs0 X fs =
     ((\<forall>q. node_at fs q = (if \<exists>n\<in>X. take (Suc (length dir)) q = dir @ [n] then None else node_at fs0 q))
      \<and> (\<forall>n. n \<notin> X \<longrightarrow> mtime_at fs (dir @ [n]) = mtime_at fs0 (dir @ [n])))"

lemma mtime_other: "q \<noteq> d \<Longrightarrow> take (length p) q \<noteq> p \<Longrightarrow> mtime_at (touch t d (del_tree p fs)) q = mtime_at fs q"
  by (induction fs) (auto simp: mtime_at_def touch_def del_tree_def)

lemma without_insert:
  assumes "without dir fs0 X fs"
  shows "without dir fs0 (insert n X) (touch t dir (del_tree (dir @ [n]) fs))"
proof -
  have "mtime_at (touch t dir (del_tree (dir @ [n]) fs)) (dir @ [m]) = mtime_at fs (dir @ [m])" if "m \<noteq> n" for m
    by (rule mtime_other) (use that in simp_all)
  then show ?thesis using assms by (auto simp: without_def node_del_tree)
qed

lemma runs_remove:
  assumes "n \<notin> X" and "node_at fs0 (dir @ [n]) = Some DirNode"
  shows "runs (seen (\<lambda>fs _. without dir fs0 X fs)) (sys_remove_dir_all (dir @ [n]))
     (\<lambda>_. seen (\<lambda>fs _. without dir fs0 (insert n X) fs))"
  unfolding sys_remove_dir_all_def
proof (rule runs_syscall)
  fix fs :: "'a fs" and t :: utc
  assume w: "without dir fs0 X fs"
  then have "node_at fs (dir @ [n]) = Some DirNode" using assms by (auto simp: without_def)
  then show "\<exists>x fs'. (case node_at fs (dir @ [n]) of
        Some DirNode \<Rightarrow> if dir @ [n] = [] then Inl ''Device or resource busy''
          else Inr ((), touch t (butlast (dir @ [n])) (del_tree (dir @ [n]) fs))
      | Some (LinkNode _) \<Rightarrow> Inr ((), touch t (butlast (dir @ [n])) (del_node (dir @ [n]) fs))
      | Some (FileNode _ _) \<Rightarrow> Inl ''Not a directory''
      | None \<Rightarrow> Inl ''No such file or directory'') = Inr (x, fs') \<and> without dir fs0 (insert n X) fs'"
    using without_insert [OF w] by simp
qed

lemma runs_mtime:
  assumes "n \<notin> X" and "mtime_at fs0 (dir @ [n]) = Some u"
  shows "runs (seen (\<lambda>fs _. without dir fs0 X fs)) (sys_mtime (dir @ [n]))
     (\<lambda>x. seen (\<lambda>fs _. x = u \<and> without dir fs0 X fs))"
  unfolding sys_mtime_def
  by (rule runs_syscall) (use assms in \<open>auto simp: without_def\<close>)

lemma runs_remove_all:
  "distinct ns \<Longrightarrow> X \<inter> set ns = {} \<Longrightarrow> list_all (\<lambda>n. node_at fs0 (dir @ [n]) = Some DirNode) ns \<Longrightarrow>
     runs (seen (\<lambda>fs _. without dir fs0 X fs)) (remove_all (map (\<lambda>n. dir @ [n]) ns))
       (\<lambda>_. seen (\<lambda>fs _. without dir fs0 (X \<union> set ns) fs))"
proof (induction ns arbitrary: X)
  case Nil
  then show ?case by (simp add: runs_pure)
next
  case (Cons n ns)
  have "runs (seen (\<lambda>fs _. without dir fs0 (insert n X) fs)) (remove_all (map (\<lambda>n. dir @ [n]) ns))
      (\<lambda>_. seen (\<lambda>fs _. without dir fs0 (insert n X \<union> set ns) fs))"
    by (rule Cons.IH) (use Cons.prems in auto)
  moreover have "runs (seen (\<lambda>fs _. without dir fs0 X fs)) (ignore (sys_remove_dir_all (dir @ [n])))
      (\<lambda>_. seen (\<lambda>fs _. without dir fs0 (insert n X) fs))"
    by (rule runs_ignore [OF runs_remove]) (use Cons.prems in auto)
  ultimately show ?case using runs_bind by fastforce
qed

definition left_overs :: "string \<Rightarrow> string list \<Rightarrow> string set" where
  "left_overs v names = {n \<in> set names. n \<noteq> v \<and> is_partial n}"

lemma mtime_of_node: "p \<noteq> [] \<Longrightarrow> node_at fs p = Some x \<Longrightarrow> \<exists>u. mtime_at fs p = Some u"
  by (auto simp: node_at_def mtime_at_def)

lemma runs_gc_entries:
  "distinct names \<Longrightarrow> X \<inter> set names = {} \<Longrightarrow> list_all (\<lambda>n. node_at fs0 (dir @ [n]) = Some DirNode) names \<Longrightarrow>
     runs (seen (\<lambda>fs _. without dir fs0 X fs)) (gc_entries dir v names)
       (\<lambda>es. seen (\<lambda>fs _. es = gc_candidates fs0 dir v names \<and> without dir fs0 (X \<union> left_overs v names) fs))"
proof (induction names arbitrary: X)
  case Nil
  then show ?case by (simp add: runs_pure gc_candidates_def left_overs_def)
next
  case (Cons n names)
  note IH = Cons.IH [of X] and IH' = Cons.IH [of "insert n X"]
  consider "n = v" | "n \<noteq> v" "is_partial n" | "n \<noteq> v" "\<not> is_partial n" by blast
  then show ?case
  proof cases
    case 1
    then have "left_overs v (n # names) = left_overs v names" by (auto simp: left_overs_def)
    then show ?thesis using IH Cons.prems 1 by (simp add: gc_candidates_def)
  next
    case 2
    have "runs (seen (\<lambda>fs _. without dir fs0 X fs)) (ignore (sys_remove_dir_all (dir @ [n])))
        (\<lambda>_. seen (\<lambda>fs _. without dir fs0 (insert n X) fs))"
      by (rule runs_ignore [OF runs_remove]) (use Cons.prems in auto)
    moreover have "insert n X \<union> left_overs v names = X \<union> left_overs v (n # names)"
      using 2 by (auto simp: left_overs_def)
    moreover have "gc_candidates fs0 dir v (n # names) = gc_candidates fs0 dir v names"
      using 2 by (simp add: gc_candidates_def)
    ultimately show ?thesis
      using runs_bind IH' Cons.prems 2 by (fastforce simp: is_partial_def)
  next
    case 3
    obtain u where u: "mtime_at fs0 (dir @ [n]) = Some u"
      using mtime_of_node [of "dir @ [n]" fs0] Cons.prems by auto
    have eq: "gc_candidates fs0 dir v (n # names) = (dir @ [n], u) # gc_candidates fs0 dir v names"
      "left_overs v (n # names) = left_overs v names"
      using 3 u by (auto simp: gc_candidates_def left_overs_def)
    have m: "runs (seen (\<lambda>fs _. without dir fs0 X fs)) (attempt (sys_mtime (dir @ [n])))
        (\<lambda>x. seen (\<lambda>fs _. x = Some u \<and> without dir fs0 X fs))"
      by (rule runs_attempt [OF runs_mtime [OF _ u]]) (use Cons.prems in \<open>auto simp: seen_def\<close>)
    have rest: "runs (seen (\<lambda>fs _. x = Some u \<and> without dir fs0 X fs))
        (bindIO (gc_entries dir v names) (\<lambda>rest.
           ret (case x of Some u \<Rightarrow> (dir @ [n], u) # rest | None \<Rightarrow> rest)))
        (\<lambda>es. seen (\<lambda>fs _. es = gc_candidates fs0 dir v (n # names)
           \<and> without dir fs0 (X \<union> left_overs v (n # names)) fs))" for x
    proof (cases "x = Some u")
      case True
      have "runs (seen (\<lambda>fs _. without dir fs0 X fs)) (gc_entries dir v names)
          (\<lambda>es. seen (\<lambda>fs _. es = gc_candidates fs0 dir v names \<and> without dir fs0 (X \<union> left_overs v names) fs))"
        by (rule IH) (use Cons.prems in auto)
      then show ?thesis
        by (simp add: True) (rule runs_bind, assumption, rule runs_pure, simp add: eq seen_def)
    qed (simp add: runs_def seen_def)
    show ?thesis using runs_bind [OF m rest] 3 by (simp add: is_partial_def)
  qed
qed

lemma distinct_children:
  assumes "distinct (map fst fs)"
  shows "distinct (children fs p)"
proof -
  have "inj_on last {q. q \<noteq> [] \<and> butlast q = p}"
    by (rule inj_onI) (metis (mono_tags, lifting) append_butlast_last_id mem_Collect_eq)
  then have "inj_on last (set (filter (\<lambda>q. q \<noteq> [] \<and> butlast q = p) (map fst fs)))"
    by (rule inj_on_subset) auto
  then show ?thesis using assms by (simp only: children_def distinct_map distinct_filter simp_thms)
qed

text \<open>The doomed versions are named, each once, and none is a left-over.\<close>

lemma doomed_names:
  assumes "distinct names"
  obtains ns where "gc_doomed fs dir v keep names = map (\<lambda>n. dir @ [n]) ns" "distinct ns"
    "set ns \<subseteq> set names - left_overs v names - {v}"
proof -
  let ?es = "drop keep (sort_key (\<lambda>(_, mtime). - mtime) (gc_candidates fs dir v names))"
  let ?ns = "map (last \<circ> fst) ?es"
  have in_c: "set ?es \<subseteq> set (gc_candidates fs dir v names)" by (auto dest: in_set_dropD)
  then have fst_c: "fst e = dir @ [last (fst e)]" "last (fst e) \<in> set names - left_overs v names - {v}" if "e \<in> set ?es" for e
    using that by (auto simp: gc_candidates_def left_overs_def)
  have "distinct (map (last \<circ> fst) (gc_candidates fs dir v names))"
    using assms by (simp add: gc_candidates_def comp_def)
  then have "distinct (map (last \<circ> fst) (sort_key (\<lambda>(_, mtime). - mtime) (gc_candidates fs dir v names)))"
    by (simp add: distinct_map)
  then have "distinct ?ns" by (metis distinct_drop drop_map)
  moreover have "gc_doomed fs dir v keep names = map (\<lambda>n. dir @ [n]) ?ns"
    unfolding gc_doomed_def map_map comp_def by (rule map_cong [OF refl]) (rule fst_c(1))
  moreover have "set ?ns \<subseteq> set names - left_overs v names - {v}" using fst_c(2) by fastforce
  ultimately show thesis by (intro that)
qed

lemma runs_gc:
  fixes fs0 :: "'c fs" and r :: path
  defines "dir \<equiv> versions_dir r"
  assumes "distinct (map fst fs0)" and "node_at fs0 dir = Some DirNode"
    and "list_all (\<lambda>n. node_at fs0 (dir @ [n]) = Some DirNode) (children fs0 dir)"
    and "gc_doomed fs0 dir v keep (children fs0 dir) = map (\<lambda>n. dir @ [n]) ns" and "distinct ns"
    and "set ns \<subseteq> set (children fs0 dir) - left_overs v (children fs0 dir) - {v}"
  shows "runs (seen (\<lambda>fs _. fs = fs0)) (gc_versions r v keep)
     (\<lambda>_. seen (\<lambda>fs _. without dir fs0 (left_overs v (children fs0 dir) \<union> set ns) fs))"
proof -
  let ?names = "children fs0 dir"
  have dir: "runs (seen (\<lambda>fs _. fs = fs0)) (sys_read_dir dir)
      (\<lambda>x. seen (\<lambda>fs _. x = ?names \<and> without dir fs0 {} fs))"
    unfolding sys_read_dir_def
    by (rule runs_syscall) (use followed_dir [OF assms(3)] in \<open>simp add: without_def\<close>)
  have entries: "runs (seen (\<lambda>fs _. x = ?names \<and> without dir fs0 {} fs)) (gc_entries dir v x)
      (\<lambda>es. seen (\<lambda>fs _. es = gc_candidates fs0 dir v ?names \<and> without dir fs0 (left_overs v ?names) fs))" for x
  proof (cases "x = ?names")
    case True
    then show ?thesis
      using runs_gc_entries [of ?names "{}" fs0 dir v] distinct_children [OF assms(2)] assms(4) by simp
  qed (simp add: runs_def seen_def)
  have remove: "runs (seen (\<lambda>fs _. es = gc_candidates fs0 dir v ?names \<and> without dir fs0 (left_overs v ?names) fs))
      (remove_all (map fst (drop keep (sort_key (\<lambda>(_, mtime). - mtime) es))))
      (\<lambda>_. seen (\<lambda>fs _. without dir fs0 (left_overs v ?names \<union> set ns) fs))" for es
  proof (cases "es = gc_candidates fs0 dir v ?names")
    case True
    have "runs (seen (\<lambda>fs _. without dir fs0 (left_overs v ?names) fs)) (remove_all (map (\<lambda>n. dir @ [n]) ns))
        (\<lambda>_. seen (\<lambda>fs _. without dir fs0 (left_overs v ?names \<union> set ns) fs))"
      by (rule runs_remove_all) (use assms(4,6,7) in \<open>auto simp: list_all_iff\<close>)
    then show ?thesis using assms(5) True by (simp add: gc_doomed_def)
  qed (simp add: runs_def seen_def)
  show ?thesis
    unfolding gc_versions_def Let_def dir_def [symmetric]
    by (rule runs_bind [OF dir runs_bind [OF entries remove]])
qed

subsection \<open>Properties\<close>

text \<open>C24: the clean-up never touches the current version, and keeps exactly the newest others. Whatever system
  calls fail and wherever the process is killed, everything outside the other versions is as before after
  every call, the current version and both links included. When none fails, in a tree whose versions are
  directories, an entry is gone afterwards exactly when it is a left-over of an extraction or another version
  beyond the newest \<open>keep\<close> by modification time, and then wherever \<open>previous\<close> points: the version a
  rollback needs can go (the witness has it go).\<close>

theorem clean_up_keeps_current_and_newest:
  assumes "gc_versions r v keep w = (res, w')"
  shows "(\<exists>ts. w_trail w' = w_trail w @ ts \<and> list_all (others_kept r v (w_fs w)) ts)
    \<and> others_kept r v (w_fs w) (w_fs w')
    \<and> (calm w \<and> distinct (map fst (w_fs w)) \<and> node_at (w_fs w) (versions_dir r) = Some DirNode
       \<and> list_all (\<lambda>n. node_at (w_fs w) (versions_dir r @ [n]) = Some DirNode) (children (w_fs w) (versions_dir r))
       \<longrightarrow> res = Inr () \<and> list_all (\<lambda>n. node_at (w_fs w') (versions_dir r @ [n]) =
             (if n \<noteq> v \<and> is_partial n
                 \<or> versions_dir r @ [n] \<in> set (gc_doomed (w_fs w) (versions_dir r) v keep (children (w_fs w) (versions_dir r)))
              then None else Some DirNode)) (children (w_fs w) (versions_dir r)))"
proof -
  let ?fs = "w_fs w" and ?dir = "versions_dir r"
  let ?names = "children ?fs ?dir"
  have "others_kept r v ?fs ?fs" by (simp add: others_kept_def)
  note keep = tripleD [OF gc_keeps this, of keep]
  have "others_kept r v ?fs (w_fs w')" using keep(2,3) assms by (cases res) auto
  moreover have "\<exists>ts. w_trail w' = w_trail w @ ts \<and> list_all (others_kept r v ?fs) ts" using keep(1) assms by simp
  moreover have "res = Inr () \<and> list_all (\<lambda>n. node_at (w_fs w') (?dir @ [n]) =
      (if n \<noteq> v \<and> is_partial n \<or> ?dir @ [n] \<in> set (gc_doomed ?fs ?dir v keep ?names)
       then None else Some DirNode)) ?names"
    if c: "calm w" and d: "distinct (map fst ?fs)" and n: "node_at ?fs ?dir = Some DirNode"
      and l: "list_all (\<lambda>n. node_at ?fs (?dir @ [n]) = Some DirNode) ?names"
  proof -
    obtain ns where ns: "gc_doomed ?fs ?dir v keep ?names = map (\<lambda>n. ?dir @ [n]) ns" "distinct ns"
      "set ns \<subseteq> set ?names - left_overs v ?names - {v}" by (rule doomed_names [OF distinct_children [OF d]])
    have "res = Inr () \<and> without ?dir ?fs (left_overs v ?names \<union> set ns) (w_fs w')"
      using runsD [OF runs_gc [OF d n l ns] c] assms by (simp add: seen_def)
    then show ?thesis using l ns(1) by (auto simp: list_all_iff without_def left_overs_def)
  qed
  ultimately show ?thesis by blast
qed

text \<open>Five versions, the fifth current; \<open>previous\<close> links to the first, the oldest.\<close>

definition five_versions :: "unit fs" where
  "five_versions = [([''r''], 0, DirNode), ([''r'', ''versions''], 0, DirNode),
     ([''r'', ''versions'', ''1''], 1, DirNode), ([''r'', ''versions'', ''2''], 2, DirNode),
     ([''r'', ''versions'', ''3''], 3, DirNode), ([''r'', ''versions'', ''4''], 4, DirNode),
     ([''r'', ''versions'', ''5''], 5, DirNode), ([''r'', ''previous''], 0, LinkNode [''r'', ''versions'', ''1''])]"

theorem clean_up_keeps_current_and_newest_witness:
  "let fs = w_fs (snd (gc_versions [''r''] ''5'' 3 (calm_world five_versions))) in
   node_at fs [''r'', ''versions'', ''5''] = Some DirNode \<and> node_at fs [''r'', ''versions'', ''2''] = Some DirNode
   \<and> node_at fs [''r'', ''previous''] = Some (LinkNode [''r'', ''versions'', ''1''])
   \<and> node_at fs [''r'', ''versions'', ''1''] = None"
proof -
  let ?w = "calm_world five_versions" and ?fs = "w_fs (snd (gc_versions [''r''] ''5'' 3 (calm_world five_versions)))"
  have dir: "versions_dir [''r''] = [''r'', ''versions'']" by (simp add: versions_dir_def)
  have names: "children five_versions [''r'', ''versions''] = [''1'', ''2'', ''3'', ''4'', ''5'']"
    by (simp add: children_def five_versions_def)
  have doomed: "gc_doomed five_versions [''r'', ''versions''] ''5'' 3 [''1'', ''2'', ''3'', ''4'', ''5'']
      = [[''r'', ''versions'', ''1'']]"
    by (simp add: gc_doomed_def gc_candidates_def is_partial_def ends_with_def strip_suffix_def mtime_at_def
        five_versions_def sort_key_def)
  have nodes: "node_at five_versions [''r'', ''versions''] = Some DirNode" "distinct (map fst five_versions)"
    "list_all (\<lambda>n. node_at five_versions ([''r'', ''versions''] @ [n]) = Some DirNode) [''1'', ''2'', ''3'', ''4'', ''5'']"
    "node_at five_versions [''r'', ''previous''] = Some (LinkNode [''r'', ''versions'', ''1''])"
    by (simp_all add: node_at_def five_versions_def)
  have w: "w_fs ?w = five_versions" "calm ?w" by (simp_all add: calm_world_def calm_def)
  note gc = clean_up_keeps_current_and_newest [of "[''r'']" "''5''" 3 ?w, OF surjective_pairing, unfolded w(1) dir names doomed]
  have "others_kept [''r''] ''5'' five_versions ?fs" using gc by blast
  then have "node_at ?fs [''r'', ''previous''] = Some (LinkNode [''r'', ''versions'', ''1''])"
    using nodes(4) by (simp add: others_kept_def under_other_version_def dir)
  moreover have "list_all (\<lambda>n. node_at ?fs ([''r'', ''versions''] @ [n]) =
      (if n \<noteq> ''5'' \<and> is_partial n \<or> [''r'', ''versions''] @ [n] \<in> set [[''r'', ''versions'', ''1'']]
       then None else Some DirNode)) [''1'', ''2'', ''3'', ''4'', ''5'']"
    using gc w(2) nodes(1-3) by blast
  ultimately show ?thesis by (simp add: is_partial_def ends_with_def strip_suffix_def)
qed

end
