(* ===== verification/Wizards.thy ===== *)
theory Wizards
  imports Envelope Serde
begin

section \<open>Wizard registration (src/wizards.rs)\<close>

text \<open>
  The wizard descriptors and action plans a vendor hands over, the JSON they are written as, and the trait's
  empty handler. The types derive their serialisation; the attributes in the source fix its shape, and that
  shape is written out with the pieces of \<open>Serde\<close>: members in snake case, absent options left out, a field's
  kind tagged by \<open>kind\<close> and flattened into the field.
\<close>

subsection \<open>Data\<close>

record plan_step =
  ps_node_id :: string
  ps_description :: string
  ps_action :: json
  ps_rollback :: "json option"
  ps_created_entity_id :: "string option"

record wizard_select_option =
  wo_value :: string
  wo_label :: string

datatype wizard_field_kind =
    Text "u64 option" "string option"
  | Multiline "u64 option" "string option"
  | Secret "u64 option" "string option"
  | Integer i64 i64 "i64 option"
  | Bool bool
  | Select "wizard_select_option list" "string option"
  | Node "string list"
  | Port
  | Address "string option"

record wizard_field =
  wf_id :: string
  wf_label :: string
  wf_help :: "string option"
  wf_required :: bool
  wf_kind :: wizard_field_kind

record wizard_descriptor =
  wd_id :: string
  wd_display_label :: string
  wd_category :: string
  wd_description :: string
  wd_fields :: "wizard_field list"
  wd_min_role :: string
  wd_multi_node :: bool
  wd_applicable_device_types :: "string list"

datatype wizard_error =
    UnknownWizard
  | InvalidParam "string option" string
  | Validation string string

text \<open>The trait, and the handler that registers no wizards.\<close>

record wizard_handler =
  wh_wizards :: "wizard_descriptor list"
  wh_build_wizard_plan :: "string \<Rightarrow> json \<Rightarrow> wizard_error + plan_step list"

definition no_wizards :: wizard_handler where
  "no_wizards = \<lparr>wh_wizards = [], wh_build_wizard_plan = (\<lambda>_ _. Inl UnknownWizard)\<rparr>"

subsection \<open>Writing\<close>

definition select_option_json :: "wizard_select_option \<Rightarrow> json" where
  "select_option_json x = json_obj [(''value'', JStr (wo_value x)), (''label'', JStr (wo_label x))]"

fun kind_members :: "wizard_field_kind \<Rightarrow> (string \<times> json) list" where
  "kind_members (Text m p) =
     (''kind'', JStr ''text'') # skip_none ''max_len'' of_usize m @ skip_none ''placeholder'' JStr p"
| "kind_members (Multiline m p) =
     (''kind'', JStr ''multiline'') # skip_none ''max_len'' of_usize m @ skip_none ''placeholder'' JStr p"
| "kind_members (Secret m p) =
     (''kind'', JStr ''secret'') # skip_none ''max_len'' of_usize m @ skip_none ''placeholder'' JStr p"
| "kind_members (Integer a b d) =
     [(''kind'', JStr ''integer''), (''min'', of_i64 a), (''max'', of_i64 b)] @ skip_none ''default'' of_i64 d"
| "kind_members (Bool d) = [(''kind'', JStr ''bool''), (''default'', JBool d)]"
| "kind_members (Select os d) =
     [(''kind'', JStr ''select''), (''options'', JArr (map select_option_json os))] @ skip_none ''default'' JStr d"
| "kind_members (Node ts) = [(''kind'', JStr ''node''), (''applicable_device_types'', JArr (map JStr ts))]"
| "kind_members Port = [(''kind'', JStr ''port'')]"
| "kind_members (Address p) = (''kind'', JStr ''address'') # skip_none ''placeholder'' JStr p"

definition field_json :: "wizard_field \<Rightarrow> json" where
  "field_json f = json_obj ([(''id'', JStr (wf_id f)), (''label'', JStr (wf_label f))]
     @ skip_none ''help'' JStr (wf_help f) @ (''required'', JBool (wf_required f)) # kind_members (wf_kind f))"

definition descriptor_json :: "wizard_descriptor \<Rightarrow> json" where
  "descriptor_json d = json_obj
     [(''id'', JStr (wd_id d)), (''display_label'', JStr (wd_display_label d)),
      (''category'', JStr (wd_category d)), (''description'', JStr (wd_description d)),
      (''fields'', JArr (map field_json (wd_fields d))), (''min_role'', JStr (wd_min_role d)),
      (''multi_node'', JBool (wd_multi_node d)),
      (''applicable_device_types'', JArr (map JStr (wd_applicable_device_types d)))]"

definition plan_step_json :: "plan_step \<Rightarrow> json" where
  "plan_step_json s = json_obj ([(''node_id'', JStr (ps_node_id s)), (''description'', JStr (ps_description s)),
     (''action'', ps_action s)] @ skip_none ''rollback'' id (ps_rollback s)
     @ skip_none ''created_entity_id'' JStr (ps_created_entity_id s))"

subsection \<open>Reading\<close>

definition read_select_option :: "json \<Rightarrow> wizard_select_option option" where
  "read_select_option v = do {
     a \<leftarrow> member as_str v ''value''; b \<leftarrow> member as_str v ''label'';
     Some \<lparr>wo_value = a, wo_label = b\<rparr> }"

text \<open>The three kinds of text share their members.\<close>

definition read_text :: "(u64 option \<Rightarrow> string option \<Rightarrow> wizard_field_kind) \<Rightarrow> json \<Rightarrow> wizard_field_kind option" where
  "read_text c v = do {
     m \<leftarrow> member_opt as_usize v ''max_len''; p \<leftarrow> member_opt as_str v ''placeholder''; Some (c m p) }"

definition read_kind :: "json \<Rightarrow> wizard_field_kind option" where
  "read_kind v = do {
     t \<leftarrow> member as_str v ''kind'';
     if t = ''text'' then read_text Text v
     else if t = ''multiline'' then read_text Multiline v
     else if t = ''secret'' then read_text Secret v
     else if t = ''integer'' then do {
       a \<leftarrow> member as_i64 v ''min''; b \<leftarrow> member as_i64 v ''max''; d \<leftarrow> member_opt as_i64 v ''default'';
       Some (Integer a b d) }
     else if t = ''bool'' then do { d \<leftarrow> member as_bool v ''default''; Some (Bool d) }
     else if t = ''select'' then do {
       os \<leftarrow> member (as_list read_select_option) v ''options''; d \<leftarrow> member_opt as_str v ''default'';
       Some (Select os d) }
     else if t = ''node'' then do {
       ts \<leftarrow> member_or [] (as_list as_str) v ''applicable_device_types''; Some (Node ts) }
     else if t = ''port'' then Some Port
     else if t = ''address'' then do { p \<leftarrow> member_opt as_str v ''placeholder''; Some (Address p) }
     else None }"

definition read_field :: "json \<Rightarrow> wizard_field option" where
  "read_field v = do {
     i \<leftarrow> member as_str v ''id''; l \<leftarrow> member as_str v ''label''; h \<leftarrow> member_opt as_str v ''help'';
     r \<leftarrow> member as_bool v ''required''; k \<leftarrow> read_kind v;
     Some \<lparr>wf_id = i, wf_label = l, wf_help = h, wf_required = r, wf_kind = k\<rparr> }"

definition read_descriptor :: "json \<Rightarrow> wizard_descriptor option" where
  "read_descriptor v = do {
     i \<leftarrow> member as_str v ''id''; l \<leftarrow> member as_str v ''display_label''; c \<leftarrow> member as_str v ''category'';
     d \<leftarrow> member as_str v ''description''; fs \<leftarrow> member (as_list read_field) v ''fields'';
     r \<leftarrow> member as_str v ''min_role''; m \<leftarrow> member_or False as_bool v ''multi_node'';
     ts \<leftarrow> member_or [] (as_list as_str) v ''applicable_device_types'';
     Some \<lparr>wd_id = i, wd_display_label = l, wd_category = c, wd_description = d, wd_fields = fs,
       wd_min_role = r, wd_multi_node = m, wd_applicable_device_types = ts\<rparr> }"

definition read_plan_step :: "json \<Rightarrow> plan_step option" where
  "read_plan_step v = do {
     n \<leftarrow> member as_str v ''node_id''; d \<leftarrow> member as_str v ''description''; a \<leftarrow> member Some v ''action'';
     r \<leftarrow> member_opt Some v ''rollback''; e \<leftarrow> member_opt as_str v ''created_entity_id'';
     Some \<lparr>ps_node_id = n, ps_description = d, ps_action = a, ps_rollback = r, ps_created_entity_id = e\<rparr> }"

subsection \<open>What is read back\<close>

lemma select_option_read [simp]: "read_select_option (select_option_json x) = Some x"
  by (simp add: read_select_option_def select_option_json_def member_def)

lemma select_options_read [simp]: "those (map (read_select_option \<circ> select_option_json) xs) = Some xs"
  using those_map [of xs read_select_option select_option_json] by simp

lemma text_members [simp]:
  "map_of (skip_none ''max_len'' of_usize m @ skip_none ''placeholder'' JStr p) k =
     (if k = ''max_len'' then map_option of_usize m else if k = ''placeholder'' then map_option JStr p else None)"
  by (cases m) (simp_all add: skip_none_def split: option.split)

text \<open>The members of a kind are read from any object that has them, whatever else it has.\<close>

lemma kind_read:
  assumes "\<And>k. k \<notin> {''id'', ''label'', ''help'', ''required''} \<Longrightarrow> jget v k = map_of (kind_members kd) k"
  shows "read_kind v = Some kd"
proof -
  have get: "jget v ''kind'' = map_of (kind_members kd) ''kind''" "jget v ''max_len'' = map_of (kind_members kd) ''max_len''"
    "jget v ''placeholder'' = map_of (kind_members kd) ''placeholder''" "jget v ''min'' = map_of (kind_members kd) ''min''"
    "jget v ''max'' = map_of (kind_members kd) ''max''" "jget v ''default'' = map_of (kind_members kd) ''default''"
    "jget v ''options'' = map_of (kind_members kd) ''options''"
    "jget v ''applicable_device_types'' = map_of (kind_members kd) ''applicable_device_types''"
    by (rule assms, simp)+
  show ?thesis
    by (cases kd)
      (simp_all add: read_kind_def read_text_def member_def member_or_def get options_read del: map_of_append)
qed

lemma no_help: "map_of (kind_members kd) ''help'' = None"
  by (cases kd) (simp_all add: map_add_def split: option.split)

lemma field_read [simp]: "read_field (field_json f) = Some f"
proof -
  have "read_kind (field_json f) = Some (wf_kind f)"
    by (rule kind_read) (simp add: field_json_def map_add_def split: option.split)
  moreover have "member_opt as_str (field_json f) ''help'' = Some (wf_help f)"
    by (rule str_read) (simp add: field_json_def map_add_def no_help split: option.split)
  ultimately show ?thesis
    by (simp add: read_field_def) (simp add: field_json_def member_def map_add_def split: option.split)
qed

lemma fields_read [simp]: "those (map (read_field \<circ> field_json) fs) = Some fs"
  using those_map [of fs read_field field_json] by simp

lemma descriptor_read: "read_descriptor (descriptor_json d) = Some d"
  by (simp add: read_descriptor_def) (simp add: descriptor_json_def member_def member_or_def)

lemma plan_step_read: "read_plan_step (plan_step_json s) =
    Some (s\<lparr>ps_rollback := if ps_rollback s = Some JNull then None else ps_rollback s\<rparr>)"
proof -
  have "is_null j \<longleftrightarrow> j = JNull" for j by (cases j) simp_all
  then show ?thesis
    by (simp add: read_plan_step_def plan_step_json_def member_def member_opt_def skip_none_def split: option.split)
qed

subsection \<open>The shape of the wire format\<close>
























text \<open>Neither frame that opens a session has a place for the descriptors.\<close>

lemma registration_carries_no_wizards:
  "jget (auth_register_payload token version device) ''wizards'' = None"
  "jget (auth_reconnect_payload node secret version device) ''wizards'' = None"
  by (simp_all add: auth_register_payload_def auth_reconnect_payload_def)

subsection \<open>Properties\<close>


text \<open>C37: wizard descriptors survive the wire: what is written for a descriptor reads back as that descriptor,
  although the members of a field's kind share one object with the field's own. A plan step reads back as
  itself too, but for a rollback that is a JSON null, which comes back as no rollback.\<close>

theorem wizards_survive_the_wire:
  "read_descriptor (descriptor_json d) = Some d
    \<and> read_plan_step (plan_step_json s) =
        Some (s\<lparr>ps_rollback := if ps_rollback s = Some JNull then None else ps_rollback s\<rparr>)"
  by (simp add: descriptor_read plan_step_read)

end
