(* ===== verification/Spec2Isabelle.thy ===== *)
theory Spec2Isabelle
  imports Client ErrorCodes Interleaved Link ReleaseJson SessionTests ShutdownOrder UpgradeTests VersionGc Wizards
begin

text \<open>
  \<^bold>\<open>The gateway SDK, verified.\<close> The repository is a Rust library that a device gateway (a sidecar of some
  vendor equipment) uses to stay connected to its manager over a WebSocket, to run the manager's commands
  through the vendor's handler, and to upgrade its own binary from signed releases. This is the root theory:
  it imports every other one and documents the development.

  \<^bold>\<open>The program and its model.\<close>

  \<^item> \<^bold>\<open>Shared ground.\<close> \<open>Prelude\<close>: results as sums with their bind (\<open>bindR\<close>, the code's question mark), strings,
    hexadecimal, UTF-8 lengths, durations in nanoseconds, the saturating counter; the collections
    \<open>result_simps\<close> and \<open>str_simps\<close>. \<open>Externals\<close>: JSON values, URLs and environment variables, the values that
    third-party code hands the program. \<open>Channel\<close>: tokio's bounded channel and semaphore, with the locale
    \<open>bounded_fifo\<close>. \<open>StepSystem\<close>: reachability, and the locales \<open>step_invariant\<close>, \<open>decreasing_steps\<close> and
    \<open>step_refinement\<close>. \<open>Serde\<close>: the pieces serde's derived writers and readers of structs are made of.

  \<^item> \<^bold>\<open>Data and wire.\<close> \<open>Errors\<close> (src/errors.rs), \<open>GwConfig\<close> (src/config.rs), \<open>Envelope\<close> (src/envelope.rs and
    the test of src/dispatch.rs), \<open>Auth\<close> (replies, src/auth.rs), \<open>Events\<close> (src/events.rs), \<open>Emit\<close>
    (src/emit.rs), \<open>Wizards\<close> (src/wizards.rs). Error values carry one constructor per message of the source.
    \<open>Serialised\<close>: the JSON forms of the configuration, the credential file and \<open>state.json\<close>.

  \<^item> \<^bold>\<open>The manager link\<close> (src/ws_client.rs, src/tls.rs). \<open>GwTls\<close>: which verifier a configuration selects,
    what a pinned verifier accepts and which signature schemes each offers. \<open>Dial\<close>: address order, the staggered connection race as a step relation
    \<open>race_step\<close>, the staged dial. \<open>Cadence\<close>: \<open>InboundCadence\<close>, which learns the manager's ping interval and
    judges silence. \<open>Commands\<close>: the command workers of all sessions (\<open>run_commands\<close>, \<open>finish_command\<close>,
    \<open>run_command\<close>) as a \<open>pool\<close> that shares one command turn, with the step relation \<open>pool_step\<close>;
    \<open>SerialServer\<close>: the abstract server it implements; \<open>ShutdownOrder\<close>: what it still does once every session
    is over. \<open>Session\<close>:
    the reader (\<open>read_manager\<close>) as a state machine \<open>reader_step\<close>, the loop (\<open>drive_session\<close>,
    \<open>route_inbound\<close>, \<open>send_bounded\<close>) as a function of what its turns pick, and \<open>run_session\<close>, which races the
    two against shutdown. \<open>Link\<close>: reader, loop and workers over all sessions as one step system. \<open>Client\<close>: \<open>GatewayClient\<close> with its credentials and link state, \<open>one_connection\<close>
    from the dial to the end of the session, and the reconnect loop \<open>run\<close>. \<open>CredentialFile\<close>: the
    persisted credentials of src/auth.rs.

  \<^item> \<^bold>\<open>Self-upgrade\<close> (src/upgrade). \<open>UpgradeErrors\<close>: messages and contexts of \<open>anyhow\<close> errors. \<open>Manifest\<close>
    (manifest.rs and the policy of mod.rs), \<open>Download\<close> (download.rs), \<open>Verify\<close> (verify.rs, trust.rs) with
    \<open>Utf8\<close>. \<open>Fs\<close>: the part of the file system the upgrade uses, one function per system call, in a world
    that may fail any call and records the tree after each; \<open>FsLogic\<close>: a program logic over it.
    \<open>InstallState\<close> (state.rs), \<open>Apply\<close> (apply.rs) with \<open>VersionGc\<close> (what its clean-up removes), \<open>Watchdog\<close>
    (watchdog.rs), \<open>Upgrade\<close> (the coordinator of mod.rs), \<open>UpgradeSafety\<close> (its properties and a sample release
    to try them on), \<open>ErrorCodes\<close> (its \<open>error_codes\<close> against the codes it returns), \<open>SequenceGuard\<close> (the stored
    sequence over the life of the watchdog), \<open>UpgradeHistory\<close> (over a whole history of stagings and watchdog
    calls), \<open>Interleaved\<close> (a staging between the two halves of a watchdog's read and write) and \<open>ReleaseJson\<close>
    (the JSON forms of manifests and of the upgrade policy).

  \<^item> \<^bold>\<open>Unit tests.\<close> \<open>LinkTests\<close>, \<open>SessionTests\<close> and \<open>UpgradeTests\<close> replay the repository's own unit tests on the
    model, those that need no network, no certificate file and no TLS library: inputs and checks are the tests',
    and a lemma says that the model passes.

  \<^bold>\<open>How the parts meet.\<close> \<open>run_loop\<close> calls \<open>one_connection\<close>, which uses \<open>build_tls_config\<close>, \<open>dial_manager\<close>, the
  auth frames of \<open>Envelope\<close>, \<open>parse_auth_response\<close> and \<open>run_session\<close>. The session's loop takes what the
  reader handed over and puts commands into the queue of the worker of its session (\<open>queue_command\<close>), whose
  workers are the \<open>pool\<close>; their acks travel on the outbound channel of \<open>Emit\<close>, which the session's loop
  writes out. \<open>Link\<close> composes reader, loop and pool: its steps are the reader's and the pool's, and a command
  enters the pool only through a text the reader handed over and \<open>route_inbound\<close> took for a command. \<open>stage\<close> chains \<open>Manifest\<close>, \<open>Download\<close>, \<open>Verify\<close>, \<open>InstallState\<close> and \<open>Apply\<close>; the watchdog
  works on the state and links they leave, and a later \<open>stage\<close> on the sequence the watchdog left.

  \<^bold>\<open>Interfaces.\<close> \<open>bounded_fifo\<close> (interpreted by the channel as \<open>mpsc\<close>), \<open>step_invariant\<close> (by the pool of workers
  as \<open>pools\<close> and by the reader as \<open>readers\<close>) and its extensions \<open>decreasing_steps\<close> (by the connection race as
  \<open>race\<close> and by the workers at shutdown as \<open>closing\<close>) and \<open>step_refinement\<close>, a simulation (by the pool and the
  serial server as \<open>serial\<close>, by the link and the pool as \<open>linked\<close>), \<open>node_store\<close> (by the file tree as \<open>nodes\<close>), \<open>state_store\<close> (by \<open>state.json\<close> as \<open>state_json\<close>): the
  clients' lemmas are proved once from the laws and used through the interpretations.

  \<^bold>\<open>What the lemmas show.\<close>
  \<^item> Upgrades: a version is staged only through every gate; the signature check accepts exactly the bundles that
    carry all the evidence (a declarative specification, \<open>bundle_authentic\<close>); refusals leave the disk alone;
    \<open>state.json\<close> and the \<open>current\<close> link are atomic under a crash after any system call with any calls failing;
    a boot does exactly what the stored status and count ask for (\<open>boot_contract\<close>: how it ends, the state stored,
    the link, the events), and, when calls fail, one that does not end in an error still ends that way unless the
    state could not be read; too many boots roll back, and an upgrade completes only after the window and a beat;
    the clean-up keeps the current and the newest versions; over any history of stagings, boots, beats and ticks
    the installed sequences strictly increase, with any calls failing and a
    crash anywhere, as long as each staging can read the state; a beat that is under way during a staging
    undoes it, since nothing locks the state between the two; every refusal carries a known code.
  \<^item> The link: the race ends and reports truthfully; delays and URLs follow the documented schedule; every
    connection authenticates with the newest credentials; the link flag is up exactly in a session; the reader
    loses and reorders nothing and stays within its bounds; a command is queued or refused at once, commands
    run one at a time over all sessions in the order they were accepted, each that ends is acked once while the
    outbound channel is open, and nothing but a running command keeps a queued one waiting; the workers of all
    sessions implement one serial server; the commands that start are those the manager sent, in the order it sent them, over all sessions;
    at shutdown nothing more starts, the outbound channel is closed, the running command is seen out, the only
    one that can go without an ack, and the turn is free at the end.
  \<^item> Data: validation, backoff, TLS modes, certificate pins, the version window (wrap-around included), auth replies
    and acks are characterised exactly; a wizard is read from JSON exactly when it has the documented shape, and what is written is read back, as is
    what the configuration, the credential file, \<open>state.json\<close>, manifests and upgrade policies are written as.

  \<^bold>\<open>Bounds and fuel.\<close> Symbolic links are followed at most 40 times as Linux does (\<open>resolve_n 41\<close>). Downloads try
  three times. Every other recursion is structural or over a list of inputs. Machine integers have their
  width and wrap as in a release build, where a debug build would panic on an overflow (of the sum in
  \<open>check_version_window\<close>, for one): attempts and boot counts are 32-bit and saturate, the URL cursor is a 64-bit word that wraps
  (the schedule is stated for fewer than \<open>2 ^ 64\<close> attempts), version numbers and sequences are 64-bit words.
  Channels hold 256 frames, 256 inbound items with 20 MiB of text, and 64 commands with 20 MiB.

  \<^bold>\<open>What is an argument.\<close> Code that is not in the repository: the printers and parsers of JSON, URLs, X.509
  and semantic versions, hashing and signature checks, the HTTP client, sockets, name lookup and TLS, the tar
  reader, the clock, the environment, and the vendor's handler. Properties that rely on such code say so in
  their hypotheses (a parser reads back what was printed, say), and their witnesses instantiate it.

  \<^bold>\<open>Not modelled.\<close> Time as it passes: a timeout is an event that may happen whenever the code could wait, the
  30 s, 10 s and 5 minute limits appear only in the messages; the schedule of the tokio runtime beyond the order
  the code itself enforces (a select that both could win may go either way); file locks between processes, which
  succeed; the umask, taken to be 022, so that new files have mode 0644; the moment between taking a
  command from its queue and its task giving the bytes back to the budget, which are one step; the text of log lines; of serde, reading a struct from a positional array; archives that
  unpack through symbolic links of their own (ruled out by \<open>unpacks_in_place\<close> where it matters); durability of fsync (a call that returned is
  on the disk); symbolic links inside the install root's own path; a version string is one path component. The
  crate root only declares modules and re-exports; the one-time install of the process-wide crypto provider in
  src/tls.rs is left out. The findings of the manifest list where the code and its documentation part.

  \<^bold>\<open>Plan.\<close> What could come next: the client's reconnect loop and the link as one step system; two coordinators
  of different processes under the same install root.
\<close>

end
